(* ===== verification/Prelude.thy ===== *)
theory Prelude
  imports Main
begin

text \<open>
  What the components share: the error codes of \<open>include/plfit_error.h\<close>, the results of
  operations that can fail, and general facts about lists. A C function that returns an error
  code and writes its answer through pointers is modelled as a value of \<open>'a result\<close>: \<open>Inr\<close>
  of what it writes when it returns \<open>PLFIT_SUCCESS\<close>, \<open>Inl\<close> of the reason otherwise. A read or
  write outside an array, and a conversion of a \<open>double\<close> that the integer type cannot hold,
  is undefined behaviour in C and stops the model with \<open>Undefined\<close>. A loop of which no
  termination argument is known takes a bound on its iterations; \<open>Out_of_fuel\<close> is its result
  when the bound is too small.
\<close>

datatype plfit_errno =
  PLFIT_FAILURE | PLFIT_EINVAL | PLFIT_UNDRFLOW | PLFIT_OVERFLOW | PLFIT_ENOMEM | PLFIT_EMAXITER

datatype stop = Err plfit_errno | Undefined | Out_of_fuel

type_synonym 'a result = "stop + 'a"

text \<open>The macro \<open>PLFIT_CHECK\<close>: leave with the callee's error code, or go on.\<close>

definition plfit_check :: "'a result \<Rightarrow> ('a \<Rightarrow> 'b result) \<Rightarrow> 'b result" where
  "plfit_check r k = (case r of Inl e \<Rightarrow> Inl e | Inr x \<Rightarrow> k x)"

text \<open>The macro \<open>PLFIT_ERROR\<close>, with an error handler that returns.\<close>

abbreviation plfit_fail :: "plfit_errno \<Rightarrow> 'a result" where
  "plfit_fail e \<equiv> Inl (Err e)"

text \<open>Array accesses: undefined outside the array.\<close>

definition array_get :: "'a list \<Rightarrow> nat \<Rightarrow> 'a result" where
  "array_get xs i = (if i < length xs then Inr (xs ! i) else Inl Undefined)"

definition array_set :: "'a list \<Rightarrow> nat \<Rightarrow> 'a \<Rightarrow> 'a list result" where
  "array_set xs i x = (if i < length xs then Inr (xs[i := x]) else Inl Undefined)"

lemma plfit_check_simps [simp]:
  "plfit_check (Inl e) k = Inl e" "plfit_check (Inr x) k = k x"
  by (simp_all add: plfit_check_def)

lemma plfit_check_eq_Inr:
  "plfit_check r k = Inr y \<longleftrightarrow> (\<exists>x. r = Inr x \<and> k x = Inr y)"
  by (cases r) auto

lemma plfit_check_eq_Inl:
  "plfit_check r k = Inl e \<longleftrightarrow> r = Inl e \<or> (\<exists>x. r = Inr x \<and> k x = Inl e)"
  by (cases r) auto

lemma plfit_check_assoc:
  "plfit_check (plfit_check r k) h = plfit_check r (\<lambda>x. plfit_check (k x) h)"
  by (cases r) auto

lemma plfit_check_cong [fundef_cong]:
  "r = r' \<Longrightarrow> (\<And>x. r' = Inr x \<Longrightarrow> k x = k' x) \<Longrightarrow> plfit_check r k = plfit_check r' k'"
  by (cases r') auto

lemma plfit_check_return [simp]: "plfit_check r Inr = r"
  by (cases r) auto

lemma array_get_in [simp]: "i < length xs \<Longrightarrow> array_get xs i = Inr (xs ! i)"
  by (simp add: array_get_def)

lemma array_set_in [simp]: "i < length xs \<Longrightarrow> array_set xs i x = Inr (xs[i := x])"
  by (simp add: array_set_def)

lemma array_get_eq_Inr: "array_get xs i = Inr x \<longleftrightarrow> i < length xs \<and> x = xs ! i"
  by (auto simp: array_get_def)

lemma array_set_eq_Inr: "array_set xs i x = Inr ys \<longleftrightarrow> i < length xs \<and> ys = xs[i := x]"
  by (auto simp: array_set_def)

subsection \<open>Loops over an index range and over a list\<close>

text \<open>
  A \<open>for\<close> loop whose body can stop: \<open>loop_res f xs s\<close> runs \<open>f\<close> on the elements of \<open>xs\<close> from
  left to right, threading the loop's variables \<open>s\<close>.
\<close>

fun loop_res :: "('a \<Rightarrow> 's \<Rightarrow> 's result) \<Rightarrow> 'a list \<Rightarrow> 's \<Rightarrow> 's result" where
  "loop_res f [] s = Inr s"
| "loop_res f (x # xs) s = plfit_check (f x s) (loop_res f xs)"

lemma loop_res_cong [fundef_cong]:
  "xs = ys \<Longrightarrow> s = t \<Longrightarrow> (\<And>x s. x \<in> set ys \<Longrightarrow> f x s = g x s) \<Longrightarrow> loop_res f xs s = loop_res g ys t"
  by (induction ys arbitrary: xs s t) (auto intro!: plfit_check_cong)

lemma loop_res_append:
  "loop_res f (xs @ ys) s = plfit_check (loop_res f xs s) (loop_res f ys)"
  by (induction xs arbitrary: s) (auto simp: plfit_check_assoc intro: plfit_check_cong)

text \<open>The invariant rule for such loops: the invariant counts the finished iterations.\<close>

lemma loop_res_invariant:
  assumes "P 0 s"
    and "\<And>i s. i < length xs \<Longrightarrow> P i s \<Longrightarrow> \<exists>s'. f (xs ! i) s = Inr s' \<and> P (Suc i) s'"
  shows "\<exists>s'. loop_res f xs s = Inr s' \<and> P (length xs) s'"
  using assms
proof (induction xs arbitrary: P s)
  case Nil
  then show ?case by simp
next
  case (Cons x xs)
  obtain s1 where s1: "f x s = Inr s1" "P (Suc 0) s1" using Cons.prems(1) Cons.prems(2) [of 0 s] by auto
  have "\<exists>s'. loop_res f xs s1 = Inr s' \<and> P (Suc (length xs)) s'"
    using s1(2) Cons.prems(2) by (intro Cons.IH [of "\<lambda>i. P (Suc i)"]) fastforce+
  with s1 show ?case by auto
qed

lemma loop_res_result:
  assumes "loop_res f xs s = Inr s'" "P 0 s"
    and "\<And>i s s'. i < length xs \<Longrightarrow> P i s \<Longrightarrow> f (xs ! i) s = Inr s' \<Longrightarrow> P (Suc i) s'"
  shows "P (length xs) s'"
  using assms
proof (induction xs arbitrary: P s)
  case Nil
  then show ?case by simp
next
  case (Cons x xs)
  then obtain s1 where s1: "f x s = Inr s1" "loop_res f xs s1 = Inr s'"
    by (auto simp: plfit_check_eq_Inr)
  have "P (Suc 0) s1" using Cons.prems(2) Cons.prems(3) [of 0 s s1] s1 by auto
  moreover have "P (Suc (Suc i)) t'" if "i < length xs" "P (Suc i) t" "f (xs ! i) t = Inr t'" for i t t'
    using Cons.prems(3) [of "Suc i" t t'] that by simp
  ultimately show ?case using Cons.IH [OF s1(2), of "\<lambda>i. P (Suc i)"] by simp
qed

subsection \<open>Lists\<close>

lemma take_push: "k < length xs \<Longrightarrow> take (Suc k) (xs[k := x]) = take k xs @ [x]"
  by (subst take_Suc_conv_app_nth) simp_all

lemma fold_upt_invariant:
  assumes "P a s" "a \<le> b" "\<And>i s. a \<le> i \<Longrightarrow> i < b \<Longrightarrow> P i s \<Longrightarrow> P (Suc i) (f i s)"
  shows "P b (fold f [a..<b] s)"
  using assms(2,1,3)
proof (induction b rule: dec_induct)
  case base
  then show ?case by simp
next
  case (step n)
  then have "P n (fold f [a..<n] s)" by simp
  with step show ?case by simp
qed

end
