(* ===== verification/Rounding.thy ===== *)
theory Rounding
  imports Complex_Main "HOL-Library.Log_Nat"
begin

text \<open>
  Rounding of a rational number to a binary floating-point format, as IEEE 754 defines it:
  round to nearest, ties to even. A format is its precision \<open>p\<close> (bits of the significand)
  and \<open>em\<close>, the exponent of its least positive number \<open>2 ^ em\<close>; the double of the
  program is \<open>p = 53\<close>, \<open>em = -1074\<close>. Everything here is executable, and the lemmas are
  what the proofs about the program's arithmetic rest on: rounding is monotone, keeps zero and
  signs, is exact on the grid of the format and has a bounded relative error.
\<close>

named_theorems round_intros "facts that bound or fix a rounded value"

subsection \<open>Rounding to an integer, ties to even\<close>

definition round_half_even :: "rat \<Rightarrow> int" where
  "round_half_even x =
     (let f = \<lfloor>x\<rfloor>; r = x - of_int f in
      if r < 1 / 2 then f else if 1 / 2 < r then f + 1 else if even f then f else f + 1)"

lemma round_half_even_of_int [simp]: "round_half_even (of_int n) = n"
  by (simp add: round_half_even_def)

lemma round_half_even_bounds:
  "x - 1 / 2 \<le> of_int (round_half_even x)" "of_int (round_half_even x) \<le> x + 1 / 2"
proof -
  have f: "of_int \<lfloor>x\<rfloor> \<le> x" "x < of_int \<lfloor>x\<rfloor> + 1" by linarith+
  show "x - 1 / 2 \<le> of_int (round_half_even x)"
    using f by (simp add: round_half_even_def Let_def)
  show "of_int (round_half_even x) \<le> x + 1 / 2"
  proof (cases "x - of_int \<lfloor>x\<rfloor> < 1 / 2")
    case True
    with f have "of_int (round_half_even x) = (of_int \<lfloor>x\<rfloor> :: rat)"
      by (simp add: round_half_even_def Let_def)
    with f show ?thesis by linarith
  next
    case False
    with f show ?thesis by (auto simp: round_half_even_def Let_def)
  qed
qed

lemma round_half_even_floor: "\<lfloor>x\<rfloor> \<le> round_half_even x" "round_half_even x \<le> \<lfloor>x\<rfloor> + 1"
  by (auto simp: round_half_even_def Let_def)

lemma round_half_even_mono:
  assumes "x \<le> y"
  shows "round_half_even x \<le> round_half_even y"
proof (cases "\<lfloor>x\<rfloor> = \<lfloor>y\<rfloor>")
  case True
  have "x - of_int \<lfloor>x\<rfloor> \<le> y - of_int \<lfloor>x\<rfloor>" using assms by simp
  with True show ?thesis by (simp add: round_half_even_def Let_def)
next
  case False
  with assms have "\<lfloor>x\<rfloor> + 1 \<le> \<lfloor>y\<rfloor>" using floor_mono [OF assms] by linarith
  with round_half_even_floor(2) [of x] round_half_even_floor(1) [of y] show ?thesis by linarith
qed

lemma round_half_even_le_int: "x \<le> of_int n \<Longrightarrow> round_half_even x \<le> n"
  using round_half_even_mono [of x "of_int n"] by simp

lemma round_half_even_ge_int: "of_int n \<le> x \<Longrightarrow> n \<le> round_half_even x"
  using round_half_even_mono [of "of_int n" x] by simp

subsection \<open>The binary exponent\<close>

definition ilog2 :: "rat \<Rightarrow> int" where
  "ilog2 y = (let (a, b) = quotient_of y; e = bitlen a - bitlen b in
              if 2 powi e \<le> y then e else e - 1)"

lemma powi_pos [simp]: "(0::rat) < 2 powi e"
  by (simp add: zero_less_power_int)

lemma powi_nonneg [simp]: "(0::rat) \<le> 2 powi e"
  by (simp add: zero_le_power_int)

lemma powi_add2: "(2::rat) powi (a + b) = 2 powi a * 2 powi b"
  by (simp add: power_int_add)

lemma powi_diff2: "(2::rat) powi (a - b) = 2 powi a / 2 powi b"
  by (simp add: power_int_diff)

lemma powi_Suc2: "(2::rat) powi (a + 1) = 2 * 2 powi a"
  by (simp add: power_int_add)

lemma powi_mono2: "a \<le> b \<Longrightarrow> (2::rat) powi a \<le> 2 powi b"
  by (simp add: power_int_increasing)

lemma powi_less2: "(2::rat) powi a < 2 powi b \<Longrightarrow> a < b"
  using powi_mono2 [of b a] by linarith

lemma bitlen_powi:
  assumes "0 < (a::int)"
  shows "2 powi (bitlen a - 1) \<le> (of_int a :: rat)" "(of_int a :: rat) < 2 powi bitlen a"
proof -
  have b: "0 < bitlen a" using assms by (metis bitlen_eq_zero_iff bitlen_nonneg leD order_le_less)
  note bb = bitlen_bounds [OF assms]
  have "(of_int (2 ^ nat (bitlen a - 1)) :: rat) \<le> of_int a" using bb by (simp only: of_int_le_iff)
  then show "2 powi (bitlen a - 1) \<le> (of_int a :: rat)"
    using b by (simp add: power_int_def)
  have "(of_int a :: rat) < of_int (2 ^ nat (bitlen a))" using bb by (simp only: of_int_less_iff)
  then show "(of_int a :: rat) < 2 powi bitlen a"
    using b by (simp add: power_int_def)
qed

lemma ilog2_bounds:
  assumes "0 < y"
  shows "2 powi ilog2 y \<le> y" "y < 2 powi (ilog2 y + 1)"
proof -
  obtain a b where ab: "quotient_of y = (a, b)" by (cases "quotient_of y")
  have b: "0 < b" using ab by (rule quotient_of_denom_pos)
  have y: "y = of_int a / of_int b" using ab by (rule quotient_of_div)
  have a: "0 < a" using assms b y by (simp add: zero_less_divide_iff)
  let ?e = "bitlen a - bitlen b"
  have "y < 2 powi bitlen a / 2 powi (bitlen b - 1)"
    unfolding y using bitlen_powi [OF a] bitlen_powi [OF b] b a
    by (intro frac_less) auto
  then have hi: "y < 2 powi (?e + 1)"
    by (simp add: powi_diff2 powi_add2)
  have "2 powi (bitlen a - 1) / 2 powi bitlen b \<le> y"
    unfolding y using bitlen_powi [OF a] bitlen_powi [OF b] b a
    by (intro frac_le) auto
  then have lo: "2 powi (?e - 1) \<le> y"
    by (simp add: powi_diff2)
  show "2 powi ilog2 y \<le> y" using lo by (simp add: ilog2_def ab Let_def)
  show "y < 2 powi (ilog2 y + 1)" using hi by (simp add: ilog2_def ab Let_def)
qed

lemma ilog2_eqI:
  assumes "2 powi e \<le> y" "y < 2 powi (e + 1)"
  shows "ilog2 y = e"
proof -
  have y: "0 < y" using assms(1) powi_pos [of e] by linarith
  have "(2::rat) powi e < 2 powi (ilog2 y + 1)" using assms(1) ilog2_bounds(2) [OF y] by linarith
  then have "e < ilog2 y + 1" by (rule powi_less2)
  moreover have "(2::rat) powi ilog2 y < 2 powi (e + 1)" using assms(2) ilog2_bounds(1) [OF y] by linarith
  then have "ilog2 y < e + 1" by (rule powi_less2)
  ultimately show ?thesis by linarith
qed

lemma ilog2_mono:
  assumes "0 < x" "x \<le> y"
  shows "ilog2 x \<le> ilog2 y"
proof -
  have "(2::rat) powi ilog2 x < 2 powi (ilog2 y + 1)"
    using assms ilog2_bounds(1) [of x] ilog2_bounds(2) [of y] by linarith
  then have "ilog2 x < ilog2 y + 1" by (rule powi_less2)
  then show ?thesis by linarith
qed

lemma ilog2_powi [simp]: "ilog2 (2 powi e) = e"
  by (rule ilog2_eqI) (simp_all add: powi_Suc2)

subsection \<open>Rounding to a format\<close>

definition ulp_exp :: "nat \<Rightarrow> int \<Rightarrow> rat \<Rightarrow> int" where
  "ulp_exp p em y = max (ilog2 y - int p + 1) em"

definition round_mag :: "nat \<Rightarrow> int \<Rightarrow> rat \<Rightarrow> rat" where
  "round_mag p em y =
     (let u = 2 powi ulp_exp p em y in of_int (round_half_even (y / u)) * u)"

definition round_fmt :: "nat \<Rightarrow> int \<Rightarrow> rat \<Rightarrow> rat" where
  "round_fmt p em x =
     (if x = 0 then 0 else if x < 0 then - round_mag p em (- x) else round_mag p em x)"

text \<open>The numbers of a format (unbounded above): small multiples of a power of two.\<close>

definition on_grid :: "nat \<Rightarrow> int \<Rightarrow> rat \<Rightarrow> bool" where
  "on_grid p em x \<longleftrightarrow> (\<exists>j k. x = of_int j * 2 powi k \<and> \<bar>j\<bar> \<le> 2 ^ p \<and> em \<le> k)"

lemma on_gridI: "x = of_int j * 2 powi k \<Longrightarrow> \<bar>j\<bar> \<le> 2 ^ p \<Longrightarrow> em \<le> k \<Longrightarrow> on_grid p em x"
  by (auto simp: on_grid_def)

lemma on_grid_minus [simp]: "on_grid p em (- x) \<longleftrightarrow> on_grid p em x"
proof -
  have "on_grid p em (- y)" if "on_grid p em y" for y
  proof -
    from that obtain j k where "y = of_int j * 2 powi k" "\<bar>j\<bar> \<le> 2 ^ p" "em \<le> k"
      by (auto simp: on_grid_def)
    then show ?thesis by (intro on_gridI [of _ "- j" k]) auto
  qed
  from this [of x] this [of "- x"] show ?thesis by auto
qed

lemma round_fmt_0 [simp]: "round_fmt p em 0 = 0"
  by (simp add: round_fmt_def)

lemma round_fmt_minus [simp]: "round_fmt p em (- x) = - round_fmt p em x"
  by (auto simp: round_fmt_def)

lemma powi_ratio:
  assumes "a \<le> b"
  shows "(2::rat) powi b / 2 powi a = of_int (2 ^ nat (b - a))"
proof -
  have "(2::rat) powi b / 2 powi a = 2 powi (b - a)" by (simp only: powi_diff2)
  also have "\<dots> = of_int (2 ^ nat (b - a))" using assms by (simp add: power_int_def)
  finally show ?thesis .
qed

lemma round_mag_le_powi:
  assumes "y \<le> of_int j * 2 powi k" and "ulp_exp p em y \<le> k"
  shows "round_mag p em y \<le> of_int j * 2 powi k"
proof -
  let ?a = "ulp_exp p em y"
  have r: "of_int j * 2 powi k / 2 powi ?a = (of_int (j * 2 ^ nat (k - ?a)) :: rat)"
    using powi_ratio [OF assms(2)] by (simp add: field_simps)
  have "y / 2 powi ?a \<le> of_int j * 2 powi k / 2 powi ?a"
    using assms(1) by (simp add: divide_right_mono)
  then have "round_half_even (y / 2 powi ?a) \<le> j * 2 ^ nat (k - ?a)"
    unfolding r by (rule round_half_even_le_int)
  then have "of_int (round_half_even (y / 2 powi ?a)) \<le> of_int j * 2 powi k / (2 powi ?a :: rat)"
    unfolding r by (simp only: of_int_le_iff)
  then show ?thesis by (simp add: round_mag_def Let_def pos_le_divide_eq)
qed

lemma round_mag_ge_powi:
  assumes "of_int j * 2 powi k \<le> y" and "ulp_exp p em y \<le> k"
  shows "of_int j * 2 powi k \<le> round_mag p em y"
proof -
  let ?a = "ulp_exp p em y"
  have r: "of_int j * 2 powi k / 2 powi ?a = (of_int (j * 2 ^ nat (k - ?a)) :: rat)"
    using powi_ratio [OF assms(2)] by (simp add: field_simps)
  have "of_int j * 2 powi k / 2 powi ?a \<le> y / 2 powi ?a"
    using assms(1) by (simp add: divide_right_mono)
  then have "j * 2 ^ nat (k - ?a) \<le> round_half_even (y / 2 powi ?a)"
    unfolding r by (rule round_half_even_ge_int)
  then have "of_int j * 2 powi k / (2 powi ?a :: rat) \<le> of_int (round_half_even (y / 2 powi ?a))"
    unfolding r by (simp only: of_int_le_iff)
  then show ?thesis by (simp add: round_mag_def Let_def pos_divide_le_eq)
qed

lemma round_mag_nonneg: "0 \<le> y \<Longrightarrow> 0 \<le> round_mag p em y"
  using round_mag_ge_powi [of 0 "ulp_exp p em y" y p em] by simp

lemma ulp_exp_mono: "0 < x \<Longrightarrow> x \<le> y \<Longrightarrow> ulp_exp p em x \<le> ulp_exp p em y"
  using ilog2_mono [of x y] by (simp add: ulp_exp_def max_def)

text \<open>Between two numbers with different units in the last place lies a power of two.\<close>

lemma round_mag_mono:
  assumes "0 < x" "x \<le> y" "0 < p"
  shows "round_mag p em x \<le> round_mag p em y"
proof (cases "ulp_exp p em x = ulp_exp p em y")
  case True
  have "x / 2 powi ulp_exp p em x \<le> y / 2 powi ulp_exp p em x"
    using assms by (simp add: divide_right_mono)
  then have "round_half_even (x / 2 powi ulp_exp p em x) \<le> round_half_even (y / 2 powi ulp_exp p em x)"
    by (rule round_half_even_mono)
  then show ?thesis using True by (simp add: round_mag_def Let_def mult_right_mono)
next
  case False
  with ulp_exp_mono [OF assms(1,2), of p em] have l: "ulp_exp p em x < ulp_exp p em y" by simp
  then have e: "ulp_exp p em y = ilog2 y - int p + 1" by (auto simp: ulp_exp_def max_def split: if_splits)
  with l have ll: "ilog2 x < ilog2 y" by (auto simp: ulp_exp_def)
  have y: "0 < y" using assms by linarith
  let ?B = "(2::rat) powi ilog2 y"
  have "x < 2 powi (ilog2 x + 1)" by (rule ilog2_bounds(2) [OF assms(1)])
  also have "\<dots> \<le> ?B" using ll by (intro powi_mono2) simp
  finally have "x \<le> of_int 1 * ?B" by simp
  moreover have "ulp_exp p em x \<le> ilog2 y" using l e assms(3) by simp
  ultimately have "round_mag p em x \<le> of_int 1 * ?B" by (rule round_mag_le_powi)
  also have "of_int 1 * ?B \<le> round_mag p em y"
    using ilog2_bounds(1) [OF y] e assms(3) by (intro round_mag_ge_powi) auto
  finally show ?thesis .
qed

lemma round_fmt_nonneg [round_intros]: "0 \<le> x \<Longrightarrow> 0 \<le> round_fmt p em x"
  by (simp add: round_fmt_def round_mag_nonneg)

lemma round_fmt_mono [round_intros]:
  assumes "x \<le> y" "0 < p"
  shows "round_fmt p em x \<le> round_fmt p em y"
proof -
  consider "0 < x" | "x = 0" | "x < 0" "0 < y" | "x < 0" "y = 0" | "x < 0" "y < 0" by linarith
  then show ?thesis
  proof cases
    case 1
    with assms round_mag_mono [of x y p em] show ?thesis by (simp add: round_fmt_def)
  next
    case 2
    with assms show ?thesis by (simp add: round_fmt_nonneg)
  next
    case 3
    then show ?thesis using round_mag_nonneg [of "- x" p em] round_mag_nonneg [of y p em]
      by (simp add: round_fmt_def)
  next
    case 4
    then show ?thesis using round_mag_nonneg [of "- x" p em] by (simp add: round_fmt_def)
  next
    case 5
    then show ?thesis using assms round_mag_mono [of "- y" "- x" p em] by (simp add: round_fmt_def)
  qed
qed

subsection \<open>Exactness on the grid\<close>

lemma round_mag_exact:
  assumes "y = of_int j * 2 powi k" "0 < j" "j \<le> 2 ^ p" "em \<le> k" "0 < p"
  shows "round_mag p em y = y"
proof -
  have ex: "round_mag p em y = y"
    if y: "y = of_int i * 2 powi l" and i: "0 < i" "i < 2 ^ p" and l: "em \<le> l" for i l
  proof -
    have pos: "0 < y" using y i by simp
    have "(of_int i :: rat) < of_int (2 ^ p)" using i by (simp only: of_int_less_iff)
    then have "y < 2 powi (int p + l)" unfolding y by (simp add: powi_add2)
    then have "2 powi ilog2 y < (2 powi (int p + l) :: rat)"
      using ilog2_bounds(1) [OF pos] by linarith
    then have "ilog2 y < int p + l" by (rule powi_less2)
    with l have u: "ulp_exp p em y \<le> l" by (simp add: ulp_exp_def)
    from round_mag_le_powi [OF eq_refl [OF y] u] round_mag_ge_powi [OF eq_refl [OF y [symmetric]] u]
    show ?thesis unfolding y by simp
  qed
  show ?thesis
  proof (cases "j = 2 ^ p")
    case True
    have "(2::int) ^ p = 2 * 2 ^ (p - 1)" using \<open>0 < p\<close> by (cases p) auto
    then have "y = of_int (2 ^ (p - 1)) * 2 powi (k + 1)"
      using assms(1) True by (simp add: powi_Suc2)
    moreover have "(2::int) ^ (p - 1) < 2 ^ p" using \<open>0 < p\<close> by simp
    ultimately show ?thesis using assms(4) by (intro ex [of "2 ^ (p - 1)" "k + 1"]) auto
  next
    case False
    with assms show ?thesis by (intro ex) auto
  qed
qed

lemma round_fmt_exact:
  assumes "on_grid p em x" "0 < p"
  shows "round_fmt p em x = x"
proof -
  from assms obtain j k where jk: "x = of_int j * 2 powi k" "\<bar>j\<bar> \<le> 2 ^ p" "em \<le> k"
    by (auto simp: on_grid_def)
  consider "j = 0" | "0 < j" | "j < 0" by linarith
  then show ?thesis
  proof cases
    case 1
    with jk show ?thesis by simp
  next
    case 2
    then have "0 < x" using jk by simp
    moreover have "round_mag p em x = x" using 2 jk assms by (intro round_mag_exact [of x j k]) auto
    ultimately show ?thesis by (simp add: round_fmt_def)
  next
    case 3
    have n: "- x = of_int (- j) * 2 powi k" using jk by simp
    have "x < 0" using 3 jk by (simp add: mult_neg_pos)
    moreover have "round_mag p em (- x) = - x" using 3 jk assms by (intro round_mag_exact [OF n]) auto
    ultimately show ?thesis by (simp add: round_fmt_def)
  qed
qed

lemma round_mag_on_grid:
  assumes "0 < y" "0 < p"
  shows "on_grid p em (round_mag p em y)"
proof -
  let ?a = "ulp_exp p em y"
  have "y < 2 powi (ilog2 y + 1)" by (rule ilog2_bounds(2) [OF assms(1)])
  also have "\<dots> \<le> (2::rat) powi (int p + ?a)" by (intro powi_mono2) (simp add: ulp_exp_def)
  finally have "y / 2 powi ?a \<le> of_int (2 ^ p)" by (simp add: powi_add2 pos_divide_le_eq)
  then have "round_half_even (y / 2 powi ?a) \<le> 2 ^ p" by (rule round_half_even_le_int)
  moreover have "0 \<le> round_half_even (y / 2 powi ?a)"
    using assms by (intro round_half_even_ge_int) simp
  ultimately show ?thesis
    by (intro on_gridI [of _ "round_half_even (y / 2 powi ?a)" ?a])
      (auto simp: round_mag_def Let_def ulp_exp_def)
qed

lemma on_grid_0 [simp]: "on_grid p em 0"
  by (rule on_gridI [of _ 0 em]) auto

lemma round_fmt_on_grid: "0 < p \<Longrightarrow> on_grid p em (round_fmt p em x)"
  using round_mag_on_grid [of x p em] round_mag_on_grid [of "- x" p em]
  by (auto simp: round_fmt_def)

lemma round_fmt_idem [simp]: "0 < p \<Longrightarrow> round_fmt p em (round_fmt p em x) = round_fmt p em x"
  by (simp add: round_fmt_exact round_fmt_on_grid)

lemma round_fmt_le_grid [round_intros]:
  "x \<le> b \<Longrightarrow> on_grid p em b \<Longrightarrow> 0 < p \<Longrightarrow> round_fmt p em x \<le> b"
  using round_fmt_mono [of x b p em] by (simp add: round_fmt_exact)

lemma round_fmt_ge_grid [round_intros]:
  "b \<le> x \<Longrightarrow> on_grid p em b \<Longrightarrow> 0 < p \<Longrightarrow> b \<le> round_fmt p em x"
  using round_fmt_mono [of b x p em] by (simp add: round_fmt_exact)

text \<open>Every number of the format is a whole multiple of the least one.\<close>

lemma on_grid_least:
  assumes "on_grid p em x"
  obtains i where "x = of_int i * 2 powi em"
proof -
  from assms obtain j k where jk: "x = of_int j * 2 powi k" "em \<le> k" by (auto simp: on_grid_def)
  from powi_ratio [OF jk(2)] have "(2::rat) powi k = of_int (2 ^ nat (k - em)) * 2 powi em"
    by (simp add: field_simps)
  with jk have "x = of_int (j * 2 ^ nat (k - em)) * 2 powi em" by simp
  then show ?thesis by (rule that)
qed

subsection \<open>The rounding error\<close>

lemma round_fmt_error: "\<bar>round_fmt p em x - x\<bar> \<le> 2 powi (ulp_exp p em \<bar>x\<bar> - 1)"
proof -
  have m: "\<bar>round_mag p em y - y\<bar> \<le> 2 powi (ulp_exp p em y - 1)" for y
  proof -
    let ?u = "(2::rat) powi ulp_exp p em y" and ?r = "of_int (round_half_even (y / 2 powi ulp_exp p em y)) :: rat"
    have "\<bar>?r - y / ?u\<bar> \<le> 1 / 2"
      using round_half_even_bounds [of "y / ?u"] by linarith
    then have "\<bar>?r - y / ?u\<bar> * ?u \<le> 1 / 2 * ?u" by (rule mult_right_mono) simp
    moreover have "\<bar>?r - y / ?u\<bar> * ?u = \<bar>(?r - y / ?u) * ?u\<bar>" by (simp add: abs_mult)
    moreover have "(?r - y / ?u) * ?u = ?r * ?u - y" by (simp add: field_simps)
    ultimately show ?thesis by (simp add: round_mag_def Let_def powi_diff2)
  qed
  from m [of x] m [of "- x"] show ?thesis by (auto simp: round_fmt_def abs_minus_commute)
qed

lemma round_fmt_rel_error:
  assumes "2 powi (em + int p - 1) \<le> \<bar>x\<bar>"
  shows "\<bar>round_fmt p em x - x\<bar> \<le> \<bar>x\<bar> * 2 powi (- int p)"
proof -
  have x: "0 < \<bar>x\<bar>" using assms powi_pos [of "em + int p - 1"] by linarith
  have "(2::rat) powi (em + int p - 1) < 2 powi (ilog2 \<bar>x\<bar> + 1)"
    using assms ilog2_bounds(2) [OF x] by linarith
  then have "em + int p - 1 < ilog2 \<bar>x\<bar> + 1" by (rule powi_less2)
  then have "ulp_exp p em \<bar>x\<bar> - 1 = ilog2 \<bar>x\<bar> - int p" by (simp add: ulp_exp_def)
  with round_fmt_error [of p em x]
  have "\<bar>round_fmt p em x - x\<bar> \<le> 2 powi ilog2 \<bar>x\<bar> * 2 powi (- int p)"
    by (simp add: powi_add2 [symmetric])
  also have "\<dots> \<le> \<bar>x\<bar> * 2 powi (- int p)"
    using ilog2_bounds(1) [OF x] by (intro mult_right_mono) auto
  finally show ?thesis .
qed

text \<open>
  A multiple of the least positive number is either large enough for the relative bound or
  small enough to be exact: sums and differences never lose anything to underflow.
\<close>

lemma round_fmt_rel_error_grid:
  assumes "x = of_int i * 2 powi em" "0 < p"
  shows "\<bar>round_fmt p em x - x\<bar> \<le> \<bar>x\<bar> * 2 powi (- int p)"
proof (cases "2 powi (em + int p - 1) \<le> \<bar>x\<bar>")
  case True
  then show ?thesis by (rule round_fmt_rel_error)
next
  case False
  then have "\<bar>of_int i\<bar> * 2 powi em < (2 powi (int p - 1) * 2 powi em :: rat)"
    by (simp add: assms(1) abs_mult powi_add2 [symmetric] algebra_simps)
  then have "\<bar>of_int i\<bar> < (2 powi (int p - 1) :: rat)" by (simp only: mult_less_cancel_right_pos powi_pos)
  also have "\<dots> = of_int (2 ^ (p - 1))" using assms(2) by (simp add: power_int_def nat_diff_distrib)
  finally have "\<bar>i\<bar> < 2 ^ (p - 1)" by (simp only: of_int_abs [symmetric] of_int_less_iff)
  also have "(2::int) ^ (p - 1) \<le> 2 ^ p" by simp
  finally have "on_grid p em x" using assms by (intro on_gridI [of _ i em]) auto
  then show ?thesis using assms by (simp add: round_fmt_exact)
qed

end
