(* ===== verification/Double.thy ===== *)
theory Double
  imports Rounding
begin

text \<open>
  The C type \<open>double\<close> of the program: IEEE 754 binary64 with round to nearest, ties to even,
  no excess precision. A value is a NaN, an infinity, the negative zero, or a finite number
  \<open>Fin q\<close> whose value is the rational \<open>q\<close> (\<open>Fin 0\<close> is the positive zero). The operators
  \<open>+ - * /\<close>, \<open><\<close>, \<open>\<le>\<close> and \<open>abs\<close> are instantiated with the C meaning, so the models read
  like the code; \<open>==\<close> is \<open>deq\<close>. Comparisons with a NaN are false, as in C.
\<close>

datatype double = NaN | PInf | NInf | NegZero | Fin rat

definition rnd :: "rat \<Rightarrow> rat" where
  "rnd = round_fmt 53 (-1074)"

definition representable :: "rat \<Rightarrow> bool" where
  "representable = on_grid 53 (-1074)"

subsection \<open>Classification and value\<close>

fun isnan :: "double \<Rightarrow> bool" where
  "isnan NaN = True"
| "isnan _ = False"

fun is_inf :: "double \<Rightarrow> bool" where
  "is_inf PInf = True"
| "is_inf NInf = True"
| "is_inf _ = False"

fun isfinite :: "double \<Rightarrow> bool" where
  "isfinite NegZero = True"
| "isfinite (Fin _) = True"
| "isfinite _ = False"

fun sign_bit :: "double \<Rightarrow> bool" where
  "sign_bit NInf = True"
| "sign_bit NegZero = True"
| "sign_bit (Fin q) = (q < 0)"
| "sign_bit _ = False"

text \<open>The value of a finite double (\<open>0\<close> for the others, never used there).\<close>

fun val :: "double \<Rightarrow> rat" where
  "val (Fin q) = q"
| "val _ = 0"

definition to_double :: "bool \<Rightarrow> rat \<Rightarrow> double" where
  \<comment> \<open>the rounded result of an operation; \<open>neg\<close> is the sign of a zero result\<close>
  "to_double neg q =
     (let r = rnd q in
      if r = 0 then (if neg then NegZero else Fin 0)
      else if 2 ^ 1024 \<le> r then PInf
      else if r \<le> - (2 ^ 1024) then NInf
      else Fin r)"

text \<open>Decimal constants of the source and the conversions from integer types.\<close>

definition lit :: "rat \<Rightarrow> double" where
  "lit q = to_double False q"

definition double_of_int :: "int \<Rightarrow> double" where
  "double_of_int i = to_double False (of_int i)"

definition double_of_nat :: "nat \<Rightarrow> double" where
  "double_of_nat n = double_of_int (int n)"

subsection \<open>Arithmetic and comparison\<close>

fun dneg :: "double \<Rightarrow> double" where
  "dneg NaN = NaN"
| "dneg PInf = NInf"
| "dneg NInf = PInf"
| "dneg NegZero = Fin 0"
| "dneg (Fin q) = (if q = 0 then NegZero else Fin (- q))"

definition dadd :: "double \<Rightarrow> double \<Rightarrow> double" where
  "dadd x y =
     (if isnan x \<or> isnan y then NaN
      else if is_inf x \<and> is_inf y then (if x = y then x else NaN)
      else if is_inf x then x
      else if is_inf y then y
      else to_double (x = NegZero \<and> y = NegZero) (val x + val y))"

definition dinf :: "bool \<Rightarrow> double" where
  "dinf neg = (if neg then NInf else PInf)"

definition dmul :: "double \<Rightarrow> double \<Rightarrow> double" where
  "dmul x y =
     (if isnan x \<or> isnan y then NaN
      else if is_inf x \<or> is_inf y then
        (if (isfinite x \<and> val x = 0) \<or> (isfinite y \<and> val y = 0) then NaN
         else dinf (sign_bit x \<noteq> sign_bit y))
      else to_double (sign_bit x \<noteq> sign_bit y) (val x * val y))"

definition ddiv :: "double \<Rightarrow> double \<Rightarrow> double" where
  "ddiv x y =
     (if isnan x \<or> isnan y then NaN
      else if is_inf x then (if is_inf y then NaN else dinf (sign_bit x \<noteq> sign_bit y))
      else if is_inf y then (if sign_bit x \<noteq> sign_bit y then NegZero else Fin 0)
      else if val y = 0 then (if val x = 0 then NaN else dinf (sign_bit x \<noteq> sign_bit y))
      else to_double (sign_bit x \<noteq> sign_bit y) (val x / val y))"

fun dle :: "double \<Rightarrow> double \<Rightarrow> bool" where
  "dle NaN y = False"
| "dle x NaN = False"
| "dle NInf y = True"
| "dle x PInf = True"
| "dle PInf y = False"
| "dle x NInf = False"
| "dle x y = (val x \<le> val y)"

fun dabs :: "double \<Rightarrow> double" where
  "dabs NaN = NaN"
| "dabs PInf = PInf"
| "dabs NInf = PInf"
| "dabs NegZero = Fin 0"
| "dabs (Fin q) = Fin \<bar>q\<bar>"

definition deq :: "double \<Rightarrow> double \<Rightarrow> bool" where
  "deq x y \<longleftrightarrow> dle x y \<and> dle y x"

instantiation double :: "{zero, one, plus, minus, uminus, times, inverse, ord, abs}"
begin

definition zero_double :: double where "0 = Fin 0"
definition one_double :: double where "1 = Fin 1"
definition plus_double :: "double \<Rightarrow> double \<Rightarrow> double" where "x + y = dadd x y"
definition uminus_double :: "double \<Rightarrow> double" where "- x = dneg x"
definition minus_double :: "double \<Rightarrow> double \<Rightarrow> double" where "x - y = dadd x (dneg y)"
definition times_double :: "double \<Rightarrow> double \<Rightarrow> double" where "x * y = dmul x y"
definition divide_double :: "double \<Rightarrow> double \<Rightarrow> double" where "x div y = ddiv x y"
definition inverse_double :: "double \<Rightarrow> double" where "inverse x = ddiv (Fin 1) x"
definition less_eq_double :: "double \<Rightarrow> double \<Rightarrow> bool" where "x \<le> y \<longleftrightarrow> dle x y"
definition less_double :: "double \<Rightarrow> double \<Rightarrow> bool" where "x < y \<longleftrightarrow> dle x y \<and> \<not> dle y x"
definition abs_double :: "double \<Rightarrow> double" where "\<bar>x\<bar> = dabs x"

instance ..

end

text \<open>\<open>DBL_MAX\<close> and \<open>DBL_MIN\<close> of \<open>float.h\<close>, and rounding functions of \<open>math.h\<close>.\<close>

definition DBL_MAX :: double where
  "DBL_MAX = Fin (2 ^ 1024 - 2 ^ 971)"

definition DBL_MIN :: double where
  "DBL_MIN = Fin (1 / 2 ^ 1022)"

definition trunc_rat :: "rat \<Rightarrow> int" where
  "trunc_rat q = (if q < 0 then - \<lfloor>- q\<rfloor> else \<lfloor>q\<rfloor>)"

definition integral_double :: "double \<Rightarrow> int \<Rightarrow> double" where
  \<comment> \<open>an integer-valued result keeps the sign of its argument when it is zero\<close>
  "integral_double x i = (if i = 0 then (if sign_bit x then NegZero else Fin 0) else Fin (of_int i))"

definition dfloor :: "double \<Rightarrow> double" where
  "dfloor x = (if isfinite x then integral_double x \<lfloor>val x\<rfloor> else x)"

definition dceil :: "double \<Rightarrow> double" where
  "dceil x = (if isfinite x then integral_double x \<lceil>val x\<rceil> else x)"

definition dround :: "double \<Rightarrow> double" where
  \<comment> \<open>\<open>round\<close>: to nearest, halfway cases away from zero\<close>
  "dround x = (if isfinite x then
     integral_double x (if val x < 0 then - \<lfloor>1 / 2 - val x\<rfloor> else \<lfloor>val x + 1 / 2\<rfloor>) else x)"

subsection \<open>Evaluation\<close>

text \<open>
  Code equations that compute on integers only, without normalising fractions between the
  steps, so that concrete runs of the models evaluate by \<open>code_simp\<close>.
\<close>

definition ilog2_frac :: "int \<Rightarrow> int \<Rightarrow> int" where
  "ilog2_frac a b =
     (let e = bitlen a - bitlen b in
      if (if 0 \<le> e then b * 2 ^ nat e \<le> a else b \<le> a * 2 ^ nat (- e)) then e else e - 1)"

definition round_half_even_frac :: "int \<Rightarrow> int \<Rightarrow> int" where
  "round_half_even_frac a b =
     (let f = a div b; r = 2 * (a mod b) in
      if r < b then f else if b < r then f + 1 else if even f then f else f + 1)"

definition round_frac :: "int \<Rightarrow> int \<Rightarrow> int \<times> int" where
  "round_frac a b =
     (let k = max (ilog2_frac a b - 52) (-1074) in
      (if 0 \<le> k then round_half_even_frac a (b * 2 ^ nat k)
       else round_half_even_frac (a * 2 ^ nat (- k)) b, k))"

definition dyadic :: "int \<Rightarrow> int \<Rightarrow> rat" where
  "dyadic j k = of_int j * 2 powi k"

fun strip_twos :: "int \<Rightarrow> nat \<Rightarrow> int \<times> int" where
  "strip_twos j 0 = (j, 1)"
| "strip_twos j (Suc n) = (if even j then strip_twos (j div 2) n else (j, 2 ^ Suc n))"

definition double_frac :: "bool \<Rightarrow> int \<Rightarrow> int \<Rightarrow> double" where
  "double_frac neg a b = to_double neg (of_int a / of_int b)"

lemma ilog2_frac:
  assumes "0 < a" "0 < b"
  shows "ilog2_frac a b = ilog2 (of_int a / of_int b)"
proof -
  let ?y = "of_int a / of_int b :: rat" and ?e = "bitlen a - bitlen b"
  note ba = bitlen_powi [OF assms(1)] and bb = bitlen_powi [OF assms(2)]
  have "?y < 2 powi bitlen a / 2 powi (bitlen b - 1)" using ba bb assms by (intro frac_less) auto
  then have hi: "?y < 2 powi (?e + 1)" by (simp add: powi_diff2 powi_add2)
  have "2 powi (bitlen a - 1) / 2 powi bitlen b \<le> ?y" using ba bb assms by (intro frac_le) auto
  then have lo: "2 powi (?e - 1) \<le> ?y" by (simp add: powi_diff2)
  have c: "(if 0 \<le> ?e then b * 2 ^ nat ?e \<le> a else b \<le> a * 2 ^ nat (- ?e)) \<longleftrightarrow> 2 powi ?e \<le> ?y"
  proof (cases "0 \<le> ?e")
    case True
    have "2 powi ?e \<le> ?y \<longleftrightarrow> (of_int (b * 2 ^ nat ?e) :: rat) \<le> of_int a"
      using True assms by (simp add: power_int_def pos_le_divide_eq mult.commute)
    with True show ?thesis by (simp only: of_int_le_iff) simp
  next
    case False
    have "2 powi ?e \<le> ?y \<longleftrightarrow> (of_int b :: rat) \<le> of_int (a * 2 ^ nat (- ?e))"
      using False assms by (simp add: power_int_def field_simps)
    with False show ?thesis by (simp only: of_int_le_iff) simp
  qed
  show ?thesis
  proof (cases "2 powi ?e \<le> ?y")
    case True
    with c have "ilog2_frac a b = ?e" by (simp add: ilog2_frac_def Let_def)
    moreover have "ilog2 ?y = ?e" using True hi by (rule ilog2_eqI)
    ultimately show ?thesis by simp
  next
    case False
    with c have "ilog2_frac a b = ?e - 1" by (simp add: ilog2_frac_def Let_def)
    moreover have "ilog2 ?y = ?e - 1" using lo False by (intro ilog2_eqI) auto
    ultimately show ?thesis by simp
  qed
qed

lemma round_half_even_frac:
  assumes "0 < b"
  shows "round_half_even_frac a b = round_half_even (of_int a / of_int b)"
proof -
  have f: "\<lfloor>of_int a / of_int b :: rat\<rfloor> = a div b" by (rule floor_divide_of_int_eq)
  have "(of_int a :: rat) = of_int (b * (a div b) + a mod b)" by (simp only: mult_div_mod_eq)
  then have "(of_int a :: rat) = of_int b * of_int (a div b) + of_int (a mod b)" by (simp only: of_int_add of_int_mult)
  then have r: "of_int a / of_int b - of_int (a div b) = (of_int (a mod b) / of_int b :: rat)"
    using assms by (simp add: field_simps)
  have l: "of_int (a mod b) / of_int b < (1 / 2 :: rat) \<longleftrightarrow> 2 * (a mod b) < b"
    using assms of_int_less_iff [where 'a = rat, of "2 * (a mod b)" b]
    by (simp add: pos_divide_less_eq mult.commute)
  have g: "(1 / 2 :: rat) < of_int (a mod b) / of_int b \<longleftrightarrow> b < 2 * (a mod b)"
    using assms of_int_less_iff [where 'a = rat, of b "2 * (a mod b)"]
    by (simp add: pos_less_divide_eq mult.commute)
  show ?thesis
    unfolding round_half_even_frac_def round_half_even_def Let_def f r l g by simp
qed

lemma round_mag_frac:
  assumes "0 < a" "0 < b" "round_frac a b = (j, k)"
  shows "round_mag 53 (-1074) (of_int a / of_int b) = dyadic j k"
proof -
  let ?y = "of_int a / of_int b :: rat"
  have k: "ulp_exp 53 (-1074) ?y = k"
    using assms by (auto simp: round_frac_def ulp_exp_def Let_def ilog2_frac)
  have "round_half_even (?y / 2 powi k) = j"
  proof (cases "0 \<le> k")
    case True
    have "?y / 2 powi k = of_int a / of_int (b * 2 ^ nat k)" using True by (simp add: power_int_def)
    with True assms show ?thesis by (auto simp: round_frac_def Let_def round_half_even_frac)
  next
    case False
    have "?y / 2 powi k = of_int (a * 2 ^ nat (- k)) / of_int b"
      using False by (simp add: power_int_def field_simps)
    with False assms show ?thesis by (auto simp: round_frac_def Let_def round_half_even_frac)
  qed
  with k show ?thesis by (simp add: round_mag_def Let_def dyadic_def)
qed

lemma strip_twos_correct:
  "strip_twos j n = (a, b) \<Longrightarrow> coprime a b \<and> 0 < b \<and> a * 2 ^ n = j * b"
proof (induction n arbitrary: j a b)
  case 0
  then show ?case by simp
next
  case (Suc n)
  show ?case
  proof (cases "even j")
    case True
    with Suc.prems have "strip_twos (j div 2) n = (a, b)" by simp
    from Suc.IH [OF this] have "coprime a b \<and> 0 < b" "a * 2 ^ n = j div 2 * b" by auto
    moreover have "a * 2 ^ Suc n = 2 * (a * 2 ^ n)" by simp
    ultimately show ?thesis using True by (auto simp: mult.assoc [symmetric])
  next
    case False
    then have "coprime j (2 ^ Suc n)" by (simp add: coprime_commute)
    with False Suc.prems show ?thesis by auto
  qed
qed

lemma quotient_of_eqI:
  assumes "coprime a b" "0 < b" "q = of_int a / of_int b"
  shows "quotient_of q = (a, b)"
proof -
  have "q = Fract a b" using assms by (simp add: Fract_of_int_quotient)
  then show ?thesis using assms by (simp add: quotient_of_Fract normalize_stable)
qed

lemma quotient_of_dyadic [code abstract]:
  "quotient_of (dyadic j k) = (if 0 \<le> k then (j * 2 ^ nat k, 1) else strip_twos j (nat (- k)))"
proof (cases "0 \<le> k")
  case True
  then show ?thesis by (auto intro!: quotient_of_eqI simp: dyadic_def power_int_def)
next
  case False
  obtain a b where ab: "strip_twos j (nat (- k)) = (a, b)" by (cases "strip_twos j (nat (- k))")
  from strip_twos_correct [OF this] have c: "coprime a b" "0 < b" and e: "a * 2 ^ nat (- k) = j * b" by auto
  have "(of_int (a * 2 ^ nat (- k)) :: rat) = of_int (j * b)" by (simp only: e)
  then have "dyadic j k = of_int a / of_int b"
    using False c by (simp add: dyadic_def power_int_def field_simps)
  with c have "quotient_of (dyadic j k) = (a, b)" by (intro quotient_of_eqI) auto
  with False ab show ?thesis by simp
qed

lemma dyadic_ge_iff:
  assumes "0 < j"
  shows "2 powi n \<le> dyadic j k \<longleftrightarrow> n \<le> bitlen j + k - 1"
proof -
  note b = bitlen_powi [OF assms]
  have p: "2 powi (bitlen j + k - 1) \<le> dyadic j k"
    using b(1) by (simp add: dyadic_def powi_add2 powi_diff2)
  have q: "dyadic j k < 2 powi (bitlen j + k - 1 + 1)"
    using b(2) by (simp add: dyadic_def powi_add2)
  show ?thesis
  proof
    assume "2 powi n \<le> dyadic j k"
    then have "(2::rat) powi n < 2 powi (bitlen j + k - 1 + 1)" using q by linarith
    from powi_less2 [OF this] show "n \<le> bitlen j + k - 1" by simp
  next
    assume "n \<le> bitlen j + k - 1"
    from powi_mono2 [OF this] p show "2 powi n \<le> dyadic j k" by linarith
  qed
qed

lemma double_frac_code [code]:
  "double_frac neg a b =
     (if 0 < b then
        (let (j, k) = round_frac \<bar>a\<bar> b in
         if a = 0 \<or> j = 0 then (if neg then NegZero else Fin 0)
         else if 1024 \<le> bitlen j + k - 1 then (if a < 0 then NInf else PInf)
         else Fin (dyadic (if a < 0 then - j else j) k))
      else to_double neg (of_int a / of_int b))"
proof (cases "0 < b \<and> a \<noteq> 0")
  case False
  then show ?thesis by (auto simp: double_frac_def to_double_def rnd_def split: prod.splits)
next
  case True
  obtain j k where jk: "round_frac \<bar>a\<bar> b = (j, k)" by (cases "round_frac \<bar>a\<bar> b")
  have m: "round_mag 53 (-1074) (of_int \<bar>a\<bar> / of_int b) = dyadic j k"
    using True jk by (intro round_mag_frac) auto
  have nn: "0 \<le> dyadic j k" using True by (subst m [symmetric]) (rule round_mag_nonneg, simp)
  then have j: "0 \<le> j" using powi_pos [of k] by (simp add: dyadic_def zero_le_mult_iff)
  have r: "rnd (of_int a / of_int b) = (if a < 0 then - dyadic j k else dyadic j k)"
    using m True by (auto simp: rnd_def round_fmt_def divide_less_0_iff)
  have z: "dyadic j k = 0 \<longleftrightarrow> j = 0" by (simp add: dyadic_def)
  have t: "(2::rat) ^ 1024 = 2 powi 1024" by (simp add: power_int_def)
  have d: "dyadic (- j) k = - dyadic j k" by (simp add: dyadic_def)
  show ?thesis
  proof (cases "j = 0")
    case True
    with r z jk show ?thesis by (simp add: double_frac_def to_double_def)
  next
    case False
    with j have "0 < j" by simp
    note g = dyadic_ge_iff [OF this, of 1024 k] and p = powi_pos [of 1024]
    show ?thesis
      using False True jk r z g nn p unfolding double_frac_def to_double_def t
      by (auto simp: Let_def d)
  qed
qed

lemma to_double_code [code]:
  "to_double neg q = (case quotient_of q of (a, b) \<Rightarrow> double_frac neg a b)"
  using quotient_of_div [of q] by (auto simp: double_frac_def split: prod.splits)

lemma quotient_of_pos: "quotient_of q = (a, b) \<Longrightarrow> q = of_int a / of_int b \<and> 0 < b"
  using quotient_of_div quotient_of_denom_pos by blast

lemma dadd_code [code]:
  "dadd x y =
     (if isnan x \<or> isnan y then NaN
      else if is_inf x \<and> is_inf y then (if x = y then x else NaN)
      else if is_inf x then x
      else if is_inf y then y
      else case (quotient_of (val x), quotient_of (val y)) of ((a, b), (c, d)) \<Rightarrow>
        double_frac (x = NegZero \<and> y = NegZero) (a * d + c * b) (b * d))"
  by (auto simp: dadd_def double_frac_def add_frac_eq mult.commute
      dest!: quotient_of_pos split: prod.splits)

lemma dmul_code [code]:
  "dmul x y =
     (if isnan x \<or> isnan y then NaN
      else if is_inf x \<or> is_inf y then
        (if (isfinite x \<and> val x = 0) \<or> (isfinite y \<and> val y = 0) then NaN
         else dinf (sign_bit x \<noteq> sign_bit y))
      else case (quotient_of (val x), quotient_of (val y)) of ((a, b), (c, d)) \<Rightarrow>
        double_frac (sign_bit x \<noteq> sign_bit y) (a * c) (b * d))"
  by (auto simp: dmul_def double_frac_def dest!: quotient_of_pos split: prod.splits)

lemma ddiv_code [code]:
  "ddiv x y =
     (if isnan x \<or> isnan y then NaN
      else if is_inf x then (if is_inf y then NaN else dinf (sign_bit x \<noteq> sign_bit y))
      else if is_inf y then (if sign_bit x \<noteq> sign_bit y then NegZero else Fin 0)
      else if val y = 0 then (if val x = 0 then NaN else dinf (sign_bit x \<noteq> sign_bit y))
      else case (quotient_of (val x), quotient_of (val y)) of ((a, b), (c, d)) \<Rightarrow>
        double_frac (sign_bit x \<noteq> sign_bit y) (a * d * sgn c) (b * \<bar>c\<bar>))"
  by (auto simp: ddiv_def double_frac_def sgn_if dest!: quotient_of_pos split: prod.splits)

end
