(* ===== verification/Double_Arith.thy ===== *)
theory Double_Arith
  imports Double
begin

text \<open>
  The facts about doubles that the proofs about the program use: the order (total on the values
  that are not NaN), the monotonicity of the rounded operations, the operations that are exact,
  and the values each operation can produce.
\<close>

named_theorems dbl "evaluation of double operations on constructors"

lemmas double_ops_defs =
  zero_double_def one_double_def plus_double_def minus_double_def uminus_double_def
  times_double_def divide_double_def less_eq_double_def less_double_def abs_double_def

subsection \<open>The order\<close>

lemma dle_simps [simp]:
  "\<not> NaN \<le> y" "\<not> x \<le> NaN" "Fin p \<le> Fin q \<longleftrightarrow> p \<le> q" "Fin p \<le> PInf" "NInf \<le> Fin p"
  "\<not> PInf \<le> Fin p" "\<not> Fin p \<le> NInf" "Fin p \<le> NegZero \<longleftrightarrow> p \<le> 0" "NegZero \<le> Fin p \<longleftrightarrow> 0 \<le> p"
  "PInf \<le> PInf" "NInf \<le> NInf" "NInf \<le> PInf" "\<not> PInf \<le> NInf" "NegZero \<le> NegZero"
  "NegZero \<le> PInf" "NInf \<le> NegZero" "\<not> PInf \<le> NegZero" "\<not> NegZero \<le> NInf"
  by (simp_all add: less_eq_double_def) (cases x; simp)

lemma dle_not_nan: "x \<le> y \<Longrightarrow> \<not> isnan (x::double) \<and> \<not> isnan y"
  by (cases x; cases y; simp)

lemma dle_refl [simp]: "\<not> isnan x \<Longrightarrow> x \<le> (x::double)"
  by (cases x; simp)

lemma dle_trans [trans]: "x \<le> y \<Longrightarrow> y \<le> z \<Longrightarrow> x \<le> (z::double)"
  by (cases x; cases y; cases z; simp)

lemma dle_total: "\<not> isnan x \<Longrightarrow> \<not> isnan y \<Longrightarrow> x \<le> y \<or> y \<le> (x::double)"
  by (cases x; cases y; auto)

lemma dless_iff: "x < y \<longleftrightarrow> x \<le> y \<and> \<not> y \<le> (x::double)"
  by (simp add: less_double_def less_eq_double_def)

lemma dless_simps [simp]:
  "\<not> NaN < y" "\<not> x < NaN" "Fin p < Fin q \<longleftrightarrow> p < q" "Fin p < PInf" "NInf < Fin p"
  "\<not> PInf < z" "\<not> z < NInf" "Fin p < NegZero \<longleftrightarrow> p < 0" "NegZero < Fin p \<longleftrightarrow> 0 < p"
  "NInf < PInf" "\<not> NegZero < NegZero" "NegZero < PInf" "NInf < NegZero"
  by (auto simp: dless_iff; cases z; simp)+

lemma dless_irrefl [simp]: "\<not> x < (x::double)"
  by (simp add: dless_iff)

lemma dless_le: "x < y \<Longrightarrow> x \<le> (y::double)"
  by (simp add: dless_iff)

lemma dnot_less: "\<not> isnan x \<Longrightarrow> \<not> isnan y \<Longrightarrow> \<not> x < y \<longleftrightarrow> y \<le> (x::double)"
  using dle_total [of x y] by (auto simp: dless_iff)

lemma dnot_le: "\<not> isnan x \<Longrightarrow> \<not> isnan y \<Longrightarrow> \<not> x \<le> y \<longleftrightarrow> y < (x::double)"
  using dle_total [of x y] by (auto simp: dless_iff)

lemma dless_trans [trans]: "x < y \<Longrightarrow> y < z \<Longrightarrow> x < (z::double)"
  by (meson dle_trans dless_iff)

lemma dle_less_trans [trans]: "x \<le> y \<Longrightarrow> y < z \<Longrightarrow> x < (z::double)"
  by (meson dle_trans dless_iff)

lemma dless_le_trans [trans]: "x < y \<Longrightarrow> y \<le> z \<Longrightarrow> x < (z::double)"
  by (meson dle_trans dless_iff)

lemma dless_not_nan: "x < y \<Longrightarrow> \<not> isnan (x::double) \<and> \<not> isnan y"
  using dless_le dle_not_nan by blast

lemma deq_iff: "deq x y \<longleftrightarrow> x \<le> y \<and> y \<le> x"
  by (simp add: deq_def less_eq_double_def)

lemma deq_refl [simp]: "\<not> isnan x \<Longrightarrow> deq x x"
  by (simp add: deq_iff)

lemma deq_sym: "deq x y \<Longrightarrow> deq y x"
  by (simp add: deq_iff)

lemma deq_trans: "deq x y \<Longrightarrow> deq y z \<Longrightarrow> deq x z"
  by (meson deq_iff dle_trans)

lemma zero_simps [simp]:
  "0 \<le> Fin q \<longleftrightarrow> 0 \<le> q" "Fin q \<le> 0 \<longleftrightarrow> q \<le> 0" "0 < Fin q \<longleftrightarrow> 0 < q" "Fin q < 0 \<longleftrightarrow> q < 0"
  "0 \<le> PInf" "0 < PInf" "\<not> 0 \<le> NInf" "\<not> 0 < NInf" "0 \<le> NegZero" "\<not> 0 < NegZero" "NegZero \<le> 0"
  "\<not> isnan 0" "isfinite 0" "val 0 = 0" "\<not> sign_bit 0" "\<not> is_inf 0"
  by (simp_all add: zero_double_def)

lemma one_simps [simp]:
  "1 \<le> Fin q \<longleftrightarrow> 1 \<le> q" "Fin q \<le> 1 \<longleftrightarrow> q \<le> 1" "1 < Fin q \<longleftrightarrow> 1 < q" "Fin q < 1 \<longleftrightarrow> q < 1"
  "\<not> isnan 1" "isfinite 1" "val 1 = 1" "\<not> sign_bit 1" "\<not> is_inf 1" "(0::double) < 1" "(0::double) \<le> 1"
  "\<not> (1::double) \<le> 0"
  by (simp_all add: one_double_def zero_double_def)

lemma isfinite_cases:
  assumes "isfinite x"
  obtains "x = NegZero" | q where "x = Fin q"
  using assms by (cases x) auto

lemma isfinite_not_nan [simp]: "isfinite x \<Longrightarrow> \<not> isnan x" "isfinite x \<Longrightarrow> \<not> is_inf x"
  by (cases x; simp)+

lemma isfinite_iff: "isfinite x \<longleftrightarrow> \<not> isnan x \<and> \<not> is_inf x"
  by (cases x; simp)

lemma dle_finite: "isfinite x \<Longrightarrow> isfinite y \<Longrightarrow> x \<le> y \<longleftrightarrow> val x \<le> val y"
  by (elim isfinite_cases) auto

lemma dless_finite: "isfinite x \<Longrightarrow> isfinite y \<Longrightarrow> x < y \<longleftrightarrow> val x < val y"
  by (auto simp: dless_iff dle_finite)

lemma deq_finite: "isfinite x \<Longrightarrow> isfinite y \<Longrightarrow> deq x y \<longleftrightarrow> val x = val y"
  by (auto simp: deq_iff dle_finite)

lemma isfinite_between: "a \<le> x \<Longrightarrow> x \<le> b \<Longrightarrow> isfinite a \<Longrightarrow> isfinite b \<Longrightarrow> isfinite x"
  by (cases x; cases a; cases b; simp)

subsection \<open>Rounding\<close>

lemma rnd_0 [simp]: "rnd 0 = 0"
  by (simp add: rnd_def)

lemma rnd_minus [simp]: "rnd (- q) = - rnd q"
  by (simp add: rnd_def)

lemma rnd_mono: "q \<le> r \<Longrightarrow> rnd q \<le> rnd r"
  by (simp add: rnd_def round_fmt_mono)

lemma rnd_nonneg: "0 \<le> q \<Longrightarrow> 0 \<le> rnd q"
  by (simp add: rnd_def round_fmt_nonneg)

lemma rnd_nonpos: "q \<le> 0 \<Longrightarrow> rnd q \<le> 0"
  using rnd_mono [of q 0] by simp

lemma rnd_exact: "representable q \<Longrightarrow> rnd q = q"
  by (simp add: rnd_def representable_def round_fmt_exact)

lemma representable_rnd [simp]: "representable (rnd q)"
  by (simp add: rnd_def representable_def round_fmt_on_grid)

lemma rnd_le: "q \<le> r \<Longrightarrow> representable r \<Longrightarrow> rnd q \<le> r"
  using rnd_mono [of q r] by (simp add: rnd_exact)

lemma rnd_ge: "r \<le> q \<Longrightarrow> representable r \<Longrightarrow> r \<le> rnd q"
  using rnd_mono [of r q] by (simp add: rnd_exact)

lemma representable_0 [simp]: "representable 0"
  by (simp add: representable_def)

lemma representable_minus [simp]: "representable (- q) \<longleftrightarrow> representable q"
  by (simp add: representable_def)

lemma representable_abs [simp]: "representable q \<Longrightarrow> representable \<bar>q\<bar>"
  by (simp add: abs_if)

lemma representable_scaled:
  "\<bar>j\<bar> \<le> 2 ^ 53 \<Longrightarrow> -1074 \<le> k \<Longrightarrow> representable (of_int j * 2 powi k)"
  unfolding representable_def by (rule on_gridI [OF refl]) auto

lemma representable_int: "\<bar>j\<bar> \<le> 2 ^ 53 \<Longrightarrow> representable (of_int j)"
  using representable_scaled [of j 0] by simp

lemma representable_quotient:
  "\<bar>j\<bar> \<le> 2 ^ 53 \<Longrightarrow> n \<le> 1074 \<Longrightarrow> representable (of_int j / 2 ^ n)"
  using representable_scaled [of j "- int n"] by (simp add: power_int_minus field_simps)

lemma representable_1 [simp]: "representable 1"
  using representable_int [of 1] by simp

lemma representable_pow2: "representable (2 ^ n)"
  using representable_scaled [of 1 "int n"] by simp

lemma rnd_rel_error:
  assumes "1 / 2 ^ 1022 \<le> \<bar>q\<bar>"
  shows "\<bar>rnd q - q\<bar> \<le> \<bar>q\<bar> / 2 ^ 53"
proof -
  have "(2::rat) powi (-1074 + int 53 - 1) = 1 / 2 ^ 1022" by (simp add: power_int_def field_simps)
  moreover have "(2::rat) powi (- int 53) = 1 / 2 ^ 53" by (simp add: power_int_def field_simps)
  ultimately show ?thesis using round_fmt_rel_error [of "-1074" 53 q] assms by (simp add: rnd_def)
qed

text \<open>Sums of doubles never underflow: they are multiples of the least positive double.\<close>

lemma rnd_rel_error_add:
  assumes "representable q" "representable r"
  shows "\<bar>rnd (q + r) - (q + r)\<bar> \<le> \<bar>q + r\<bar> / 2 ^ 53"
proof -
  obtain i where i: "q = of_int i * 2 powi (-1074)"
    using assms(1) unfolding representable_def by (rule on_grid_least)
  obtain j where j: "r = of_int j * 2 powi (-1074)"
    using assms(2) unfolding representable_def by (rule on_grid_least)
  have "q + r = of_int (i + j) * 2 powi (-1074)" by (simp add: i j algebra_simps)
  from round_fmt_rel_error_grid [OF this, of 53]
  have "\<bar>rnd (q + r) - (q + r)\<bar> \<le> \<bar>q + r\<bar> * 2 powi (- int 53)" by (simp add: rnd_def)
  moreover have "(2::rat) powi (- int 53) = 1 / 2 ^ 53" by (simp add: power_int_def field_simps)
  ultimately show ?thesis by simp
qed

subsection \<open>Results of operations\<close>

definition is_double :: "double \<Rightarrow> bool" where
  \<comment> \<open>the finite values are those of the format\<close>
  "is_double x \<longleftrightarrow> (\<forall>q. x = Fin q \<longrightarrow> representable q \<and> \<bar>q\<bar> < 2 ^ 1024)"

lemma is_double_Fin: "is_double (Fin q) \<longleftrightarrow> representable q \<and> \<bar>q\<bar> < 2 ^ 1024"
  by (simp add: is_double_def)

lemma is_double_simps [simp]:
  "is_double NaN" "is_double PInf" "is_double NInf" "is_double NegZero" "is_double 0" "is_double 1"
  by (simp_all add: is_double_def zero_double_def one_double_def)

lemma is_double_to_double [simp]: "is_double (to_double s q)"
  by (auto simp: to_double_def is_double_def Let_def abs_if)

lemma is_double_lit [simp]: "is_double (lit q)" "is_double (double_of_int i)" "is_double (double_of_nat n)"
  by (simp_all add: lit_def double_of_int_def double_of_nat_def)

lemma is_double_ops [simp]:
  "is_double x \<Longrightarrow> is_double y \<Longrightarrow> is_double (x + y)"
  "is_double (x * y)"
  "is_double x \<Longrightarrow> is_double y \<Longrightarrow> is_double (x - y)"
  "is_double (x / y)"
  "is_double x \<Longrightarrow> is_double (- x)"
  "is_double x \<Longrightarrow> is_double \<bar>x\<bar>"
proof -
  have neg: "is_double (dneg z)" if "is_double z" for z
    using that by (cases z) (auto simp: is_double_def)
  have add: "is_double (dadd x y)" if "is_double x" "is_double y" for x y
    using that by (auto simp: dadd_def)
  show "is_double x \<Longrightarrow> is_double y \<Longrightarrow> is_double (x + y)" by (simp add: plus_double_def add)
  show "is_double x \<Longrightarrow> is_double y \<Longrightarrow> is_double (x - y)" by (simp add: minus_double_def add neg)
  show "is_double (x * y)" by (simp add: times_double_def dmul_def dinf_def)
  show "is_double (x / y)" using is_double_simps(5)
    by (auto simp: divide_double_def ddiv_def dinf_def zero_double_def)
  show "is_double x \<Longrightarrow> is_double (- x)" by (simp add: uminus_double_def neg)
  show "is_double x \<Longrightarrow> is_double \<bar>x\<bar>"
    by (cases x) (auto simp: abs_double_def is_double_def)
qed

lemma representable_val: "is_double x \<Longrightarrow> representable (val x)"
  by (cases x) (auto simp: is_double_def)

lemma to_double_not_nan [simp]: "\<not> isnan (to_double s q)"
  by (simp add: to_double_def Let_def)

lemma val_to_double: "isfinite (to_double s q) \<Longrightarrow> val (to_double s q) = rnd q"
  by (auto simp: to_double_def Let_def split: if_splits)

lemma isfinite_to_double: "isfinite (to_double s q) \<longleftrightarrow> \<bar>rnd q\<bar> < 2 ^ 1024"
  by (auto simp: to_double_def Let_def abs_if)

lemma to_double_exact: "representable q \<Longrightarrow> \<bar>q\<bar> < 2 ^ 1024 \<Longrightarrow> q \<noteq> 0 \<Longrightarrow> to_double s q = Fin q"
  by (auto simp: to_double_def Let_def rnd_exact abs_if split: if_splits)

lemma to_double_0: "to_double s 0 = (if s then NegZero else Fin 0)"
  by (simp add: to_double_def)

lemma to_double_exact': "representable q \<Longrightarrow> \<bar>q\<bar> < 2 ^ 1024 \<Longrightarrow> to_double False q = Fin q"
  by (cases "q = 0") (auto simp: to_double_exact to_double_0)

lemma to_double_mono: "q \<le> r \<Longrightarrow> to_double s q \<le> to_double t r"
  using rnd_mono [of q r] by (auto simp: to_double_def Let_def)

lemma to_double_nonneg: "0 \<le> q \<Longrightarrow> 0 \<le> to_double s q"
  using rnd_nonneg [of q] by (auto simp: to_double_def Let_def)

lemma to_double_le_Fin: "q \<le> r \<Longrightarrow> is_double (Fin r) \<Longrightarrow> to_double s q \<le> Fin r"
  using to_double_mono [of q r s False] by (simp add: to_double_exact' is_double_Fin)

lemma to_double_ge_Fin: "r \<le> q \<Longrightarrow> is_double (Fin r) \<Longrightarrow> Fin r \<le> to_double s q"
  using to_double_mono [of r q False s] by (simp add: to_double_exact' is_double_Fin)

lemma small_int_lt:
  assumes "\<bar>j\<bar> \<le> (2::int) ^ 53"
  shows "\<bar>of_int j :: rat\<bar> < 2 ^ 1024"
proof -
  have "\<bar>of_int j :: rat\<bar> = of_int \<bar>j\<bar>" by simp
  also have "\<dots> \<le> of_int (2 ^ 53)" using assms by (simp only: of_int_le_iff)
  also have "\<dots> < 2 ^ 1024" by simp
  finally show ?thesis .
qed

lemma double_of_int_exact: "\<bar>j\<bar> \<le> 2 ^ 53 \<Longrightarrow> double_of_int j = Fin (of_int j)"
  unfolding double_of_int_def by (rule to_double_exact' [OF representable_int small_int_lt])

lemma double_of_nat_exact: "n \<le> 2 ^ 53 \<Longrightarrow> double_of_nat n = Fin (of_nat n)"
proof -
  assume "n \<le> 2 ^ 53"
  then have "int n \<le> int (2 ^ 53)" by (simp only: of_nat_le_iff)
  then have "\<bar>int n\<bar> \<le> 2 ^ 53" by simp
  from double_of_int_exact [OF this] show ?thesis by (simp add: double_of_nat_def)
qed

lemma double_of_nat_simps [simp]:
  "double_of_nat 0 = 0" "double_of_nat (Suc 0) = 1" "double_of_int 0 = 0" "double_of_int 1 = 1"
  using double_of_nat_exact [of 0] double_of_nat_exact [of 1] double_of_int_exact [of 0]
    double_of_int_exact [of 1] by (simp_all add: zero_double_def one_double_def)

lemma double_of_nat_not_nan [simp]: "\<not> isnan (double_of_nat n)" "\<not> isnan (double_of_int i)" "\<not> isnan (lit q)"
  by (simp_all add: double_of_nat_def double_of_int_def lit_def)

lemma double_of_int_mono: "i \<le> j \<Longrightarrow> double_of_int i \<le> double_of_int j"
  by (simp add: double_of_int_def to_double_mono)

lemma double_of_nat_mono: "m \<le> n \<Longrightarrow> double_of_nat m \<le> double_of_nat n"
  by (simp add: double_of_nat_def double_of_int_mono)

lemma double_of_nat_nonneg [simp]: "0 \<le> double_of_nat n"
  using double_of_nat_mono [of 0 n] by simp

subsection \<open>Operations on finite values\<close>

lemma val_dneg [simp]: "val (dneg x) = - val x"
  by (cases x) auto

lemma isfinite_dneg [simp]: "isfinite (dneg x) = isfinite x" "isnan (dneg x) = isnan x" "is_inf (dneg x) = is_inf x"
  by (cases x; simp)+

lemma dadd_finite:
  "isfinite x \<Longrightarrow> isfinite y \<Longrightarrow> x + y = to_double (x = NegZero \<and> y = NegZero) (val x + val y)"
  by (auto simp: plus_double_def dadd_def)

lemma dsub_finite:
  "isfinite x \<Longrightarrow> isfinite y \<Longrightarrow> x - y = to_double (x = NegZero \<and> y = Fin 0) (val x - val y)"
  by (cases y) (auto simp: minus_double_def dadd_def)

lemma dmul_finite:
  "isfinite x \<Longrightarrow> isfinite y \<Longrightarrow> x * y = to_double (sign_bit x \<noteq> sign_bit y) (val x * val y)"
  by (auto simp: times_double_def dmul_def)

lemma ddiv_finite:
  "isfinite x \<Longrightarrow> isfinite y \<Longrightarrow> val y \<noteq> 0 \<Longrightarrow>
     x / y = to_double (sign_bit x \<noteq> sign_bit y) (val x / val y)"
  by (auto simp: divide_double_def ddiv_def)

lemma double_op_Fin [dbl]:
  "Fin p + Fin q = to_double False (p + q)"
  "Fin p - Fin q = to_double False (p - q)"
  "Fin p * Fin q = to_double ((p < 0) \<noteq> (q < 0)) (p * q)"
  "q \<noteq> 0 \<Longrightarrow> Fin p / Fin q = to_double ((p < 0) \<noteq> (q < 0)) (p / q)"
  "- Fin p = (if p = 0 then NegZero else Fin (- p))"
  "\<bar>Fin p\<bar> = Fin \<bar>p\<bar>"
  by (simp_all add: dadd_finite dsub_finite dmul_finite ddiv_finite uminus_double_def abs_double_def)

lemma isnan_ops [simp]:
  "isnan \<bar>x\<bar> = isnan x" "isnan (- x) = isnan x" "isfinite \<bar>x\<bar> = isfinite x" "isfinite (- x) = isfinite x"
  by (cases x; simp add: abs_double_def uminus_double_def)+

lemma val_abs [simp]: "val \<bar>x\<bar> = \<bar>val x\<bar>" "val (- x) = - val x"
  by (cases x; simp add: abs_double_def uminus_double_def)+

lemma dabs_nonneg [simp]: "\<not> isnan x \<Longrightarrow> 0 \<le> \<bar>x :: double\<bar>"
  by (cases x) (auto simp: abs_double_def)

lemma nan_ops [simp]:
  "NaN + x = NaN" "x + NaN = NaN" "NaN - x = NaN" "x - NaN = NaN" "NaN * x = NaN" "x * NaN = NaN"
  "NaN / x = NaN" "x / NaN = NaN" "- NaN = NaN" "\<bar>NaN\<bar> = NaN"
  by (simp_all add: double_ops_defs dadd_def dmul_def ddiv_def)

lemma isnan_iff [simp]: "isnan x \<longleftrightarrow> x = NaN"
  by (cases x) auto

lemma not_nan_consts [simp]:
  "(0 :: double) \<noteq> NaN" "(1 :: double) \<noteq> NaN" "NaN \<noteq> 0" "NaN \<noteq> 1" "(0 :: double) \<le> 0" "(1 :: double) \<le> 1"
  by (auto simp: zero_double_def one_double_def)

lemma conversions_neq_nan [simp]: "double_of_nat n \<noteq> NaN" "double_of_int i \<noteq> NaN" "lit q \<noteq> NaN"
  using double_of_nat_not_nan isnan_iff by metis+

lemma dle_self [simp]: "x \<le> (x :: double) \<longleftrightarrow> x \<noteq> NaN"
  by (cases x) auto

lemma not_nan_add: "isfinite x \<Longrightarrow> isfinite y \<Longrightarrow> x + y \<noteq> NaN"
  using to_double_not_nan by (metis dadd_finite isnan.simps(1))

subsection \<open>Monotonicity\<close>

lemma inf_bounds [simp]: "x \<noteq> NaN \<Longrightarrow> NInf \<le> x" "x \<noteq> NaN \<Longrightarrow> x \<le> PInf"
  by (cases x; simp)+

lemma to_double_neq_nan [simp]: "to_double s q \<noteq> NaN"
  using to_double_not_nan [of s q] by auto

lemma dadd_mono:
  assumes "x \<le> x'" "y \<le> y'" "x + y \<noteq> NaN" "x' + y' \<noteq> NaN"
  shows "x + y \<le> x' + (y' :: double)"
proof (cases "isfinite x \<and> isfinite y \<and> isfinite x' \<and> isfinite y'")
  case True
  then have "val x + val y \<le> val x' + val y'" using assms by (simp add: dle_finite)
  with True show ?thesis by (simp add: dadd_finite to_double_mono)
next
  case False
  with assms show ?thesis
    unfolding plus_double_def dadd_def
    by (cases x; cases x'; cases y; cases y') auto
qed

lemma dadd_nonneg: "0 \<le> x \<Longrightarrow> 0 \<le> y \<Longrightarrow> 0 \<le> x + (y :: double)"
  by (cases x; cases y) (auto simp: plus_double_def dadd_def intro: to_double_nonneg)

lemma dadd_ge_left:
  assumes "is_double x" "x \<noteq> NaN" "0 \<le> y"
  shows "x \<le> x + y \<or> x + y = NaN"
proof (cases "isfinite x \<and> isfinite y")
  case True
  show ?thesis
  proof (cases x)
    case (Fin q)
    with assms True show ?thesis
      by (auto simp: dadd_finite dle_finite intro!: to_double_ge_Fin)
  next
    case NegZero
    with assms True show ?thesis
      using to_double_nonneg [of "val y" "y = NegZero"] dle_trans [of NegZero 0]
      by (auto simp: dadd_finite dle_finite)
  qed (use True in auto)
next
  case False
  with assms show ?thesis by (cases x; cases y) (auto simp: plus_double_def dadd_def)
qed

lemma dmul_nonneg: "0 \<le> x \<Longrightarrow> 0 \<le> y \<Longrightarrow> x * y \<noteq> NaN \<Longrightarrow> 0 \<le> x * (y :: double)"
proof -
  assume a: "0 \<le> x" "0 \<le> y" "x * y \<noteq> NaN"
  have z: "0 \<le> to_double s q" if "0 \<le> q" for s q using that by (rule to_double_nonneg)
  from a show ?thesis
    unfolding times_double_def dmul_def
    by (cases x; cases y) (auto simp: dinf_def z split: if_splits)
qed

lemma dmul_mono_finite:
  assumes "0 \<le> x" "x \<le> x'" "0 \<le> y" "y \<le> y'" "isfinite x'" "isfinite y'"
  shows "x * y \<le> x' * (y' :: double)"
proof -
  have f: "isfinite x" "isfinite y" using assms isfinite_between [of 0] by auto
  have "val x * val y \<le> val x' * val y'"
    using assms f by (intro mult_mono) (auto simp: dle_finite)
  with assms f show ?thesis by (simp add: dmul_finite to_double_mono)
qed

lemma ddiv_mono_finite:
  assumes "0 \<le> x" "x \<le> x'" "0 < y'" "y' \<le> y" "isfinite x'" "isfinite y"
  shows "x / y \<le> x' / (y' :: double)"
proof -
  have f: "isfinite x" "isfinite y'"
    using assms isfinite_between [of 0 x x'] isfinite_between [of 0 y' y] by (auto dest: dless_le)
  have y: "0 < val y'" "0 < val y" using assms f by (auto simp: dless_finite dle_finite)
  have "val x / val y \<le> val x' / val y'"
    using assms f y by (intro frac_le) (auto simp: dle_finite)
  with assms f y show ?thesis by (simp add: ddiv_finite to_double_mono)
qed

lemma ddiv_nonneg:
  assumes "0 \<le> x" "0 < y" "isfinite x"
  shows "0 \<le> x / (y :: double)"
proof (cases y)
  case (Fin q)
  with assms have "0 < q" "0 \<le> val x" by (auto simp: dle_finite)
  with Fin assms show ?thesis by (simp add: ddiv_finite to_double_nonneg)
next
  case PInf
  with assms show ?thesis by (cases x) (auto simp: divide_double_def ddiv_def)
qed (use assms in auto)

subsection \<open>Sums that do not round\<close>

lemma dadd_int_exact:
  "\<bar>i\<bar> \<le> 2 ^ 53 \<Longrightarrow> \<bar>j\<bar> \<le> 2 ^ 53 \<Longrightarrow> \<bar>i + j\<bar> \<le> 2 ^ 53 \<Longrightarrow>
     Fin (of_int i) + Fin (of_int j) = Fin (of_int (i + j))"
  using to_double_exact' [OF representable_int small_int_lt, of "i + j"] by (simp add: dbl)

lemma foldl_int_exact:
  assumes "\<bar>a\<bar> + sum_list (map abs is) \<le> 2 ^ 53"
  shows "foldl (+) (Fin (of_int a)) (map (\<lambda>i. Fin (of_int i)) is) = Fin (of_int (a + sum_list is))"
  using assms
proof (induction "is" arbitrary: a)
  case (Cons i "is")
  have nn: "0 \<le> sum_list (map abs is)" by (induction "is") auto
  then have "\<bar>a\<bar> \<le> 2 ^ 53" "\<bar>i\<bar> \<le> 2 ^ 53" "\<bar>a + i\<bar> \<le> 2 ^ 53" "\<bar>a + i\<bar> + sum_list (map abs is) \<le> 2 ^ 53"
    using Cons.prems by simp_all
  with Cons.IH [of "a + i"] dadd_int_exact [of a i] show ?case by (simp add: add.assoc)
qed simp

subsection \<open>Points between two doubles\<close>

lemma representable_double: "representable q \<Longrightarrow> representable (2 * q)"
proof -
  assume "representable q"
  then obtain j k where "q = of_int j * 2 powi k" "\<bar>j\<bar> \<le> 2 ^ 53" "-1074 \<le> k"
    by (auto simp: representable_def on_grid_def)
  then show ?thesis using representable_scaled [of j "k + 1"] by (simp add: powi_add2 mult.commute mult.left_commute)
qed

lemma representable_small_difference:
  assumes "representable q" "representable r" "\<bar>q - r\<bar> \<le> 2 powi (-1021)"
  shows "representable (q - r)"
proof -
  obtain i where i: "q = of_int i * 2 powi (-1074)"
    using assms(1) unfolding representable_def by (rule on_grid_least)
  obtain j where j: "r = of_int j * 2 powi (-1074)"
    using assms(2) unfolding representable_def by (rule on_grid_least)
  have e: "q - r = of_int (i - j) * 2 powi (-1074)" by (simp add: i j algebra_simps)
  have "(2 :: rat) powi (-1021) = of_int (2 ^ 53) * 2 powi (-1074)"
    using powi_add2 [of 53 "-1074"] by (simp add: power_int_def)
  then have "of_int \<bar>i - j\<bar> * (2 :: rat) powi (-1074) \<le> of_int (2 ^ 53) * 2 powi (-1074)"
    using assms(3) by (simp add: e abs_mult)
  then have "of_int \<bar>i - j\<bar> \<le> (of_int (2 ^ 53) :: rat)" by (simp add: mult_le_cancel_right)
  then have "\<bar>i - j\<bar> \<le> 2 ^ 53" by (simp only: of_int_le_iff)
  then show ?thesis unfolding e by (rule representable_scaled) simp
qed

text \<open>A step from \<open>a\<close> towards \<open>b\<close>, by at most half of the rounded distance, does not pass \<open>b\<close>.\<close>

lemma half_step_bound:
  assumes "h \<le> d / 2 + d / 2 / K" "d \<le> t + t / K" "0 \<le> t" "0 \<le> d" "8 \<le> (K :: rat)"
  shows "h \<le> t"
proof -
  have "t / K \<le> t / 8" "d / 2 / K \<le> d / 2 / 8" using assms(3-5) by (intro divide_left_mono; simp)+
  then show ?thesis using assms by linarith
qed

lemma rnd_half_step:
  assumes a: "representable a" and b: "representable b" and ab: "a \<le> b" and r: "0 \<le> r" "r \<le> 1 / 2"
  shows "0 \<le> rnd (r * rnd (b - a))" "rnd (r * rnd (b - a)) \<le> b - a"
proof -
  let ?t = "b - a" and ?d = "rnd (b - a)"
  have d: "0 \<le> ?d" using ab by (simp add: rnd_nonneg)
  then show "0 \<le> rnd (r * ?d)" using r by (simp add: rnd_nonneg)
  have rd: "r * ?d \<le> ?d / 2" using mult_right_mono [OF r(2) d] by simp
  show "rnd (r * ?d) \<le> ?t"
  proof (cases "representable ?t")
    case True
    then have "?d = ?t" by (rule rnd_exact)
    with rd d True show ?thesis by (intro rnd_le) linarith+
  next
    case False
    then have t: "2 powi (-1021) < ?t"
      using representable_small_difference [OF b a] ab by (metis abs_of_nonneg diff_ge_0_iff_ge not_le)
    have rep: "representable (2 powi (-1021))" using representable_scaled [of 1 "-1021"] by simp
    have "2 powi (-1021) \<le> ?d" using t rep by (intro rnd_ge) auto
    moreover have "(2 :: rat) powi (-1021) = 2 * (1 / 2 ^ 1022)" by (simp add: power_int_def field_simps)
    ultimately have "1 / 2 ^ 1022 \<le> \<bar>?d / 2\<bar>" using d by simp
    from rnd_rel_error [OF this] have "rnd (?d / 2) \<le> ?d / 2 + ?d / 2 / 2 ^ 53" using d by (simp add: abs_if split: if_splits)
    moreover have "?d \<le> ?t + ?t / 2 ^ 53"
    proof -
      have "\<bar>?d - ?t\<bar> \<le> \<bar>?t\<bar> / 2 ^ 53" using rnd_rel_error_add [OF b, of "- a"] a by simp
      moreover have "\<bar>?t\<bar> = ?t" using ab by simp
      moreover have "?d - ?t \<le> \<bar>?d - ?t\<bar>" by (rule abs_ge_self)
      ultimately show ?thesis by linarith
    qed
    moreover have "rnd (r * ?d) \<le> rnd (?d / 2)" using rd by (rule rnd_mono)
    ultimately show ?thesis using half_step_bound [of "rnd (?d / 2)" ?d "2 ^ 53" ?t] ab d by simp
  qed
qed

lemma rnd_step_between:
  assumes "representable a" "representable b" "a \<le> b" "0 \<le> r" "r \<le> 1 / 2"
  shows "a \<le> rnd (a + rnd (r * rnd (b - a)))" "rnd (a + rnd (r * rnd (b - a))) \<le> b"
  using rnd_half_step [OF assms] assms by (auto intro!: rnd_ge rnd_le)

lemma rnd_step_between_down:
  assumes "representable a" "representable b" "b \<le> a" "0 \<le> r" "r \<le> 1 / 2"
  shows "b \<le> rnd (a + rnd (r * rnd (b - a)))" "rnd (a + rnd (r * rnd (b - a))) \<le> a"
proof -
  have e: "rnd (a + rnd (r * rnd (b - a))) = - rnd (- a + rnd (r * rnd (- b - - a)))"
  proof -
    have "- b - - a = - (b - a)" "- a + - rnd (r * rnd (b - a)) = - (a + rnd (r * rnd (b - a)))" by simp_all
    then show ?thesis by (simp only: rnd_minus mult_minus_right minus_minus)
  qed
  show "b \<le> rnd (a + rnd (r * rnd (b - a)))" "rnd (a + rnd (r * rnd (b - a))) \<le> a"
    using rnd_step_between [of "- a" "- b" r] assms by (simp_all add: e)
qed

definition in_bracket :: "double \<Rightarrow> double \<Rightarrow> double \<Rightarrow> bool" where
  "in_bracket lo hi x \<longleftrightarrow> lo \<le> x \<and> x \<le> hi \<and> is_double x"

definition bracket :: "double \<Rightarrow> double \<Rightarrow> bool" where
  \<comment> \<open>far from overflow, so that a difference or a sum of two points is finite\<close>
  "bracket lo hi \<longleftrightarrow> is_double lo \<and> is_double hi \<and> Fin (- (2 ^ 1000)) \<le> lo \<and> hi \<le> Fin (2 ^ 1000)"

lemma bracket_finite:
  assumes "bracket lo hi" "in_bracket lo hi x"
  shows "isfinite x" "representable (val x)" "\<bar>val x\<bar> \<le> 2 ^ 1000"
proof -
  have b: "Fin (- (2 ^ 1000)) \<le> x" "x \<le> Fin (2 ^ 1000)"
    using assms dle_trans unfolding bracket_def in_bracket_def by blast+
  then show f: "isfinite x" by (rule isfinite_between) simp_all
  show "representable (val x)" using assms by (simp add: in_bracket_def representable_val)
  show "\<bar>val x\<bar> \<le> 2 ^ 1000" using b f by (simp add: dle_finite)
qed

lemma rnd_abs_le: "\<bar>q\<bar> \<le> 2 ^ n \<Longrightarrow> \<bar>rnd q\<bar> \<le> 2 ^ n"
  using rnd_le [of q "2 ^ n"] rnd_ge [of "- (2 ^ n)" q] by (auto simp: abs_le_iff representable_pow2)

lemma to_double_small:
  assumes "\<bar>q\<bar> \<le> 2 ^ n" "n < 1024"
  shows "isfinite (to_double s q)" "val (to_double s q) = rnd q"
proof -
  have "\<bar>rnd q\<bar> \<le> 2 ^ n" using assms(1) by (rule rnd_abs_le)
  also have "(2 :: rat) ^ n < 2 ^ 1024" using assms(2) by (rule power_strict_increasing) simp
  finally show "isfinite (to_double s q)" by (simp only: isfinite_to_double)
  then show "val (to_double s q) = rnd q" by (rule val_to_double)
qed

lemma abs_add_pow2: "\<bar>q\<bar> \<le> 2 ^ n \<Longrightarrow> \<bar>r\<bar> \<le> 2 ^ n \<Longrightarrow> \<bar>q + r\<bar> \<le> (2 :: rat) ^ Suc n"
  using abs_triangle_ineq [of q r] by simp

lemma abs_le_pow2_mono: "\<bar>q\<bar> \<le> 2 ^ n \<Longrightarrow> n \<le> m \<Longrightarrow> \<bar>q\<bar> \<le> (2 :: rat) ^ m"
  by (rule order_trans, assumption) (rule power_increasing, simp_all)

lemma bracket_ends:
  assumes "bracket lo hi" "in_bracket lo hi x"
  shows "isfinite lo" "isfinite hi"
proof -
  have l: "Fin (- (2 ^ 1000)) \<le> lo" and m: "lo \<le> hi" and h: "hi \<le> Fin (2 ^ 1000)"
    using assms dle_trans unfolding bracket_def in_bracket_def by blast+
  show "isfinite lo" using isfinite_between [OF l dle_trans [OF m h]] by simp
  show "isfinite hi" using isfinite_between [OF dle_trans [OF l m] h] by simp
qed

lemma finite_between_in_bracket:
  assumes br: "bracket lo hi" and a: "in_bracket lo hi a" and b: "in_bracket lo hi b"
    and x: "isfinite x" "is_double x" "min (val a) (val b) \<le> val x" "val x \<le> max (val a) (val b)"
  shows "in_bracket lo hi x"
proof -
  note e = bracket_ends [OF br a] and fa = bracket_finite(1) [OF br a] and fb = bracket_finite(1) [OF br b]
  have "val lo \<le> val a" "val a \<le> val hi" "val lo \<le> val b" "val b \<le> val hi"
    using a b e fa fb unfolding in_bracket_def by (simp_all add: dle_finite)
  then have "val lo \<le> val x" "val x \<le> val hi" using x(3,4) by linarith+
  then show ?thesis using e x(1,2) by (simp add: in_bracket_def dle_finite)
qed

lemma step_in_bracket:
  assumes br: "bracket lo hi" and a: "in_bracket lo hi a" and b: "in_bracket lo hi b"
    and r: "isfinite r" "0 \<le> val r" "val r \<le> 1 / 2"
  shows "in_bracket lo hi (a + r * (b - a))"
proof -
  note fa = bracket_finite [OF br a] and fb = bracket_finite [OF br b]
  let ?d = "rnd (val b - val a)"
  have d1: "\<bar>val b - val a\<bar> \<le> 2 ^ 1001" using abs_add_pow2 [of "val b" 1000 "- val a"] fa(3) fb(3) by simp
  have d: "isfinite (b - a)" "val (b - a) = ?d"
    using to_double_small [OF d1] fa(1) fb(1) by (simp_all only: dsub_finite)
  have "\<bar>?d\<bar> \<le> 2 ^ 1001" using d1 by (rule rnd_abs_le)
  moreover have "\<bar>val r * ?d\<bar> \<le> 1 * \<bar>?d\<bar>" unfolding abs_mult using r by (intro mult_right_mono) auto
  ultimately have e1: "\<bar>val r * ?d\<bar> \<le> 2 ^ 1001" by linarith
  have e: "isfinite (r * (b - a))" "val (r * (b - a)) = rnd (val r * ?d)"
    using to_double_small [OF e1] r(1) d by (simp_all only: dmul_finite)
  have "\<bar>val a + rnd (val r * ?d)\<bar> \<le> 2 ^ 1002"
    using abs_add_pow2 [OF abs_le_pow2_mono [OF fa(3)] rnd_abs_le [OF e1]] by simp
  from to_double_small [OF this] have s: "isfinite (a + r * (b - a))"
    "val (a + r * (b - a)) = rnd (val a + rnd (val r * ?d))"
    using fa(1) e by (simp_all only: dadd_finite)
  have "min (val a) (val b) \<le> val (a + r * (b - a))" "val (a + r * (b - a)) \<le> max (val a) (val b)"
    using rnd_step_between [OF fa(2) fb(2) _ r(2,3)] rnd_step_between_down [OF fa(2) fb(2) _ r(2,3)]
    unfolding s(2) by (cases "val a \<le> val b"; simp)+
  then show ?thesis using finite_between_in_bracket [OF br a b s(1)] a b by (simp add: in_bracket_def)
qed

lemma midpoint_in_bracket:
  assumes br: "bracket lo hi" and a: "in_bracket lo hi a" and b: "in_bracket lo hi b"
  shows "in_bracket lo hi ((a + b) / Fin 2)"
proof -
  note fa = bracket_finite [OF br a] and fb = bracket_finite [OF br b]
  let ?s = "rnd (val a + val b)" and ?m = "min (val a) (val b)" and ?M = "max (val a) (val b)"
  have s1: "\<bar>val a + val b\<bar> \<le> 2 ^ 1001" using abs_add_pow2 [OF fa(3) fb(3)] by simp
  have s: "isfinite (a + b)" "val (a + b) = ?s"
    using to_double_small [OF s1] fa(1) fb(1) by (simp_all only: dadd_finite)
  have "\<bar>?s\<bar> \<le> 2 ^ 1001" using s1 by (rule rnd_abs_le)
  then have "\<bar>?s / 2\<bar> \<le> 2 ^ 1001" by simp
  from to_double_small [OF this] have h: "isfinite ((a + b) / Fin 2)" "val ((a + b) / Fin 2) = rnd (?s / 2)"
    using s by (simp_all add: ddiv_finite)
  have rep: "representable ?m" "representable ?M" using fa(2) fb(2) by (simp_all add: min_def max_def)
  have "2 * ?m \<le> ?s" "?s \<le> 2 * ?M"
    using representable_double [OF rep(1)] representable_double [OF rep(2)] by (intro rnd_ge rnd_le; linarith)+
  then have "?m \<le> rnd (?s / 2)" "rnd (?s / 2) \<le> ?M" using rep by (intro rnd_ge rnd_le; linarith)+
  then show ?thesis using finite_between_in_bracket [OF br a b h(1)] h(2) by simp
qed

end
