(* ===== verification/Long_Double.thy ===== *)
theory Long_Double
  imports Double_Arith
begin

text \<open>
  The C type \<open>long double\<close> of the program's platform: the extended format of the x87 with 64
  bits of precision, rounded to nearest. It has the same classes of values as \<open>double\<close> on a
  finer grid and with a wider range, so a value is again a NaN, an infinity, the negative zero
  or a finite number; the operations round to that grid. Converting a \<open>double\<close> to
  \<open>long double\<close> is exact.
\<close>

type_synonym long_double = double

definition to_long_double :: "bool \<Rightarrow> rat \<Rightarrow> long_double" where
  "to_long_double neg q =
     (let r = round_fmt 64 (-16445) q in
      if r = 0 then (if neg then NegZero else Fin 0)
      else if 2 ^ 16384 \<le> r then PInf
      else if r \<le> - (2 ^ 16384) then NInf
      else Fin r)"

definition ladd :: "long_double \<Rightarrow> long_double \<Rightarrow> long_double" where
  "ladd x y =
     (if isfinite x \<and> isfinite y
      then to_long_double (x = NegZero \<and> y = NegZero) (val x + val y) else dadd x y)"

definition lmul :: "long_double \<Rightarrow> long_double \<Rightarrow> long_double" where
  "lmul x y =
     (if isfinite x \<and> isfinite y
      then to_long_double (sign_bit x \<noteq> sign_bit y) (val x * val y) else dmul x y)"

definition ldiv :: "long_double \<Rightarrow> long_double \<Rightarrow> long_double" where
  "ldiv x y =
     (if isfinite x \<and> isfinite y \<and> val y \<noteq> 0
      then to_long_double (sign_bit x \<noteq> sign_bit y) (val x / val y) else ddiv x y)"

definition lneg :: "long_double \<Rightarrow> long_double" where
  "lneg x = dneg x"

definition long_of_double :: "double \<Rightarrow> long_double" where
  "long_of_double x = x"

definition double_of_long :: "long_double \<Rightarrow> double" where
  "double_of_long x = (if isfinite x then to_double (sign_bit x) (val x) else x)"

text \<open>
  The double nearest to a double is itself, so the conversion back and forth is the identity.
\<close>

lemma double_of_long_of_double:
  assumes "is_double x"
  shows "double_of_long (long_of_double x) = x"
proof (cases x)
  case (Fin q)
  then have "representable q" "\<bar>q\<bar> < 2 ^ 1024" using assms by (simp_all add: is_double_Fin)
  then show ?thesis
    using Fin to_double_exact [of q] by (cases "q = 0") (auto simp: double_of_long_def long_of_double_def to_double_0)
qed (simp_all add: double_of_long_def long_of_double_def to_double_0)

end
