(* ===== verification/Clib.thy ===== *)
theory Clib
  imports Prelude Long_Double
begin

text \<open>
  What the program uses of the C library and of its platform. The correctly specified parts are
  definitions (\<open>qsort\<close>, the casts from \<open>double\<close>, \<open>fabs\<close>, \<open>floor\<close>); the parts that the C
  standard leaves to the implementation are the fields of a record \<open>clib\<close> over which every
  model is parametric: the transcendental functions of \<open>math.h\<close>, whose last bits are not
  specified, whether an allocation of a given size is granted, and the generator behind
  \<open>rand\<close>, with its state as a natural number.
\<close>

record clib =
  c_log :: "double \<Rightarrow> double"
  c_exp :: "double \<Rightarrow> double"
  c_expm1 :: "double \<Rightarrow> double"
  c_log1p :: "double \<Rightarrow> double"
  c_exp2 :: "double \<Rightarrow> double"
  c_sqrt :: "double \<Rightarrow> double"
  c_pow :: "double \<Rightarrow> double \<Rightarrow> double"
  c_logl :: "long_double \<Rightarrow> long_double"
  c_log1pl :: "long_double \<Rightarrow> long_double"
  c_expm1l :: "long_double \<Rightarrow> long_double"
  c_alloc :: "nat \<Rightarrow> bool"
  c_rand :: "nat \<Rightarrow> nat \<times> nat"
  c_RAND_MAX :: nat

text \<open>\<open>malloc\<close>, \<open>calloc\<close> and \<open>realloc\<close> of \<open>n\<close> bytes: \<open>NULL\<close> when refused.\<close>

definition with_alloc :: "clib \<Rightarrow> nat \<Rightarrow> 'a result \<Rightarrow> 'a result \<Rightarrow> 'a result" where
  "with_alloc L bytes refused granted = (if c_alloc L bytes then granted else refused)"

lemma with_alloc_granted [simp]: "c_alloc L n \<Longrightarrow> with_alloc L n r g = g"
  by (simp add: with_alloc_def)

definition sizeof_double :: nat where "sizeof_double = 8"
definition sizeof_pointer :: nat where "sizeof_pointer = 8"
definition sizeof_long :: nat where "sizeof_long = 8"

text \<open>What the C standard requires of \<open>rand\<close>.\<close>

definition rand_in_range :: "clib \<Rightarrow> bool" where
  "rand_in_range L \<longleftrightarrow> 32767 \<le> c_RAND_MAX L \<and> c_RAND_MAX L < 2 ^ 31 \<and> (\<forall>s. fst (c_rand L s) \<le> c_RAND_MAX L)"

subsection \<open>Conversions from \<open>double\<close> to integer types\<close>

text \<open>
  A conversion drops the fraction and is undefined when the integer type cannot represent what
  is left (C11 6.3.1.4). The types are those of the LP64 platforms: \<open>long\<close> has 64 bits and
  \<open>int\<close> has 32.
\<close>

definition cast_range :: "int \<Rightarrow> int \<Rightarrow> double \<Rightarrow> int result" where
  "cast_range lo hi x =
     (if isfinite x \<and> lo \<le> trunc_rat (val x) \<and> trunc_rat (val x) \<le> hi
      then Inr (trunc_rat (val x)) else Inl Undefined)"

definition cast_long :: "double \<Rightarrow> int result" where
  "cast_long = cast_range (- (2 ^ 63)) (2 ^ 63 - 1)"

definition cast_int :: "double \<Rightarrow> int result" where
  "cast_int = cast_range (- (2 ^ 31)) (2 ^ 31 - 1)"

definition cast_size :: "double \<Rightarrow> nat result" where
  "cast_size x = map_sum id nat (cast_range 0 (2 ^ 64 - 1) x)"

lemma trunc_rat_nonneg: "0 \<le> q \<Longrightarrow> trunc_rat q = \<lfloor>q\<rfloor>"
  by (simp add: trunc_rat_def)

lemma cast_range_nonneg:
  assumes "0 \<le> x" "x \<le> double_of_int n" "\<bar>n\<bar> \<le> 2 ^ 53" "lo \<le> 0" "n \<le> hi"
  shows "cast_range lo hi x = Inr \<lfloor>val x\<rfloor> \<and> 0 \<le> \<lfloor>val x\<rfloor> \<and> \<lfloor>val x\<rfloor> \<le> n"
proof -
  have e: "double_of_int n = Fin (of_int n)" using assms by (simp add: double_of_int_exact)
  have f: "isfinite x" using assms(1,2) by (rule isfinite_between) (simp_all add: e)
  have "0 \<le> val x" "val x \<le> of_int n" using assms f by (auto simp: dle_finite e)
  then have "0 \<le> \<lfloor>val x\<rfloor>" "\<lfloor>val x\<rfloor> \<le> n" by linarith+
  moreover from this have "lo \<le> \<lfloor>val x\<rfloor>" "\<lfloor>val x\<rfloor> \<le> hi" using assms by linarith+
  ultimately show ?thesis using \<open>0 \<le> val x\<close> f by (simp add: cast_range_def trunc_rat_nonneg)
qed

subsection \<open>Sorting\<close>

text \<open>
  \<open>qsort\<close> with a comparison function: an insertion sort that keeps the order of elements the
  comparison function calls equal (the standard leaves their order open; for the program's
  comparison they are the same number).
\<close>

fun qsort_insert :: "('a \<Rightarrow> 'a \<Rightarrow> int) \<Rightarrow> 'a \<Rightarrow> 'a list \<Rightarrow> 'a list" where
  "qsort_insert cmp x [] = [x]"
| "qsort_insert cmp x (y # ys) =
     (if cmp x y \<le> 0 then x # y # ys else y # qsort_insert cmp x ys)"

fun qsort :: "('a \<Rightarrow> 'a \<Rightarrow> int) \<Rightarrow> 'a list \<Rightarrow> 'a list" where
  "qsort cmp [] = []"
| "qsort cmp (x # xs) = qsort_insert cmp x (qsort cmp xs)"

lemma set_qsort_insert [simp]: "set (qsort_insert cmp x ys) = insert x (set ys)"
  by (induction ys) auto

lemma set_qsort [simp]: "set (qsort cmp xs) = set xs"
  by (induction xs) auto

lemma length_qsort_insert [simp]: "length (qsort_insert cmp x ys) = Suc (length ys)"
  by (induction ys) auto

lemma length_qsort [simp]: "length (qsort cmp xs) = length xs"
  by (induction xs) auto

lemma count_qsort_insert: "count_list (qsort_insert cmp x ys) z = count_list (x # ys) z"
  by (induction ys) auto

lemma count_qsort [simp]: "count_list (qsort cmp xs) z = count_list xs z"
  by (induction xs) (simp_all add: count_qsort_insert)

text \<open>
  The contract between \<open>qsort\<close> and a comparison function: on the elements of \<open>ok\<close> the function
  compares like a linear preorder \<open>le\<close>.
\<close>

locale comparison =
  fixes cmp :: "'a \<Rightarrow> 'a \<Rightarrow> int" and le :: "'a \<Rightarrow> 'a \<Rightarrow> bool" and ok :: "'a \<Rightarrow> bool"
  assumes cmp_le: "ok x \<Longrightarrow> ok y \<Longrightarrow> cmp x y \<le> 0 \<longleftrightarrow> le x y"
    and le_total: "ok x \<Longrightarrow> ok y \<Longrightarrow> le x y \<or> le y x"
    and le_trans: "le x y \<Longrightarrow> le y z \<Longrightarrow> le x z"
begin

lemma insert_sorted:
  "(\<forall>y \<in> set (x # ys). ok y) \<Longrightarrow> sorted_wrt le ys \<Longrightarrow> sorted_wrt le (qsort_insert cmp x ys)"
proof (induction ys)
  case Nil
  then show ?case by simp
next
  case (Cons y ys)
  show ?case
  proof (cases "le x y")
    case True
    with Cons.prems show ?thesis by (auto simp: cmp_le intro: le_trans)
  next
    case False
    with Cons.prems have "le y x" using le_total [of x y] by auto
    with False Cons show ?thesis by (auto simp: cmp_le)
  qed
qed

lemma qsort_sorted: "(\<forall>y \<in> set xs. ok y) \<Longrightarrow> sorted_wrt le (qsort cmp xs)"
  by (induction xs) (auto intro!: insert_sorted)

lemma insert_sorted_id:
  "(\<forall>y \<in> set (x # ys). ok y) \<Longrightarrow> sorted_wrt le (x # ys) \<Longrightarrow> qsort_insert cmp x ys = x # ys"
  by (cases ys) (auto simp: cmp_le)

lemma qsort_sorted_id: "(\<forall>y \<in> set xs. ok y) \<Longrightarrow> sorted_wrt le xs \<Longrightarrow> qsort cmp xs = xs"
proof (induction xs)
  case (Cons x xs)
  then show ?case using insert_sorted_id [of x xs] by simp
qed simp

end

subsection \<open>A library for concrete runs\<close>

definition plain_clib :: clib where
  \<comment> \<open>a library that grants every allocation; its \<open>rand\<close> counts up\<close>
  "plain_clib = \<lparr>c_log = \<lambda>x. x - 1, c_exp = \<lambda>x. x + 1, c_expm1 = \<lambda>x. x, c_log1p = \<lambda>x. x,
     c_exp2 = \<lambda>x. x + 1, c_sqrt = \<lambda>x. x, c_pow = \<lambda>x y. 1,
     c_logl = \<lambda>x. x, c_log1pl = \<lambda>x. x, c_expm1l = \<lambda>x. x, c_alloc = \<lambda>_. True,
     c_rand = \<lambda>s. (s mod 32768, s + 1), c_RAND_MAX = 32767\<rparr>"

definition zero_clib :: clib where
  \<comment> \<open>the same, with a \<open>rand\<close> that always yields zero\<close>
  "zero_clib = plain_clib\<lparr>c_rand := \<lambda>s. (0, s)\<rparr>"

end
