(* ===== verification/Mt.thy ===== *)
theory Mt
  imports Clib "HOL-Library.Word"
begin

unbundle bit_operations_syntax

text \<open>
  The Mersenne Twister of \<open>src/mt.c\<close> and \<open>include/plfit_mt.h\<close>: the generator's state is the
  record \<open>plfit_mt_rng_t\<close>, its words are \<open>32 word\<close>s. The reference is the linear recurrence the
  generator implements; the in-place block update of \<open>plfit_mt_random\<close> is proved to produce it.
  A generator that reads outside its buffer is undefined behaviour; \<open>mt_ok\<close> is the invariant
  that excludes it.
\<close>

type_synonym uint32_t = "32 word"

record plfit_mt_rng_t =
  mt_index :: nat
  mt_buffer :: "uint32_t list"

definition PLFIT_MT_LEN :: nat where "PLFIT_MT_LEN = 624"
definition PLFIT_MT_RAND_MAX :: int where "PLFIT_MT_RAND_MAX = 0xFFFFFFFF"
definition MT_IA :: nat where "MT_IA = 397"
definition MT_IB :: nat where "MT_IB = PLFIT_MT_LEN - MT_IA"
definition UPPER_MASK :: uint32_t where "UPPER_MASK = 0x80000000"
definition LOWER_MASK :: uint32_t where "LOWER_MASK = 0x7FFFFFFF"
definition MATRIX_A :: uint32_t where "MATRIX_A = 0x9908B0DF"
definition sizeof_uint32 :: nat where "sizeof_uint32 = 4"

definition TWIST :: "uint32_t list \<Rightarrow> nat \<Rightarrow> nat \<Rightarrow> uint32_t" where
  "TWIST b i j = ((b ! i) AND UPPER_MASK) OR ((b ! j) AND LOWER_MASK)"

definition MAGIC :: "uint32_t \<Rightarrow> uint32_t" where
  "MAGIC s = (s AND 1) * MATRIX_A"

text \<open>One iteration of each loop of the block update, and its last step.\<close>

definition twist_low :: "nat \<Rightarrow> uint32_t list \<Rightarrow> uint32_t list" where
  "twist_low i b = (let s = TWIST b i (i + 1) in
     b[i := (b ! (i + MT_IA)) XOR drop_bit 1 s XOR MAGIC s])"

definition twist_high :: "nat \<Rightarrow> uint32_t list \<Rightarrow> uint32_t list" where
  "twist_high i b = (let s = TWIST b i (i + 1) in
     b[i := (b ! (i - MT_IB)) XOR drop_bit 1 s XOR MAGIC s])"

definition twist_last :: "uint32_t list \<Rightarrow> uint32_t list" where
  "twist_last b = (let s = TWIST b (PLFIT_MT_LEN - 1) 0 in
     b[PLFIT_MT_LEN - 1 := (b ! (MT_IA - 1)) XOR drop_bit 1 s XOR MAGIC s])"

definition twist_block :: "uint32_t list \<Rightarrow> uint32_t list" where
  "twist_block b =
     twist_last (fold twist_high [MT_IB..<PLFIT_MT_LEN - 1] (fold twist_low [0..<MT_IB] b))"

text \<open>
  The word is fetched through a byte pointer: outside the buffer, or off a word boundary, the
  access is undefined.
\<close>

definition read_word :: "uint32_t list \<Rightarrow> nat \<Rightarrow> uint32_t result" where
  "read_word b idx =
     (if idx mod sizeof_uint32 = 0 then array_get b (idx div sizeof_uint32) else Inl Undefined)"

definition plfit_mt_random :: "plfit_mt_rng_t \<Rightarrow> (uint32_t \<times> plfit_mt_rng_t) result" where
  "plfit_mt_random rng =
     (let (idx, b) =
        (if mt_index rng = PLFIT_MT_LEN * sizeof_uint32 then (0, twist_block (mt_buffer rng))
         else (mt_index rng, mt_buffer rng))
      in plfit_check (read_word b idx)
        (\<lambda>r. Inr (r, \<lparr>mt_index = idx + sizeof_uint32, mt_buffer = b\<rparr>)))"

definition plfit_mt_uniform_01 :: "plfit_mt_rng_t \<Rightarrow> (double \<times> plfit_mt_rng_t) result" where
  "plfit_mt_uniform_01 rng =
     plfit_check (plfit_mt_random rng)
       (\<lambda>(r, rng'). Inr (double_of_int (uint r) / double_of_int PLFIT_MT_RAND_MAX, rng'))"

text \<open>
  Seeding: from another generator, or from \<open>rand\<close>, whose state is threaded through the calls;
  only the low 16 bits of each \<open>rand\<close> value are kept. The order of the two calls in one
  expression is not fixed by C; the model evaluates from left to right.
\<close>

definition get_random_uint16 :: "clib \<Rightarrow> nat \<Rightarrow> uint32_t \<times> nat" where
  "get_random_uint16 L st = (let (r, st') = c_rand L st in (of_nat (r mod 2 ^ 16), st'))"

definition seed_word :: "clib \<Rightarrow> nat \<Rightarrow> uint32_t \<times> nat" where
  "seed_word L st =
     (let (hi, st1) = get_random_uint16 L st; (lo, st2) = get_random_uint16 L st1
      in (push_bit 16 hi + lo, st2))"

fun seed_words :: "clib \<Rightarrow> nat \<Rightarrow> nat \<Rightarrow> uint32_t list \<times> nat" where
  "seed_words L 0 st = ([], st)"
| "seed_words L (Suc n) st =
     (let (w, st1) = seed_word L st; (ws, st2) = seed_words L n st1 in (w # ws, st2))"

fun mt_outputs :: "nat \<Rightarrow> plfit_mt_rng_t \<Rightarrow> (uint32_t list \<times> plfit_mt_rng_t) result" where
  \<comment> \<open>\<open>n\<close> calls of \<open>plfit_mt_random\<close> in a row\<close>
  "mt_outputs 0 rng = Inr ([], rng)"
| "mt_outputs (Suc n) rng =
     plfit_check (plfit_mt_random rng) (\<lambda>(w, rng1).
     plfit_check (mt_outputs n rng1) (\<lambda>(ws, rng2). Inr (w # ws, rng2)))"

definition plfit_mt_init :: "clib \<Rightarrow> nat \<Rightarrow> plfit_mt_rng_t \<times> nat" where
  "plfit_mt_init L st =
     (let (ws, st') = seed_words L PLFIT_MT_LEN st in (\<lparr>mt_index = 0, mt_buffer = ws\<rparr>, st'))"

definition plfit_mt_init_from_rng :: "plfit_mt_rng_t \<Rightarrow> (plfit_mt_rng_t \<times> plfit_mt_rng_t) result" where
  \<comment> \<open>the new generator and the seeder after its calls\<close>
  "plfit_mt_init_from_rng seeder =
     plfit_check (mt_outputs PLFIT_MT_LEN seeder)
       (\<lambda>(ws, seeder'). Inr (\<lparr>mt_index = 0, mt_buffer = ws\<rparr>, seeder'))"

lemmas mt_consts = PLFIT_MT_LEN_def MT_IA_def MT_IB_def sizeof_uint32_def

subsection \<open>The invariant\<close>

definition mt_ok :: "plfit_mt_rng_t \<Rightarrow> bool" where
  "mt_ok rng \<longleftrightarrow> length (mt_buffer rng) = PLFIT_MT_LEN \<and>
     mt_index rng mod sizeof_uint32 = 0 \<and> mt_index rng \<le> PLFIT_MT_LEN * sizeof_uint32"

lemma length_fold_update:
  "(\<And>i b. length (f i b) = length b) \<Longrightarrow> length (fold f xs b) = length b"
  by (induction xs arbitrary: b) auto

lemma length_twist [simp]:
  "length (twist_low i b) = length b" "length (twist_high i b) = length b"
  "length (twist_last b) = length b" "length (twist_block b) = length b"
  by (simp_all add: twist_low_def twist_high_def twist_last_def twist_block_def Let_def
      length_fold_update)

lemma read_word_ok:
  "length b = PLFIT_MT_LEN \<Longrightarrow> i mod 4 = 0 \<Longrightarrow> i < 2496 \<Longrightarrow> read_word b i = Inr (b ! (i div 4))"
  by (auto simp: read_word_def mt_consts)

lemma plfit_mt_random_step:
  assumes "mt_ok rng" "mt_index rng \<noteq> 2496"
  shows "plfit_mt_random rng =
    Inr (mt_buffer rng ! (mt_index rng div 4), rng\<lparr>mt_index := mt_index rng + 4\<rparr>)"
  using assms by (auto simp: plfit_mt_random_def mt_ok_def mt_consts read_word_ok)

lemma plfit_mt_random_refill:
  assumes "mt_ok rng" "mt_index rng = 2496"
  shows "plfit_mt_random rng =
    Inr (twist_block (mt_buffer rng) ! 0, \<lparr>mt_index = 4, mt_buffer = twist_block (mt_buffer rng)\<rparr>)"
  using assms by (auto simp: plfit_mt_random_def mt_ok_def mt_consts read_word_ok)

lemma plfit_mt_random_total:
  assumes "mt_ok rng"
  obtains w rng' where "plfit_mt_random rng = Inr (w, rng')" "mt_ok rng'"
proof (cases "mt_index rng = 2496")
  case True
  with assms show ?thesis
    using plfit_mt_random_refill [OF assms True] that by (auto simp: mt_ok_def mt_consts)
next
  case False
  have "mt_index rng + 4 \<le> 2496" using assms False by (simp add: mt_ok_def mt_consts) presburger
  with assms False show ?thesis
    using plfit_mt_random_step [OF assms False] that by (auto simp: mt_ok_def mt_consts)
qed

subsection \<open>The generator computes the linear recurrence\<close>

definition mt_next :: "uint32_t \<Rightarrow> uint32_t \<Rightarrow> uint32_t \<Rightarrow> uint32_t" where
  "mt_next x0 x1 xm =
     (let s = (x0 AND UPPER_MASK) OR (x1 AND LOWER_MASK) in xm XOR drop_bit 1 s XOR MAGIC s)"

fun mt_recurrence :: "uint32_t list \<Rightarrow> nat \<Rightarrow> uint32_t" where
  "mt_recurrence seed k =
     (if k < 624 then seed ! k
      else mt_next (mt_recurrence seed (k - 624)) (mt_recurrence seed (k - 623))
             (mt_recurrence seed (k - 227)))"

declare mt_recurrence.simps [simp del]

lemma mt_recurrence_step:
  "mt_recurrence seed (c + 624) =
     mt_next (mt_recurrence seed c) (mt_recurrence seed (c + 1)) (mt_recurrence seed (c + 397))"
  by (subst mt_recurrence.simps) (simp add: numeral_eq_Suc)

definition window :: "(nat \<Rightarrow> uint32_t) \<Rightarrow> nat \<Rightarrow> uint32_t list \<Rightarrow> bool" where
  \<comment> \<open>the buffer holds the values number \<open>c\<close> to \<open>c + 623\<close>\<close>
  "window R c b \<longleftrightarrow> length b = 624 \<and> (\<forall>j < 624. b ! j = R (c + j))"

definition half_window :: "(nat \<Rightarrow> uint32_t) \<Rightarrow> nat \<Rightarrow> nat \<Rightarrow> uint32_t list \<Rightarrow> bool" where
  \<comment> \<open>the first \<open>i\<close> of them are already the next block's\<close>
  "half_window R c i b \<longleftrightarrow>
     length b = 624 \<and> (\<forall>j < 624. b ! j = R (if j < i then c + 624 + j else c + j))"

lemma half_window_update:
  assumes "half_window R c i b" "i < 624" "x = R (c + 624 + i)"
  shows "half_window R c (Suc i) (b[i := x])"
  using assms by (auto simp: half_window_def nth_list_update less_Suc_eq)

lemma window_twist_block:
  assumes R: "\<And>k. R (k + 624) = mt_next (R k) (R (k + 1)) (R (k + 397))"
    and w: "window R c b"
  shows "window R (c + 624) (twist_block b)"
proof -
  let ?H = "half_window R c"
  have val: "mt_next (R (c + i)) (R (c + i + 1)) (R (c + i + 397)) = R (c + 624 + i)" for i
  proof -
    have "c + 624 + i = c + i + 624" by simp
    then show ?thesis using R [of "c + i"] by (simp only:)
  qed
  have h0: "?H 0 b" using w by (simp add: window_def half_window_def)
  have "?H 227 (fold twist_low [0..<227] b)"
  proof (rule fold_upt_invariant [where P = ?H])
    fix i b assume i: "i < 227" and h: "?H i b"
    then have "b ! i = R (c + i)" "b ! (i + 1) = R (c + i + 1)" "b ! (i + 397) = R (c + i + 397)"
      by (auto simp: half_window_def add.assoc)
    then have "twist_low i b = b[i := mt_next (R (c + i)) (R (c + i + 1)) (R (c + i + 397))]"
      by (simp add: twist_low_def TWIST_def mt_next_def mt_consts Let_def)
    then show "?H (Suc i) (twist_low i b)" unfolding val using h i by (auto intro: half_window_update)
  qed (use h0 in auto)
  then have "?H 623 (fold twist_high [227..<623] (fold twist_low [0..<227] b))"
  proof (rule fold_upt_invariant [where P = ?H])
    fix i b assume i: "227 \<le> i" "i < 623" and h: "?H i b"
    then have "b ! i = R (c + i)" "b ! (i + 1) = R (c + i + 1)" "b ! (i - 227) = R (c + i + 397)"
      by (auto simp: half_window_def add.assoc add.commute [of 397])
    then have "twist_high i b = b[i := mt_next (R (c + i)) (R (c + i + 1)) (R (c + i + 397))]"
      by (simp add: twist_high_def TWIST_def mt_next_def mt_consts Let_def)
    then show "?H (Suc i) (twist_high i b)" unfolding val using h i by (auto intro: half_window_update)
  qed simp
  then have "?H 623 (fold twist_high [MT_IB..<PLFIT_MT_LEN - 1] (fold twist_low [0..<MT_IB] b))"
    by (simp add: mt_consts)
  moreover define b' where "b' = fold twist_high [MT_IB..<PLFIT_MT_LEN - 1] (fold twist_low [0..<MT_IB] b)"
  ultimately have h: "?H 623 b'" by simp
  then have "b' ! 623 = R (c + 623)" "b' ! 0 = R (c + 623 + 1)" "b' ! 396 = R (c + 623 + 397)"
    by (auto simp: half_window_def add.commute [of _ c])
  then have "twist_last b' = b'[623 := mt_next (R (c + 623)) (R (c + 623 + 1)) (R (c + 623 + 397))]"
    by (simp add: twist_last_def TWIST_def mt_next_def mt_consts Let_def)
  then have "?H 624 (twist_last b')" unfolding val using half_window_update [OF h] by simp
  then show ?thesis by (simp add: half_window_def window_def twist_block_def b'_def)
qed

text \<open>The state after \<open>k\<close> calls from a fresh seed.\<close>

definition mt_at :: "(nat \<Rightarrow> uint32_t) \<Rightarrow> nat \<Rightarrow> plfit_mt_rng_t \<Rightarrow> bool" where
  "mt_at R k rng \<longleftrightarrow> (\<exists>c i. k = c + i \<and> i \<le> 624 \<and> mt_index rng = 4 * i \<and> window R c (mt_buffer rng))"

lemma mt_at_ok: "mt_at R k rng \<Longrightarrow> mt_ok rng"
  by (auto simp: mt_at_def mt_ok_def window_def mt_consts)

lemma plfit_mt_random_at:
  assumes R: "\<And>k. R (k + 624) = mt_next (R k) (R (k + 1)) (R (k + 397))"
    and a: "mt_at R k rng"
  shows "\<exists>rng'. plfit_mt_random rng = Inr (R k, rng') \<and> mt_at R (Suc k) rng'"
proof -
  from a obtain c i where ci: "k = c + i" "i \<le> 624" "mt_index rng = 4 * i" "window R c (mt_buffer rng)"
    by (auto simp: mt_at_def)
  note ok = mt_at_ok [OF a]
  show ?thesis
  proof (cases "i = 624")
    case True
    have w: "window R k (twist_block (mt_buffer rng))"
      using window_twist_block [OF R ci(4)] ci True by simp
    then have "mt_at R (Suc k) \<lparr>mt_index = 4, mt_buffer = twist_block (mt_buffer rng)\<rparr>"
      unfolding mt_at_def by (intro exI [of _ k] exI [of _ 1]) simp
    with w show ?thesis
      using plfit_mt_random_refill [OF ok] ci True by (simp add: window_def)
  next
    case False
    have "mt_at R (Suc k) (rng\<lparr>mt_index := mt_index rng + 4\<rparr>)"
      using ci False unfolding mt_at_def by (intro exI [of _ c] exI [of _ "Suc i"]) simp
    then show ?thesis
      using plfit_mt_random_step [OF ok] ci False by (simp add: window_def)
  qed
qed

lemma mt_outputs_at:
  assumes R: "\<And>k. R (k + 624) = mt_next (R k) (R (k + 1)) (R (k + 397))"
  shows "mt_at R k rng \<Longrightarrow>
    \<exists>rng'. mt_outputs n rng = Inr (map R [k..<k + n], rng') \<and> mt_at R (k + n) rng'"
proof (induction n arbitrary: k rng)
  case 0
  then show ?case by simp
next
  case (Suc n)
  from plfit_mt_random_at [OF R Suc.prems] obtain rng1 where
    r1: "plfit_mt_random rng = Inr (R k, rng1)" "mt_at R (Suc k) rng1" by auto
  from Suc.IH [OF r1(2)] obtain rng2 where
    r2: "mt_outputs n rng1 = Inr (map R [Suc k..<Suc k + n], rng2)" "mt_at R (Suc k + n) rng2" by auto
  from r1 r2 show ?case by (simp add: upt_rec [of k])
qed

lemma mt_at_seed: "length seed = 624 \<Longrightarrow> mt_at (mt_recurrence seed) 0 \<lparr>mt_index = 0, mt_buffer = seed\<rparr>"
  unfolding mt_at_def window_def
  by (intro exI [of _ 0]) (auto simp: mt_recurrence.simps)

lemma mt_ok_at:
  assumes "mt_ok rng"
  obtains R k where "mt_at R k rng" "\<And>k. R (k + 624) = mt_next (R k) (R (k + 1)) (R (k + 397))"
proof -
  let ?R = "mt_recurrence (mt_buffer rng)"
  from assms have "window ?R 0 (mt_buffer rng)" "mt_index rng = 4 * (mt_index rng div 4)"
    "mt_index rng div 4 \<le> 624"
    by (auto simp: mt_ok_def window_def mt_consts mt_recurrence.simps)
  then have "mt_at ?R (mt_index rng div 4) rng"
    unfolding mt_at_def by (intro exI [of _ 0] exI [of _ "mt_index rng div 4"]) auto
  then show ?thesis using mt_recurrence_step by (rule that)
qed

text \<open>
  C9. Seeded with any 624 words, the first \<open>n\<close> calls of \<open>plfit_mt_random\<close> return the first \<open>n\<close>
  terms of the generator's linear recurrence over the seed: the two loops and the wrap-around
  step that update the buffer in place compute the same numbers as the recurrence, never read
  outside the buffer, and hand every term out exactly once and in order.
\<close>

theorem mt_outputs_recurrence:
  assumes "length seed = PLFIT_MT_LEN"
  shows "map_sum id fst (mt_outputs n \<lparr>mt_index = 0, mt_buffer = seed\<rparr>) =
    Inr (map (mt_recurrence seed) [0..<n])"
  using mt_outputs_at [OF mt_recurrence_step mt_at_seed, of seed n] assms by (auto simp: mt_consts)

theorem mt_outputs_recurrence_witness:
  "map_sum id fst (mt_outputs 1000 \<lparr>mt_index = 0, mt_buffer = replicate 624 5\<rparr>) =
    Inr (map (mt_recurrence (replicate 624 5)) [0..<1000])"
  using mt_outputs_recurrence [of "replicate 624 5" 1000] by (simp add: PLFIT_MT_LEN_def)

subsection \<open>Uniform numbers\<close>

lemma uint_max32: "uint (w :: uint32_t) \<le> 0xFFFFFFFF"
  using uint_lt2p [of w] by simp

lemma mt_quotient:
  fixes w :: uint32_t
  defines "u \<equiv> double_of_int (uint w) / double_of_int PLFIT_MT_RAND_MAX"
  shows "u = to_double False (of_int (uint w) / 0xFFFFFFFF)"
    and "0 \<le> u" "u \<le> 1" "u = 1 \<longleftrightarrow> uint w = 0xFFFFFFFF" "is_double u"
proof -
  have w: "0 \<le> uint w" "uint w \<le> 0xFFFFFFFF" using uint_max32 by simp_all
  define q :: rat where "q = of_int (uint w)"
  have q: "0 \<le> q" "q \<le> 0xFFFFFFFF"
    unfolding q_def using w of_int_le_iff [where 'a = rat, of "uint w" "0xFFFFFFFF"]
      of_int_0_le_iff [where 'a = rat, of "uint w"] by simp_all
  have e: "double_of_int (uint w) = Fin q"
    unfolding q_def using w by (intro double_of_int_exact) simp
  have m: "double_of_int PLFIT_MT_RAND_MAX = Fin 0xFFFFFFFF"
    using double_of_int_exact [of "0xFFFFFFFF"] by (simp add: PLFIT_MT_RAND_MAX_def)
  have u: "u = to_double False (q / 0xFFFFFFFF)"
    using q by (auto simp: u_def e m dbl not_less)
  then show "u = to_double False (of_int (uint w) / 0xFFFFFFFF)" by (simp only: q_def)
  show "0 \<le> u" using q by (simp add: u to_double_nonneg)
  have le: "to_double False (q / 0xFFFFFFFF) \<le> Fin 1"
    using q by (intro to_double_le_Fin) (auto simp: is_double_Fin)
  then show "u \<le> 1" by (simp add: u one_double_def)
  show "u = 1 \<longleftrightarrow> uint w = 0xFFFFFFFF"
  proof
    assume u1: "u = 1"
    show "uint w = 0xFFFFFFFF"
    proof (rule ccontr)
      assume "uint w \<noteq> 0xFFFFFFFF"
      with w have "uint w \<le> 0xFFFFFFFE" by simp
      then have "q \<le> 0xFFFFFFFE"
        unfolding q_def using of_int_le_iff [where 'a = rat, of "uint w" "0xFFFFFFFE"] by simp
      then have "q / 0xFFFFFFFF \<le> of_int (2 ^ 53 - 1) / (2 ^ 53 :: rat)" by simp
      moreover have "representable (of_int (2 ^ 53 - 1) / 2 ^ 53)"
        by (rule representable_quotient) auto
      ultimately have "u \<le> Fin (of_int (2 ^ 53 - 1) / 2 ^ 53)"
        unfolding u by (intro to_double_le_Fin) (auto simp: is_double_Fin)
      with u1 show False by (simp add: one_double_def)
    qed
  next
    assume "uint w = 0xFFFFFFFF"
    then have "q = 0xFFFFFFFF" by (simp add: q_def)
    then show "u = 1" using to_double_exact' [of 1] by (simp add: u one_double_def)
  qed
  show "is_double u" by (simp add: u)
qed

lemma plfit_mt_uniform_01_eq:
  "plfit_mt_uniform_01 rng = Inr (u, rng') \<longleftrightarrow>
    (\<exists>w. plfit_mt_random rng = Inr (w, rng') \<and> u = double_of_int (uint w) / double_of_int PLFIT_MT_RAND_MAX)"
  by (auto simp: plfit_mt_uniform_01_def plfit_check_eq_Inr)

lemma plfit_mt_uniform_01_total:
  assumes "mt_ok rng"
  shows "\<exists>u rng'. plfit_mt_uniform_01 rng = Inr (u, rng') \<and> mt_ok rng' \<and> 0 \<le> u \<and> u \<le> 1 \<and> is_double u"
proof -
  obtain w rng' where r: "plfit_mt_random rng = Inr (w, rng')" "mt_ok rng'"
    using assms by (rule plfit_mt_random_total)
  from r(1) have "plfit_mt_uniform_01 rng =
      Inr (double_of_int (uint w) / double_of_int PLFIT_MT_RAND_MAX, rng')"
    by (simp add: plfit_mt_uniform_01_def)
  then show ?thesis using mt_quotient(2,3,5) [of w] r(2) by blast
qed

text \<open>
  A generator in a valid state always yields a uniform number, which lies in the closed
  interval from 0 to 1 and stays in a valid state; the number is exactly 1 when, and only when,
  the underlying 32-bit output is the largest one. (The comment in \<open>include/plfit_mt.h\<close>
  promises the half-open interval [0;1).)
\<close>

theorem plfit_mt_uniform_01_range:
  assumes "mt_ok rng"
  shows "\<exists>w u rng'. plfit_mt_random rng = Inr (w, rng') \<and> plfit_mt_uniform_01 rng = Inr (u, rng') \<and>
    mt_ok rng' \<and> 0 \<le> u \<and> u \<le> 1 \<and> (u = 1 \<longleftrightarrow> w = - 1)"
proof -
  obtain w rng' where r: "plfit_mt_random rng = Inr (w, rng')" "mt_ok rng'"
    using assms by (rule plfit_mt_random_total)
  have "uint w = 0xFFFFFFFF \<longleftrightarrow> w = - 1"
    by (subst word_uint_eq_iff) (simp add: uint_word_ariths)
  with r mt_quotient [of w] show ?thesis by (auto simp: plfit_mt_uniform_01_def)
qed

theorem plfit_mt_uniform_01_range_witness:
  "\<exists>w u rng'. plfit_mt_random \<lparr>mt_index = 0, mt_buffer = replicate 624 (- 1)\<rparr> = Inr (w, rng') \<and>
    plfit_mt_uniform_01 \<lparr>mt_index = 0, mt_buffer = replicate 624 (- 1)\<rparr> = Inr (u, rng') \<and>
    mt_ok rng' \<and> 0 \<le> u \<and> u \<le> 1 \<and> (u = 1 \<longleftrightarrow> w = - 1)"
  by (rule plfit_mt_uniform_01_range) (simp add: mt_ok_def mt_consts)

end
