(* ===== verification/Sampling.thy ===== *)
theory Sampling
  imports Mt
begin

text \<open>
  The samplers of \<open>src/sampling.c\<close>: uniform numbers from \<open>rand\<close> or from a Mersenne Twister,
  the Pareto and zeta distributions, and Walker's alias method. A \<open>plfit_mt_rng_t*\<close> argument is
  the type \<open>rng\<close>: \<open>Builtin st\<close> is the null pointer (\<open>rand\<close>, in state \<open>st\<close>), \<open>Twister\<close> points to
  a generator. Every sampler threads the generator's state through its calls.
\<close>

datatype rng = Builtin nat | Twister plfit_mt_rng_t

type_synonym 'a drawn = "('a \<times> rng) result"

definition uniform_mt :: "plfit_mt_rng_t \<Rightarrow> double drawn" where
  "uniform_mt m = plfit_check (plfit_mt_uniform_01 m) (\<lambda>(u, m'). Inr (u, Twister m'))"

definition uniform_rand :: "clib \<Rightarrow> nat \<Rightarrow> double drawn" where
  "uniform_rand L st =
     (let (r, st') = c_rand L st in Inr (double_of_nat r / double_of_nat (c_RAND_MAX L), Builtin st'))"

definition plfit_runif_01 :: "clib \<Rightarrow> rng \<Rightarrow> double drawn" where
  "plfit_runif_01 L g = (case g of Builtin st \<Rightarrow> uniform_rand L st | Twister m \<Rightarrow> uniform_mt m)"

definition plfit_runif :: "clib \<Rightarrow> double \<Rightarrow> double \<Rightarrow> rng \<Rightarrow> double drawn" where
  "plfit_runif L lo hi g =
     (case g of
        Builtin st \<Rightarrow> plfit_check (uniform_rand L st) (\<lambda>(u, g'). Inr (lo + u * (hi - lo), g'))
      | Twister m \<Rightarrow> plfit_check (uniform_mt m) (\<lambda>(u, g'). Inr (lo + u * (hi - lo), g')))"

subsection \<open>The Pareto distribution\<close>

definition plfit_rpareto :: "clib \<Rightarrow> double \<Rightarrow> double \<Rightarrow> rng \<Rightarrow> double drawn" where
  "plfit_rpareto L xmin alpha g =
     (if alpha \<le> 0 \<or> xmin \<le> 0 then Inr (NaN, g)
      else plfit_check (plfit_runif_01 L g)
        (\<lambda>(u, g'). Inr (c_pow L (1 - u) (- 1 / alpha) * xmin, g')))"

fun rpareto_loop :: "clib \<Rightarrow> double \<Rightarrow> double \<Rightarrow> nat \<Rightarrow> rng \<Rightarrow> double list drawn" where
  "rpareto_loop L xmin gamma 0 g = Inr ([], g)"
| "rpareto_loop L xmin gamma (Suc n) g =
     plfit_check (plfit_runif_01 L g) (\<lambda>(u, g1).
     plfit_check (rpareto_loop L xmin gamma n g1) (\<lambda>(ys, g2).
     Inr (c_pow L (1 - u) gamma * xmin # ys, g2)))"

definition plfit_rpareto_array ::
  "clib \<Rightarrow> double \<Rightarrow> double \<Rightarrow> nat \<Rightarrow> bool \<Rightarrow> rng \<Rightarrow> double list drawn" where
  \<comment> \<open>\<open>result_null\<close>: the result pointer is null; the list is what is written behind it\<close>
  "plfit_rpareto_array L xmin alpha n result_null g =
     (if alpha \<le> 0 \<or> xmin \<le> 0 then plfit_fail PLFIT_EINVAL
      else if result_null \<or> n = 0 then Inr ([], g)
      else rpareto_loop L xmin (- 1 / alpha) n g)"

subsection \<open>The zeta distribution, by rejection\<close>

text \<open>
  Both loops draw until a number is accepted; nothing bounds how often. The fuel counts the
  iterations of each loop. A proposal that a \<open>long\<close> cannot hold is undefined behaviour.
\<close>

fun rzeta_propose :: "clib \<Rightarrow> nat \<Rightarrow> int \<Rightarrow> double \<Rightarrow> rng \<Rightarrow> (double \<times> int) drawn" where
  "rzeta_propose L 0 xmin expo g = Inl Out_of_fuel"
| "rzeta_propose L (Suc fuel) xmin expo g =
     plfit_check (plfit_runif_01 L g) (\<lambda>(u, g1).
     plfit_check (plfit_runif_01 L g1) (\<lambda>(v, g2).
     plfit_check (cast_long (dfloor (c_pow L (1 - u) expo * double_of_int xmin))) (\<lambda>x.
     if x < xmin then rzeta_propose L fuel xmin expo g2 else Inr ((v, x), g2))))"

fun rzeta_accept ::
  "clib \<Rightarrow> nat \<Rightarrow> nat \<Rightarrow> int \<Rightarrow> double \<Rightarrow> double \<Rightarrow> double \<Rightarrow> double \<Rightarrow> rng \<Rightarrow> int drawn" where
  "rzeta_accept L 0 fuel xmin alpha_minus_1 expo b one_over_b_minus_1 g = Inl Out_of_fuel"
| "rzeta_accept L (Suc tries) fuel xmin alpha_minus_1 expo b one_over_b_minus_1 g =
     plfit_check (rzeta_propose L fuel xmin expo g) (\<lambda>((v, x), g1).
       let t = c_pow L ((double_of_int x + 1) / double_of_int x) alpha_minus_1 in
       if t * double_of_int xmin < v * double_of_int x * (t - 1) * one_over_b_minus_1 * b
       then rzeta_accept L tries fuel xmin alpha_minus_1 expo b one_over_b_minus_1 g1
       else Inr (x, g1))"

definition rzeta_draw :: "clib \<Rightarrow> nat \<Rightarrow> int \<Rightarrow> double \<Rightarrow> rng \<Rightarrow> int drawn" where
  \<comment> \<open>the body both functions share, from the rounding of \<open>xmin\<close> on\<close>
  "rzeta_draw L fuel xmin alpha g =
     plfit_check (cast_long (dround (double_of_int xmin))) (\<lambda>xmin.
       let alpha_minus_1 = alpha - 1;
           minus_1_over_alpha_minus_1 = - 1 / (alpha - 1);
           b = c_pow L (1 + 1 / double_of_int xmin) alpha_minus_1;
           one_over_b_minus_1 = 1 / (b - 1)
       in rzeta_accept L fuel fuel xmin alpha_minus_1 minus_1_over_alpha_minus_1 b one_over_b_minus_1 g)"

definition plfit_rzeta :: "clib \<Rightarrow> nat \<Rightarrow> int \<Rightarrow> double \<Rightarrow> rng \<Rightarrow> double drawn" where
  "plfit_rzeta L fuel xmin alpha g =
     (if alpha \<le> 0 \<or> xmin < 1 then Inr (NaN, g)
      else plfit_check (rzeta_draw L fuel xmin alpha g) (\<lambda>(x, g'). Inr (double_of_int x, g')))"

fun rzeta_loop :: "clib \<Rightarrow> nat \<Rightarrow> int \<Rightarrow> double \<Rightarrow> nat \<Rightarrow> rng \<Rightarrow> double list drawn" where
  "rzeta_loop L fuel xmin alpha 0 g = Inr ([], g)"
| "rzeta_loop L fuel xmin alpha (Suc n) g =
     plfit_check (rzeta_draw L fuel xmin alpha g) (\<lambda>(x, g1).
     if x < 0 then plfit_fail PLFIT_EINVAL
     else plfit_check (rzeta_loop L fuel xmin alpha n g1) (\<lambda>(ys, g2).
       Inr (double_of_int x # ys, g2)))"

definition plfit_rzeta_array ::
  "clib \<Rightarrow> nat \<Rightarrow> int \<Rightarrow> double \<Rightarrow> nat \<Rightarrow> bool \<Rightarrow> rng \<Rightarrow> double list drawn" where
  "plfit_rzeta_array L fuel xmin alpha n result_null g =
     (if alpha \<le> 0 \<or> xmin < 1 then plfit_fail PLFIT_EINVAL
      else if result_null \<or> n = 0 then Inr ([], g)
      else rzeta_loop L fuel xmin alpha n g)"

subsection \<open>Uniform sources\<close>

text \<open>What a sampler relies on: a source in a good state yields a number from 0 to 1.\<close>

locale uniform_source =
  fixes draw :: "'s \<Rightarrow> (double \<times> 's) result" and ok :: "'s \<Rightarrow> bool"
  assumes draw_ok: "ok s \<Longrightarrow> \<exists>u s'. draw s = Inr (u, s') \<and> ok s' \<and> 0 \<le> u \<and> u \<le> 1 \<and> is_double u"
begin

lemma draw_range:
  assumes "draw s = Inr (u, s')" "ok s"
  shows "0 \<le> u" "u \<le> 1" "isfinite u" "ok s'"
  using draw_ok [OF assms(2)] assms(1) isfinite_between [of 0 u 1] by auto

lemma draw_not_stuck: "ok s \<Longrightarrow> draw s \<noteq> Inl e"
  using draw_ok by fastforce

end

definition rng_ok :: "clib \<Rightarrow> rng \<Rightarrow> bool" where
  "rng_ok L g = (case g of Builtin st \<Rightarrow> rand_in_range L | Twister m \<Rightarrow> mt_ok m)"

lemma uniform_rand_range:
  assumes "rand_in_range L"
  shows "\<exists>u st'. uniform_rand L st = Inr (u, Builtin st') \<and> 0 \<le> u \<and> u \<le> 1 \<and> is_double u"
proof -
  obtain r st' where r: "c_rand L st = (r, st')" by (cases "c_rand L st")
  with assms have le: "r \<le> c_RAND_MAX L" and pos: "0 < c_RAND_MAX L" and lt: "c_RAND_MAX L \<le> 2 ^ 53"
    by (auto simp: rand_in_range_def) (metis fst_conv)
  then have e: "double_of_nat r = Fin (of_nat r)" "double_of_nat (c_RAND_MAX L) = Fin (of_nat (c_RAND_MAX L))"
    by (auto intro: double_of_nat_exact)
  define q :: rat where "q = of_nat r / of_nat (c_RAND_MAX L)"
  have q: "0 \<le> q" "q \<le> 1" using le pos by (simp_all add: q_def)
  have "double_of_nat r / double_of_nat (c_RAND_MAX L) = to_double False q"
    using pos by (simp add: e dbl q_def)
  moreover have "0 \<le> to_double False q" "to_double False q \<le> Fin 1"
    using q by (auto intro!: to_double_nonneg to_double_le_Fin simp: is_double_Fin)
  ultimately show ?thesis by (simp add: uniform_rand_def r one_double_def)
qed

interpretation runif: uniform_source "plfit_runif_01 L" "rng_ok L" for L
proof
  fix g assume ok: "rng_ok L g"
  show "\<exists>u g'. plfit_runif_01 L g = Inr (u, g') \<and> rng_ok L g' \<and> 0 \<le> u \<and> u \<le> 1 \<and> is_double u"
  proof (cases g)
    case (Builtin st)
    with ok uniform_rand_range [of L st] show ?thesis by (auto simp: plfit_runif_01_def rng_ok_def)
  next
    case (Twister m)
    with ok have "mt_ok m" by (simp add: rng_ok_def)
    from plfit_mt_uniform_01_total [OF this] Twister show ?thesis
      by (force simp: plfit_runif_01_def rng_ok_def uniform_mt_def)
  qed
qed

lemma plfit_runif_rng:
  assumes "plfit_runif L lo hi g = Inr (x, g')" "rng_ok L g"
  shows "rng_ok L g'"
proof -
  obtain u where "plfit_runif_01 L g = Inr (u, g')"
    using assms(1) by (auto simp: plfit_runif_def plfit_runif_01_def plfit_check_eq_Inr split: rng.splits)
  from runif.draw_range(4) [OF this assms(2)] show ?thesis .
qed

subsection \<open>Pareto samples\<close>

text \<open>
  What the sampler relies on of \<open>pow\<close>: a base from 0 to 1 with an exponent that is not positive
  gives at least one (infinity for the base 0).
\<close>

definition pow_ge_one :: "clib \<Rightarrow> bool" where
  "pow_ge_one L \<longleftrightarrow> (\<forall>x y. 0 \<le> x \<longrightarrow> x \<le> 1 \<longrightarrow> y \<le> 0 \<longrightarrow> 1 \<le> c_pow L x y)"

lemma ge_one_times:
  assumes "1 \<le> x" "0 < y" "is_double y"
  shows "y \<le> x * y"
proof (cases "isfinite x \<and> isfinite y")
  case True
  then have v: "1 \<le> val x" "0 < val y" using assms by (auto simp: dle_finite dless_finite)
  obtain q where y: "y = Fin q" using True assms(2) by (cases y) auto
  have "q \<le> val x * q" using v y by simp
  then have "Fin q \<le> to_double (sign_bit x \<noteq> sign_bit y) (val x * q)"
    using assms(3) by (intro to_double_ge_Fin) (simp_all add: y)
  with True y show ?thesis by (simp add: dmul_finite)
next
  case False
  with assms show ?thesis
    by (cases x; cases y) (auto simp: times_double_def dmul_def dinf_def one_double_def)
qed

lemma one_minus_unit:
  assumes "0 \<le> u" "u \<le> 1" "is_double u"
  shows "0 \<le> 1 - u" "1 - u \<le> 1"
proof -
  have u: "isfinite u" using assms isfinite_between [of 0 u 1] by simp
  with assms have v: "0 \<le> val u" "val u \<le> 1" by (auto simp: dle_finite)
  have e: "1 - u = to_double False (1 - val u)" using u by (simp add: dsub_finite one_double_def)
  show "0 \<le> 1 - u" unfolding e using v by (intro to_double_nonneg) simp
  have "to_double False (1 - val u) \<le> Fin 1" using v by (intro to_double_le_Fin) (simp_all add: is_double_Fin)
  then show "1 - u \<le> 1" by (subst e) (simp only: one_double_def)
qed

lemma minus_one_over_pos: "0 < alpha \<Longrightarrow> - 1 / alpha \<le> (0 :: double)"
proof (cases alpha)
  case (Fin q)
  assume "0 < alpha"
  with Fin have "0 < q" by simp
  moreover from this have "- 1 / alpha = to_double True (- 1 / q)"
    by (simp add: Fin one_double_def uminus_double_def dbl)
  moreover have "to_double True (- 1 / q) \<le> Fin 0" using \<open>0 < q\<close> by (intro to_double_le_Fin) (simp_all add: is_double_Fin)
  ultimately show ?thesis by (simp add: zero_double_def)
qed (auto simp: one_double_def uminus_double_def divide_double_def ddiv_def)

lemma rpareto_loop_ok:
  assumes "rng_ok L g" "pow_ge_one L" "gamma \<le> 0" "0 < xmin" "is_double xmin"
  shows "\<exists>ys g'. rpareto_loop L xmin gamma n g = Inr (ys, g') \<and> length ys = n \<and> rng_ok L g' \<and>
    (\<forall>y \<in> set ys. xmin \<le> y)"
  using assms(1)
proof (induction n arbitrary: g)
  case 0
  then show ?case by simp
next
  case (Suc n)
  obtain u g1 where u: "plfit_runif_01 L g = Inr (u, g1)" "rng_ok L g1" "0 \<le> u" "u \<le> 1" "is_double u"
    using runif.draw_ok [OF Suc.prems] by blast
  have "1 \<le> c_pow L (1 - u) gamma"
    using assms(2,3) one_minus_unit [OF u(3-5)] by (simp add: pow_ge_one_def)
  then have "xmin \<le> c_pow L (1 - u) gamma * xmin" using assms(4,5) by (rule ge_one_times)
  with Suc.IH [OF u(2)] u(1) show ?case by auto
qed

lemma rpareto_array_cases:
  assumes "rng_ok L g" "pow_ge_one L" "is_double xmin" "\<not> isnan xmin" "\<not> isnan alpha"
  shows "if alpha \<le> 0 \<or> xmin \<le> 0
    then plfit_rpareto_array L xmin alpha n False g = plfit_fail PLFIT_EINVAL
    else \<exists>ys g'. plfit_rpareto_array L xmin alpha n False g = Inr (ys, g') \<and>
      length ys = n \<and> rng_ok L g' \<and> (\<forall>y \<in> set ys. xmin \<le> y)"
proof (cases "alpha \<le> 0 \<or> xmin \<le> 0")
  case True
  then show ?thesis by (simp add: plfit_rpareto_array_def)
next
  case False
  then have pos: "0 < alpha" "0 < xmin" using assms(4,5) dnot_le [of alpha 0] dnot_le [of xmin 0] by auto
  with False show ?thesis
    using rpareto_loop_ok [OF assms(1,2) minus_one_over_pos [OF pos(1)] pos(2) assms(3), of n] assms(1)
    by (auto simp: plfit_rpareto_array_def)
qed

lemma rpareto_array_values:
  assumes "plfit_rpareto_array L xmin alpha n False g = Inr (ys, g')" "rng_ok L g" "pow_ge_one L"
    "is_double xmin" "\<not> isnan xmin" "\<not> isnan alpha"
  shows "length ys = n \<and> (\<forall>y \<in> set ys. xmin \<le> y)"
  using rpareto_array_cases [OF assms(2-6), of n] assms(1) by (auto split: if_splits)

text \<open>
  Sampling \<open>n\<close> numbers from the Pareto distribution fails with \<open>PLFIT_EINVAL\<close>, before
  anything is drawn, when \<open>alpha\<close> or \<open>xmin\<close> is not positive; otherwise, with either
  generator, it always returns \<open>n\<close> numbers and none of them is below \<open>xmin\<close>. (The uniform
  number can be exactly 1; the sample is then infinite.)
\<close>

theorem plfit_rpareto_array_correct:
  assumes "rng_ok L g" "pow_ge_one L" "is_double xmin" "\<not> isnan xmin" "\<not> isnan alpha"
  shows "if alpha \<le> 0 \<or> xmin \<le> 0
    then plfit_rpareto_array L xmin alpha n False g = plfit_fail PLFIT_EINVAL
    else \<exists>ys g'. plfit_rpareto_array L xmin alpha n False g = Inr (ys, g') \<and>
      length ys = n \<and> rng_ok L g' \<and> (\<forall>y \<in> set ys. xmin \<le> y)"
  using assms by (rule rpareto_array_cases)

lemma plain_rng_ok: "rng_ok plain_clib (Builtin st)"
proof -
  have "s mod 32768 \<le> (32767 :: nat)" for s using mod_less_divisor [of 32768 s] by linarith
  then show ?thesis by (simp add: rng_ok_def rand_in_range_def plain_clib_def)
qed

lemma zero_clib_draws:
  "rng_ok zero_clib (Builtin st)" "plfit_runif_01 zero_clib (Builtin st) = Inr (0, Builtin st)"
  "pow_ge_one zero_clib"
proof -
  have "double_of_nat 32767 = Fin 32767" by (simp add: double_of_nat_exact)
  then show "plfit_runif_01 zero_clib (Builtin st) = Inr (0, Builtin st)"
    by (simp add: plfit_runif_01_def uniform_rand_def zero_clib_def plain_clib_def zero_double_def dbl to_double_0)
  show "rng_ok zero_clib (Builtin st)" by (simp add: rng_ok_def rand_in_range_def zero_clib_def plain_clib_def)
  show "pow_ge_one zero_clib" by (simp add: pow_ge_one_def zero_clib_def plain_clib_def)
qed

theorem plfit_rpareto_array_correct_witness:
  "\<exists>ys g'. plfit_rpareto_array plain_clib (Fin 2) (Fin 3) 4 False (Builtin 7) = Inr (ys, g') \<and>
    length ys = 4 \<and> rng_ok plain_clib g' \<and> (\<forall>y \<in> set ys. Fin 2 \<le> y)"
proof -
  have "pow_ge_one plain_clib" by (simp add: pow_ge_one_def plain_clib_def)
  moreover have "is_double (Fin 2)" using representable_int [of 2] by (simp add: is_double_Fin)
  ultimately show ?thesis
    using plfit_rpareto_array_correct [OF plain_rng_ok, of "Fin 2" "Fin 3" 4 7] by simp
qed

subsection \<open>Zeta samples\<close>

lemma rzeta_propose_ge:
  "rzeta_propose L fuel xmin expo g = Inr ((v, x), g') \<Longrightarrow> xmin \<le> x"
  by (induction fuel arbitrary: g) (auto simp: plfit_check_eq_Inr split: if_splits)

lemma rzeta_accept_ge:
  "rzeta_accept L tries fuel xmin a e b o' g = Inr (x, g') \<Longrightarrow> xmin \<le> x"
  by (induction tries arbitrary: g)
    (auto simp: plfit_check_eq_Inr Let_def split: if_splits dest: rzeta_propose_ge)

lemma cast_long_round:
  assumes "\<bar>i\<bar> \<le> 2 ^ 53"
  shows "cast_long (dround (double_of_int i)) = Inr i"
proof -
  have "dround (Fin (of_int i)) = Fin (of_int i)"
    by (auto simp: dround_def integral_double_def) linarith+
  moreover have "trunc_rat (of_int i) = i" by (simp add: trunc_rat_def)
  moreover have "- (2 ^ 63) \<le> i" "i \<le> 2 ^ 63 - 1" using assms by simp_all
  ultimately show ?thesis
    using assms by (simp add: cast_long_def cast_range_def double_of_int_exact)
qed

lemma rzeta_draw_ge:
  assumes "rzeta_draw L fuel xmin alpha g = Inr (x, g')" "\<bar>xmin\<bar> \<le> 2 ^ 53"
  shows "xmin \<le> x"
  using assms by (auto simp: rzeta_draw_def cast_long_round plfit_check_eq_Inr Let_def dest: rzeta_accept_ge)

lemma rzeta_propose_no_error: "rzeta_propose L fuel xmin expo g \<noteq> plfit_fail e" if "rng_ok L g"
  using that
proof (induction fuel arbitrary: g)
  case (Suc fuel)
  obtain u g1 where u: "plfit_runif_01 L g = Inr (u, g1)" "rng_ok L g1" using runif.draw_ok [OF Suc.prems] by blast
  obtain v g2 where v: "plfit_runif_01 L g1 = Inr (v, g2)" "rng_ok L g2" using runif.draw_ok [OF u(2)] by blast
  have "cast_long x \<noteq> plfit_fail e" for x by (simp add: cast_long_def cast_range_def)
  with Suc.IH [OF v(2)] u v show ?case by (auto simp: plfit_check_eq_Inl)
qed simp

lemma rzeta_propose_rng_ok:
  "rzeta_propose L fuel xmin expo g = Inr (r, g') \<Longrightarrow> rng_ok L g \<Longrightarrow> rng_ok L g'"
proof (induction fuel arbitrary: g)
  case (Suc fuel)
  obtain u g1 where u: "plfit_runif_01 L g = Inr (u, g1)" "rng_ok L g1" using runif.draw_ok [OF Suc.prems(2)] by blast
  obtain v g2 where v: "plfit_runif_01 L g1 = Inr (v, g2)" "rng_ok L g2" using runif.draw_ok [OF u(2)] by blast
  from Suc u v show ?case by (auto simp: plfit_check_eq_Inr split: if_splits)
qed simp

lemma rzeta_accept_outcome:
  assumes "rng_ok L g"
  shows "rzeta_accept L tries fuel xmin a e b o' g \<noteq> plfit_fail err"
    "rzeta_accept L tries fuel xmin a e b o' g = Inr (x, g') \<Longrightarrow> rng_ok L g'"
  using assms
proof (induction tries arbitrary: g)
  case (Suc tries)
  {
    case 1
    show ?case
      using rzeta_propose_no_error [OF 1] Suc.IH(1) rzeta_propose_rng_ok [OF _ 1]
      by (auto simp: plfit_check_eq_Inl Let_def split: if_splits)
  next
    case 2
    then show ?case
      using Suc.IH(2) rzeta_propose_rng_ok [OF _ 2(2)]
      by (auto simp: plfit_check_eq_Inr Let_def split: if_splits)
  }
qed simp_all

lemma rzeta_draw_outcome:
  assumes "rng_ok L g"
  shows "rzeta_draw L fuel xmin alpha g \<noteq> plfit_fail err"
    "rzeta_draw L fuel xmin alpha g = Inr (x, g') \<Longrightarrow> rng_ok L g'"
proof -
  have "cast_long x \<noteq> plfit_fail err" for x by (simp add: cast_long_def cast_range_def)
  then show "rzeta_draw L fuel xmin alpha g \<noteq> plfit_fail err"
    using rzeta_accept_outcome(1) [OF assms] by (auto simp: rzeta_draw_def plfit_check_eq_Inl Let_def)
  show "rzeta_draw L fuel xmin alpha g = Inr (x, g') \<Longrightarrow> rng_ok L g'"
    using rzeta_accept_outcome(2) [OF assms] by (auto simp: rzeta_draw_def plfit_check_eq_Inr Let_def)
qed

lemma rzeta_loop_no_error:
  assumes "rng_ok L g" "\<bar>xmin\<bar> \<le> 2 ^ 53" "1 \<le> xmin"
  shows "rzeta_loop L fuel xmin alpha n g \<noteq> plfit_fail PLFIT_EINVAL"
  using assms(1)
proof (induction n arbitrary: g)
  case (Suc n)
  have "\<not> x < 0" if "rzeta_draw L fuel xmin alpha g = Inr (x, g1)" for x g1
    using rzeta_draw_ge [OF that assms(2)] assms(3) by simp
  then show ?case
    using rzeta_draw_outcome [OF Suc.prems] Suc.IH by (auto simp: plfit_check_eq_Inl split: if_splits)
qed simp

lemma rzeta_loop_values:
  assumes "rzeta_loop L fuel xmin alpha n g = Inr (ys, g')" "\<bar>xmin\<bar> \<le> 2 ^ 53"
  shows "length ys = n \<and> (\<forall>y \<in> set ys. double_of_int xmin \<le> y)"
  using assms(1)
proof (induction n arbitrary: g ys)
  case (Suc n)
  then obtain x g1 zs where x: "rzeta_draw L fuel xmin alpha g = Inr (x, g1)"
    and zs: "rzeta_loop L fuel xmin alpha n g1 = Inr (zs, g')" "ys = double_of_int x # zs"
    by (auto simp: plfit_check_eq_Inr split: if_splits)
  have "double_of_int xmin \<le> double_of_int x"
    using rzeta_draw_ge [OF x assms(2)] by (rule double_of_int_mono)
  with Suc.IH [OF zs(1)] zs(2) show ?case by simp
qed simp

text \<open>
  C31. \<open>plfit_rzeta_array\<close>, with an \<open>xmin\<close> of at most 2^53 in magnitude, reports
  \<open>PLFIT_EINVAL\<close> exactly when its parameters are invalid: the test for a negative sample at the
  end of its loop never succeeds, whatever the generator and \<open>pow\<close> yield. When it returns, it has
  produced \<open>n\<close> numbers that are all at least \<open>xmin\<close>.
\<close>

theorem plfit_rzeta_array_correct:
  assumes "rng_ok L g" "\<bar>xmin\<bar> \<le> 2 ^ 53"
  shows "(plfit_rzeta_array L fuel xmin alpha n False g = plfit_fail PLFIT_EINVAL \<longleftrightarrow> alpha \<le> 0 \<or> xmin < 1) \<and>
    (\<forall>ys g'. plfit_rzeta_array L fuel xmin alpha n False g = Inr (ys, g') \<longrightarrow>
      length ys = n \<and> (\<forall>y \<in> set ys. double_of_int xmin \<le> y))"
proof (intro conjI allI impI)
  show "plfit_rzeta_array L fuel xmin alpha n False g = plfit_fail PLFIT_EINVAL \<longleftrightarrow> alpha \<le> 0 \<or> xmin < 1"
    using rzeta_loop_no_error [OF assms, of fuel alpha n] assms(1) by (auto simp: plfit_rzeta_array_def)
next
  fix ys g' assume "plfit_rzeta_array L fuel xmin alpha n False g = Inr (ys, g')"
  then have "rzeta_loop L fuel xmin alpha n g = Inr (ys, g')" by (auto simp: plfit_rzeta_array_def split: if_splits)
  from rzeta_loop_values [OF this assms(2)]
  show "length ys = n" "\<forall>y \<in> set ys. double_of_int xmin \<le> y" by auto
qed

lemma rzeta_array_example:
  "plfit_rzeta_array zero_clib 3 2 (Fin 2) 2 False (Builtin 7) = Inr ([Fin 2, Fin 2], Builtin 7)"
proof -
  have p: "c_pow zero_clib x y = 1" for x y by (simp add: zero_clib_def plain_clib_def)
  have c: "cast_long (dfloor (1 * Fin 2)) = Inr 2" "cast_long (dround (Fin 2)) = Inr 2" "double_of_int 2 = Fin 2"
    "\<not> 1 * Fin 2 < 0 * Fin 2 * (1 - 1) * (1 / (1 - 1)) * 1"
    by code_simp+
  show ?thesis
    by (simp add: plfit_rzeta_array_def rzeta_draw_def Let_def eval_nat_numeral zero_clib_draws p c)
qed

theorem plfit_rzeta_array_correct_witness:
  "plfit_rzeta_array zero_clib 3 2 (Fin 2) 2 False (Builtin 7) = Inr ([Fin 2, Fin 2], Builtin 7) \<and>
   length [Fin 2, Fin 2] = 2 \<and> double_of_int 2 \<le> Fin 2"
  using plfit_rzeta_array_correct [OF zero_clib_draws(1), of 2 3 "Fin 2" 2 7] rzeta_array_example by simp

end
