(* ===== verification/Walker.thy ===== *)
theory Walker
  imports Sampling
begin

text \<open>
  Walker's alias method of \<open>src/sampling.c\<close>: \<open>plfit_walker_alias_sampler_init\<close> turns a vector of
  weights into a table with one column per outcome, and \<open>plfit_walker_alias_sampler_sample\<close>
  draws from it. The work arrays of the sticks are arrays of fixed size with a counter, as in the
  code, so that a write past their end would be undefined.
\<close>

record walker_alias_sampler =
  num_bins :: int
  indexes :: "int list"
  probs :: "double list"

definition LONG_MAX :: nat where "LONG_MAX = 2 ^ 63 - 1"

text \<open>The loop variables of the table construction.\<close>

record sticks =
  s_indexes :: "int list"
  s_probs :: "double list"
  short_sticks :: "nat list"
  num_short_sticks :: nat
  long_sticks :: "nat list"
  num_long_sticks :: nat

definition sum_weights :: "double list \<Rightarrow> double" where
  "sum_weights ps = foldl (+) 0 ps"

definition normalize_weights :: "double list \<Rightarrow> double list" where
  "normalize_weights ps =
     (let sum = double_of_nat (length ps) / sum_weights ps in map (\<lambda>p. p * sum) ps)"

definition classify_stick :: "nat \<times> double \<Rightarrow> sticks \<Rightarrow> sticks result" where
  "classify_stick ip s =
     (case ip of (i, p) \<Rightarrow>
        if p < 1 then
          plfit_check (array_set (short_sticks s) (num_short_sticks s) i) (\<lambda>a.
            Inr (s\<lparr>short_sticks := a, num_short_sticks := num_short_sticks s + 1\<rparr>))
        else if 1 < p then
          plfit_check (array_set (long_sticks s) (num_long_sticks s) i) (\<lambda>a.
            Inr (s\<lparr>long_sticks := a, num_long_sticks := num_long_sticks s + 1\<rparr>))
        else Inr s)"

text \<open>One iteration of the main loop, when both kinds of sticks are left.\<close>

definition pair_sticks :: "sticks \<Rightarrow> sticks result" where
  "pair_sticks s =
     (let ns = num_short_sticks s - 1 in
      plfit_check (array_get (short_sticks s) ns) (\<lambda>short_index.
      plfit_check (array_get (long_sticks s) (num_long_sticks s - 1)) (\<lambda>long_index.
      plfit_check (array_set (s_indexes s) short_index (int long_index)) (\<lambda>idx.
      plfit_check (array_get (s_probs s) long_index) (\<lambda>pl.
      plfit_check (array_get (s_probs s) short_index) (\<lambda>ps.
      let p = pl + ps - 1 in
      plfit_check (array_set (s_probs s) long_index p) (\<lambda>prs.
      let s' = s\<lparr>s_indexes := idx, s_probs := prs, num_short_sticks := ns\<rparr> in
      if p < 1 then
        plfit_check (array_set (short_sticks s) ns long_index) (\<lambda>a.
          Inr (s'\<lparr>short_sticks := a, num_short_sticks := ns + 1,
                 num_long_sticks := num_long_sticks s - 1\<rparr>))
      else Inr s')))))))"

lemma pair_sticks_decreases:
  "pair_sticks s = Inr s' \<Longrightarrow> num_short_sticks s \<noteq> 0 \<Longrightarrow> num_long_sticks s \<noteq> 0 \<Longrightarrow>
     num_short_sticks s' + num_long_sticks s' < num_short_sticks s + num_long_sticks s"
  by (auto simp: pair_sticks_def Let_def plfit_check_eq_Inr split: if_splits)

function pair_loop :: "sticks \<Rightarrow> sticks result" where
  "pair_loop s =
     (if num_short_sticks s \<noteq> 0 \<and> num_long_sticks s \<noteq> 0
      then plfit_check (pair_sticks s) pair_loop else Inr s)"
  by pat_completeness auto
termination
  by (relation "measure (\<lambda>s. num_short_sticks s + num_long_sticks s)")
    (auto dest: pair_sticks_decreases)

declare pair_loop.simps [simp del]

text \<open>The two clean-up loops set what is left on a stack to one.\<close>

fun fix_probs :: "nat list \<Rightarrow> nat \<Rightarrow> double list \<Rightarrow> double list result" where
  "fix_probs stack 0 prs = Inr prs"
| "fix_probs stack (Suc n) prs =
     plfit_check (array_get stack n) (\<lambda>i.
     plfit_check (array_set prs i 1) (\<lambda>prs'. fix_probs stack n prs'))"

definition initial_sticks :: "double list \<Rightarrow> sticks" where
  "initial_sticks prs =
     \<lparr>s_indexes = replicate (max 1 (length prs)) 0, s_probs = (if prs = [] then [0] else prs),
      short_sticks = replicate (max 1 (length (filter (\<lambda>p. p < 1) prs))) 0, num_short_sticks = 0,
      long_sticks = replicate (max 1 (length (filter (\<lambda>p. \<not> p < 1 \<and> 1 < p) prs))) 0,
      num_long_sticks = 0\<rparr>"

definition prepare_table :: "double list \<Rightarrow> (int list \<times> double list) result" where
  \<comment> \<open>from the normalised weights to the finished table\<close>
  "prepare_table prs =
     plfit_check (loop_res classify_stick (enumerate 0 prs) (initial_sticks prs)) (\<lambda>s1.
     plfit_check (pair_loop s1) (\<lambda>s2.
     plfit_check (fix_probs (long_sticks s2) (num_long_sticks s2) (s_probs s2)) (\<lambda>prs1.
     plfit_check (fix_probs (short_sticks s2) (num_short_sticks s2) prs1) (\<lambda>prs2.
     Inr (s_indexes s2, prs2)))))"

definition walker_alias_sampler_init :: "clib \<Rightarrow> double list \<Rightarrow> walker_alias_sampler result" where
  "walker_alias_sampler_init L ps =
     (let n = length ps; prs = normalize_weights ps;
          num_short = length (filter (\<lambda>p. p < 1) prs);
          num_long = length (filter (\<lambda>p. \<not> p < 1 \<and> 1 < p) prs) in
      if LONG_MAX < n then plfit_fail PLFIT_EINVAL
      else with_alloc L (max 1 n * sizeof_long) (plfit_fail PLFIT_ENOMEM)
          (with_alloc L (max 1 n * sizeof_double) (plfit_fail PLFIT_ENOMEM)
          (with_alloc L (max 1 num_long * sizeof_long) (plfit_fail PLFIT_ENOMEM)
          (with_alloc L (max 1 num_short * sizeof_long) (plfit_fail PLFIT_ENOMEM)
          (plfit_check (prepare_table prs) (\<lambda>(idx, prs').
             Inr \<lparr>num_bins = int n, indexes = idx, probs = prs'\<rparr>))))))"

text \<open>
  Drawing: \<open>rand\<close> or the twister picks a column, a uniform number decides between the column and
  its alias. A table without columns makes the remainder undefined.
\<close>

definition walker_choose :: "walker_alias_sampler \<Rightarrow> double \<Rightarrow> int \<Rightarrow> int result" where
  "walker_choose sampler u r =
     (if num_bins sampler = 0 then Inl Undefined
      else let j = r mod num_bins sampler in
        plfit_check (array_get (probs sampler) (nat j)) (\<lambda>p.
        if u < p then Inr j else array_get (indexes sampler) (nat j)))"

definition walker_draw :: "clib \<Rightarrow> walker_alias_sampler \<Rightarrow> rng \<Rightarrow> int drawn" where
  "walker_draw L sampler g =
     (case g of
        Builtin st \<Rightarrow>
          (let (r0, st1) = c_rand L st;
               u = double_of_nat r0 / double_of_nat (c_RAND_MAX L);
               (r, st2) = c_rand L st1
           in plfit_check (walker_choose sampler u (int r)) (\<lambda>x. Inr (x, Builtin st2)))
      | Twister m \<Rightarrow>
          plfit_check (plfit_mt_uniform_01 m) (\<lambda>(u, m1).
          plfit_check (plfit_mt_random m1) (\<lambda>(r, m2).
          plfit_check (walker_choose sampler u (uint r)) (\<lambda>x. Inr (x, Twister m2)))))"

fun walker_alias_sampler_sample ::
  "clib \<Rightarrow> walker_alias_sampler \<Rightarrow> nat \<Rightarrow> rng \<Rightarrow> int list drawn" where
  "walker_alias_sampler_sample L sampler 0 g = Inr ([], g)"
| "walker_alias_sampler_sample L sampler (Suc n) g =
     plfit_check (walker_draw L sampler g) (\<lambda>(x, g1).
     plfit_check (walker_alias_sampler_sample L sampler n g1) (\<lambda>(xs, g2). Inr (x # xs, g2)))"

subsection \<open>The construction never leaves its arrays\<close>

definition shorts :: "sticks \<Rightarrow> nat list" where
  "shorts s = take (num_short_sticks s) (short_sticks s)"

definition longs :: "sticks \<Rightarrow> nat list" where
  "longs s = take (num_long_sticks s) (long_sticks s)"

text \<open>
  The invariant speaks of the stacks as lists: the short sticks \<open>S\<close> and the long sticks \<open>B\<close>
  are different columns, a column on the short stack holds less than one, and a column that is
  on neither stack is finished and does not hold more than one.
\<close>

definition table_ok :: "nat \<Rightarrow> int list \<Rightarrow> double list \<Rightarrow> nat list \<Rightarrow> nat list \<Rightarrow> bool" where
  "table_ok n idx prs S B \<longleftrightarrow>
     length idx = max 1 n \<and> length prs = max 1 n \<and>
     (\<forall>x \<in> set idx. 0 \<le> x \<and> x < int (max 1 n)) \<and>
     distinct (S @ B) \<and> set (S @ B) \<subseteq> {..<n} \<and>
     (\<forall>i \<in> set S. prs ! i < 1) \<and>
     (\<forall>i < n. i \<notin> set (S @ B) \<longrightarrow> \<not> 1 < prs ! i)"

definition sticks_ok :: "nat \<Rightarrow> sticks \<Rightarrow> bool" where
  "sticks_ok n s \<longleftrightarrow>
     num_short_sticks s \<le> length (short_sticks s) \<and> num_long_sticks s \<le> length (long_sticks s) \<and>
     table_ok n (s_indexes s) (s_probs s) (shorts s) (longs s)"

lemma take_pop:
  assumes "0 < k" "k \<le> length xs"
  shows "take k xs = take (k - 1) xs @ [xs ! (k - 1)]"
  using assms take_Suc_conv_app_nth [of "k - 1" xs] by simp

lemma table_ok_lengths: "table_ok n idx prs S B \<Longrightarrow> length idx = max 1 n \<and> length prs = max 1 n"
  by (simp add: table_ok_def)

lemma table_ok_member: "table_ok n idx prs S B \<Longrightarrow> i \<in> set S \<or> i \<in> set B \<Longrightarrow> i < n"
  by (auto simp: table_ok_def)

lemma table_ok_pair:
  assumes ok: "table_ok n idx prs (A @ [a]) (C @ [b])"
  shows "p < 1 \<Longrightarrow> table_ok n (idx[a := int b]) (prs[b := p]) (A @ [b]) C"
    and "\<not> p < 1 \<Longrightarrow> table_ok n (idx[a := int b]) (prs[b := p]) A (C @ [b])"
proof -
  have l: "length idx = max 1 n" "length prs = max 1 n" using ok by (auto simp: table_ok_def)
  have d: "distinct (A @ C)" "a \<notin> set A" "a \<notin> set C" "b \<notin> set A" "b \<notin> set C" "a \<noteq> b"
    "a < n" "b < n" "set A \<subseteq> {..<n}" "set C \<subseteq> {..<n}"
    using ok by (auto simp: table_ok_def)
  have idx: "\<forall>x \<in> set (idx[a := int b]). 0 \<le> x \<and> x < int (max 1 n)"
  proof
    fix x assume "x \<in> set (idx[a := int b])"
    then have "x = int b \<or> x \<in> set idx" using set_update_subset_insert by fastforce
    then show "0 \<le> x \<and> x < int (max 1 n)" using ok d(8) by (auto simp: table_ok_def)
  qed
  have S: "\<forall>i \<in> set A. prs[b := p] ! i < 1"
  proof
    fix i assume "i \<in> set A"
    then have "i \<noteq> b" "prs ! i < 1" using ok d by (auto simp: table_ok_def)
    then show "prs[b := p] ! i < 1" by simp
  qed
  have "prs ! a < 1" using ok by (simp add: table_ok_def)
  then have a1: "\<not> 1 < prs ! a" using dless_trans [of 1 "prs ! a" 1] by auto
  have other: "\<not> 1 < prs[b := p] ! i" if "i < n" "i \<notin> set A" "i \<noteq> b" "i \<notin> set C" for i
    using that ok a1 by (cases "i = a") (auto simp: table_ok_def)
  have b: "prs[b := p] ! b = p" using l d(8) by simp
  show "p < 1 \<Longrightarrow> table_ok n (idx[a := int b]) (prs[b := p]) (A @ [b]) C"
    unfolding table_ok_def using l d idx S other b
    by (intro conjI) (simp_all, blast?)
  show "\<not> p < 1 \<Longrightarrow> table_ok n (idx[a := int b]) (prs[b := p]) A (C @ [b])"
    unfolding table_ok_def using l d idx S other b
    by (intro conjI) (simp_all, blast?)
qed

text \<open>What one pairing does: it pops both stacks and pushes the long stick back on one of them.\<close>

definition paired :: "sticks \<Rightarrow> sticks \<Rightarrow> nat list \<Rightarrow> nat \<Rightarrow> nat list \<Rightarrow> nat \<Rightarrow> bool" where
  "paired s s' A a C b \<longleftrightarrow>
     shorts s = A @ [a] \<and> longs s = C @ [b] \<and>
     s_indexes s' = (s_indexes s)[a := int b] \<and>
     s_probs s' = (s_probs s)[b := s_probs s ! b + s_probs s ! a - 1] \<and>
     num_short_sticks s' \<le> length (short_sticks s') \<and> num_long_sticks s' \<le> length (long_sticks s') \<and>
     (if s_probs s ! b + s_probs s ! a - 1 < 1 then shorts s' = A @ [b] \<and> longs s' = C
      else shorts s' = A \<and> longs s' = C @ [b])"

lemma pair_sticks_step:
  assumes ok: "sticks_ok n s" and ns: "num_short_sticks s \<noteq> 0" and nl: "num_long_sticks s \<noteq> 0"
  shows "\<exists>s' A a C b. pair_sticks s = Inr s' \<and> paired s s' A a C b"
proof -
  let ?ns = "num_short_sticks s - 1" and ?nl = "num_long_sticks s - 1"
  let ?A = "take ?ns (short_sticks s)" and ?C = "take ?nl (long_sticks s)"
  define a b where "a = short_sticks s ! ?ns" and "b = long_sticks s ! ?nl"
  have cap: "num_short_sticks s \<le> length (short_sticks s)" "num_long_sticks s \<le> length (long_sticks s)"
    using ok by (auto simp: sticks_ok_def)
  have sh: "shorts s = ?A @ [a]" and lo: "longs s = ?C @ [b]"
    unfolding shorts_def longs_def a_def b_def using ns nl cap by (intro take_pop; simp)+
  have t: "table_ok n (s_indexes s) (s_probs s) (?A @ [a]) (?C @ [b])"
    using ok by (simp add: sticks_ok_def sh lo)
  have len: "length (s_indexes s) = max 1 n" "length (s_probs s) = max 1 n"
    using table_ok_lengths [OF t] by auto
  have "a < n" "b < n" using table_ok_member [OF t] by auto
  then have lt: "a < max 1 n" "b < max 1 n" by auto
  define p where "p = s_probs s ! b + s_probs s ! a - 1"
  define s' where "s' = s\<lparr>s_indexes := (s_indexes s)[a := int b], s_probs := (s_probs s)[b := p],
    num_short_sticks := ?ns\<rparr>"
  have eq: "pair_sticks s = (if p < 1 then Inr (s'\<lparr>short_sticks := (short_sticks s)[?ns := b],
      num_short_sticks := ?ns + 1, num_long_sticks := ?nl\<rparr>) else Inr s')"
    using cap ns nl lt len
    by (simp add: pair_sticks_def Let_def p_def s'_def a_def b_def)
  have tk: "take (Suc ?ns) ((short_sticks s)[?ns := b]) = ?A @ [b]"
    using cap ns by (subst take_Suc_conv_app_nth) simp_all
  show ?thesis
  proof (cases "p < 1")
    case True
    have "paired s (s'\<lparr>short_sticks := (short_sticks s)[?ns := b], num_short_sticks := ?ns + 1,
        num_long_sticks := ?nl\<rparr>) ?A a ?C b"
      using True cap ns sh lo tk by (simp add: paired_def s'_def p_def shorts_def longs_def)
    with True eq show ?thesis by fastforce
  next
    case False
    have "paired s s' ?A a ?C b"
      using False cap sh lo by (simp add: paired_def s'_def p_def shorts_def longs_def)
    with False eq show ?thesis by fastforce
  qed
qed

lemma paired_ok: "sticks_ok n s \<Longrightarrow> paired s s' A a C b \<Longrightarrow> sticks_ok n s'"
  using table_ok_pair [of n "s_indexes s" "s_probs s" A a C b]
  by (auto simp: sticks_ok_def paired_def split: if_splits)

lemma pair_loop_invariant:
  assumes "sticks_ok n s" "Q s"
    and step: "\<And>s s' A a C b. sticks_ok n s \<Longrightarrow> Q s \<Longrightarrow> paired s s' A a C b \<Longrightarrow> Q s'"
  shows "\<exists>s'. pair_loop s = Inr s' \<and> sticks_ok n s' \<and> Q s' \<and> (num_short_sticks s' = 0 \<or> num_long_sticks s' = 0)"
  using assms(1,2)
proof (induction s rule: pair_loop.induct)
  case (1 s)
  show ?case
  proof (cases "num_short_sticks s \<noteq> 0 \<and> num_long_sticks s \<noteq> 0")
    case True
    then obtain s1 A a C b where p: "pair_sticks s = Inr s1" "paired s s1 A a C b"
      using pair_sticks_step [OF "1.prems"(1)] by blast
    have "\<exists>s'. pair_loop s1 = Inr s' \<and> sticks_ok n s' \<and> Q s' \<and> (num_short_sticks s' = 0 \<or> num_long_sticks s' = 0)"
      using True p(1) paired_ok [OF "1.prems"(1) p(2)] step [OF "1.prems" p(2)] by (intro "1.IH") auto
    with True p(1) show ?thesis by (simp add: pair_loop.simps [of s])
  next
    case False
    with "1.prems" show ?thesis by (auto simp: pair_loop.simps [of s])
  qed
qed

text \<open>After \<open>i\<close> iterations of the classification both stacks list the columns seen so far.\<close>

definition short_columns :: "double list \<Rightarrow> nat \<Rightarrow> nat list" where
  "short_columns prs i = filter (\<lambda>k. prs ! k < 1) [0..<i]"

definition long_columns :: "double list \<Rightarrow> nat \<Rightarrow> nat list" where
  "long_columns prs i = filter (\<lambda>k. \<not> prs ! k < 1 \<and> 1 < prs ! k) [0..<i]"

lemma length_filter_upt:
  "length (filter (\<lambda>k. P (xs ! k)) [0..<i]) \<le> length (filter P xs)" if "i \<le> length xs"
proof -
  have "length (filter (\<lambda>k. P (xs ! k)) [0..<i]) = length (filter P (map ((!) xs) [0..<i]))"
    by (simp add: filter_map comp_def)
  also have "map ((!) xs) [0..<i] = take i xs" using that by (intro nth_equalityI) auto
  also have "length (filter P (take i xs)) \<le> length (filter P xs)"
    using filter_append [of P "take i xs" "drop i xs"] by simp
  finally show ?thesis .
qed

definition classified :: "double list \<Rightarrow> nat \<Rightarrow> sticks \<Rightarrow> bool" where
  "classified prs i s \<longleftrightarrow>
     s_indexes s = replicate (max 1 (length prs)) 0 \<and> s_probs s = (if prs = [] then [0] else prs) \<and>
     length (short_sticks s) = max 1 (length (filter (\<lambda>p. p < 1) prs)) \<and>
     length (long_sticks s) = max 1 (length (filter (\<lambda>p. \<not> p < 1 \<and> 1 < p) prs)) \<and>
     num_short_sticks s = length (short_columns prs i) \<and> num_long_sticks s = length (long_columns prs i) \<and>
     shorts s = short_columns prs i \<and> longs s = long_columns prs i"

lemma classified_capacity:
  assumes "classified prs i s" "i \<le> length prs"
  shows "num_short_sticks s \<le> length (short_sticks s)" "num_long_sticks s \<le> length (long_sticks s)"
  using assms length_filter_upt [of i prs "\<lambda>p. p < 1"] length_filter_upt [of i prs "\<lambda>p. \<not> p < 1 \<and> 1 < p"]
  by (auto simp: classified_def short_columns_def long_columns_def)

lemma classify_step:
  assumes c: "classified prs i s" and i: "i < length prs"
  shows "\<exists>s'. classify_stick (i, prs ! i) s = Inr s' \<and> classified prs (Suc i) s'"
proof -
  have e: "short_columns prs (Suc i) = short_columns prs i @ (if prs ! i < 1 then [i] else [])"
    "long_columns prs (Suc i) = long_columns prs i @ (if \<not> prs ! i < 1 \<and> 1 < prs ! i then [i] else [])"
    by (simp_all add: short_columns_def long_columns_def)
  have b: "length (short_columns prs (Suc i)) \<le> length (short_sticks s)"
    "length (long_columns prs (Suc i)) \<le> length (long_sticks s)"
    using c i length_filter_upt [of "Suc i" prs "\<lambda>p. p < 1"]
      length_filter_upt [of "Suc i" prs "\<lambda>p. \<not> p < 1 \<and> 1 < p"]
    by (auto simp: classified_def short_columns_def long_columns_def simp del: upt_Suc)
  show ?thesis
  proof (cases "prs ! i < 1")
    case True
    with b(1) e c have "num_short_sticks s < length (short_sticks s)" by (simp add: classified_def)
    with True e c show ?thesis by (auto simp: classify_stick_def classified_def shorts_def longs_def take_push)
  next
    case F: False
    show ?thesis
    proof (cases "1 < prs ! i")
      case True
      with F b(2) e c have "num_long_sticks s < length (long_sticks s)" by (simp add: classified_def)
      with F True e c show ?thesis by (auto simp: classify_stick_def classified_def shorts_def longs_def take_push)
    next
      case False
      with F e c show ?thesis by (auto simp: classify_stick_def classified_def shorts_def longs_def)
    qed
  qed
qed

lemma classified_ok:
  assumes "classified prs (length prs) s"
  shows "sticks_ok (length prs) s"
proof -
  note cap = classified_capacity [OF assms order_refl]
  have "distinct (short_columns prs n @ long_columns prs n)" for n
    by (auto simp: short_columns_def long_columns_def)
  moreover have "\<not> 1 < prs ! i" if "i < length prs" "i \<notin> set (short_columns prs (length prs) @ long_columns prs (length prs))" for i
    using that by (auto simp: short_columns_def long_columns_def)
  moreover have "length (if prs = [] then [0] else prs) = max 1 (length prs)" by (cases prs) auto
  ultimately show ?thesis
    using assms cap by (auto simp: sticks_ok_def table_ok_def classified_def short_columns_def long_columns_def)
qed

lemma classification:
  "\<exists>s. loop_res classify_stick (enumerate 0 prs) (initial_sticks prs) = Inr s \<and> classified prs (length prs) s"
proof -
  have "classified prs 0 (initial_sticks prs)"
    by (simp add: classified_def initial_sticks_def short_columns_def long_columns_def shorts_def longs_def)
  from loop_res_invariant [of "classified prs", OF this, of "enumerate 0 prs" classify_stick]
  show ?thesis by (simp add: nth_enumerate_eq classify_step)
qed

text \<open>The clean-up writes ones into the columns of its stack and changes no other column.\<close>

lemma fix_probs_ok:
  assumes "k \<le> length stack" "set (take k stack) \<subseteq> {..<length prs}"
  shows "\<exists>prs'. fix_probs stack k prs = Inr prs' \<and> length prs' = length prs \<and>
    (\<forall>i < length prs. prs' ! i = (if i \<in> set (take k stack) then 1 else prs ! i))"
  using assms
proof (induction k arbitrary: prs)
  case 0
  then show ?case by simp
next
  case (Suc k)
  from Suc.prems have k: "k < length stack" and e: "take (Suc k) stack = take k stack @ [stack ! k]"
    by (auto simp: take_Suc_conv_app_nth)
  from Suc.prems e have i: "stack ! k < length prs" by auto
  have "\<exists>prs'. fix_probs stack k (prs[stack ! k := 1]) = Inr prs' \<and> length prs' = length (prs[stack ! k := 1]) \<and>
    (\<forall>i < length (prs[stack ! k := 1]). prs' ! i =
       (if i \<in> set (take k stack) then 1 else prs[stack ! k := 1] ! i))"
    using Suc.prems e by (intro Suc.IH) auto
  then obtain prs' where p: "fix_probs stack k (prs[stack ! k := 1]) = Inr prs'" "length prs' = length prs"
    "\<forall>i < length prs. prs' ! i = (if i \<in> set (take k stack) then 1 else prs[stack ! k := 1] ! i)"
    by auto
  then have "\<forall>i < length prs. prs' ! i = (if i \<in> set (take (Suc k) stack) then 1 else prs ! i)"
    unfolding e by (auto simp: nth_list_update)
  with p k i show ?case by auto
qed

text \<open>The whole construction, with an arbitrary property kept by each pairing.\<close>

lemma prepare_table_rule:
  assumes start: "\<And>s. classified prs (length prs) s \<Longrightarrow> Q s"
    and step: "\<And>s s' A a C b. sticks_ok (length prs) s \<Longrightarrow> Q s \<Longrightarrow> paired s s' A a C b \<Longrightarrow> Q s'"
  obtains s idx prs' where "prepare_table prs = Inr (idx, prs')"
    "sticks_ok (length prs) s" "Q s" "num_short_sticks s = 0 \<or> num_long_sticks s = 0"
    "idx = s_indexes s" "length prs' = max 1 (length prs)"
    "\<forall>i < length prs. prs' ! i = (if i \<in> set (shorts s @ longs s) then 1 else s_probs s ! i)"
proof -
  let ?n = "length prs"
  obtain s1 where s1: "loop_res classify_stick (enumerate 0 prs) (initial_sticks prs) = Inr s1" "classified prs ?n s1"
    using classification by blast
  have "\<exists>s. pair_loop s1 = Inr s \<and> sticks_ok ?n s \<and> Q s \<and> (num_short_sticks s = 0 \<or> num_long_sticks s = 0)"
    by (rule pair_loop_invariant) (fact classified_ok [OF s1(2)] start [OF s1(2)] | erule (2) step)+
  then obtain s where s: "pair_loop s1 = Inr s" "sticks_ok ?n s" "Q s" "num_short_sticks s = 0 \<or> num_long_sticks s = 0"
    by blast
  have len: "length (s_probs s) = max 1 ?n" and cap: "num_short_sticks s \<le> length (short_sticks s)"
    "num_long_sticks s \<le> length (long_sticks s)" and sub: "set (shorts s) \<subseteq> {..<max 1 ?n}" "set (longs s) \<subseteq> {..<max 1 ?n}"
    using s(2) by (auto simp: sticks_ok_def table_ok_def)
  obtain p1 where p1: "fix_probs (long_sticks s) (num_long_sticks s) (s_probs s) = Inr p1" "length p1 = max 1 ?n"
    "\<forall>i < max 1 ?n. p1 ! i = (if i \<in> set (longs s) then 1 else s_probs s ! i)"
    using fix_probs_ok [OF cap(2), of "s_probs s"] sub len by (auto simp: longs_def)
  obtain p2 where p2: "fix_probs (short_sticks s) (num_short_sticks s) p1 = Inr p2" "length p2 = max 1 ?n"
    "\<forall>i < max 1 ?n. p2 ! i = (if i \<in> set (shorts s) then 1 else p1 ! i)"
    using fix_probs_ok [OF cap(1), of p1] sub p1(2) by (auto simp: shorts_def)
  have "prepare_table prs = Inr (s_indexes s, p2)" using s1 s p1 p2 by (simp add: prepare_table_def)
  moreover have "\<forall>i < ?n. p2 ! i = (if i \<in> set (shorts s @ longs s) then 1 else s_probs s ! i)"
    using p1(3) p2(3) by (auto simp: less_max_iff_disj)
  ultimately show ?thesis using s p2(2) by (intro that [OF _ _ _ _ refl])
qed

lemma prepare_table_safe:
  obtains idx prs' where "prepare_table prs = Inr (idx, prs')"
    "length idx = max 1 (length prs)" "length prs' = max 1 (length prs)"
    "\<forall>x \<in> set idx. 0 \<le> x \<and> x < int (max 1 (length prs))" "\<forall>i < length prs. \<not> 1 < prs' ! i"
proof -
  obtain s idx prs' where p: "prepare_table prs = Inr (idx, prs')" "sticks_ok (length prs) s"
    "idx = s_indexes s" "length prs' = max 1 (length prs)"
    "\<forall>i < length prs. prs' ! i = (if i \<in> set (shorts s @ longs s) then 1 else s_probs s ! i)"
    by (rule prepare_table_rule [where Q = "\<lambda>_. True"]) auto
  have t: "table_ok (length prs) (s_indexes s) (s_probs s) (shorts s) (longs s)"
    using p(2) by (simp add: sticks_ok_def)
  have "\<not> 1 < prs' ! i" if "i < length prs" for i
    using that p(5) t by (auto simp: table_ok_def)
  with p t show ?thesis by (intro that [of idx prs']) (auto simp: table_ok_def)
qed

text \<open>
  The tables that the sampler works on: as many columns as bins (one unused column when there is
  none), every alias a column, no probability above one.
\<close>

definition sampler_ok :: "walker_alias_sampler \<Rightarrow> bool" where
  "sampler_ok w \<longleftrightarrow> 0 \<le> num_bins w \<and>
     length (indexes w) = max 1 (nat (num_bins w)) \<and> length (probs w) = max 1 (nat (num_bins w)) \<and>
     (\<forall>x \<in> set (indexes w). 0 \<le> x \<and> x < int (max 1 (nat (num_bins w)))) \<and>
     (\<forall>i < nat (num_bins w). \<not> 1 < probs w ! i)"

definition walker_allocations :: "double list \<Rightarrow> nat set" where
  \<comment> \<open>the sizes that the initialisation asks for\<close>
  "walker_allocations ps =
     {max 1 (length ps) * sizeof_long, max 1 (length ps) * sizeof_double,
      max 1 (length (filter (\<lambda>p. \<not> p < 1 \<and> 1 < p) (normalize_weights ps))) * sizeof_long,
      max 1 (length (filter (\<lambda>p. p < 1) (normalize_weights ps))) * sizeof_long}"

lemma length_normalize_weights [simp]: "length (normalize_weights ps) = length ps"
  by (simp add: normalize_weights_def Let_def)

lemma walker_init_cases:
  "walker_alias_sampler_init L ps =
     (if LONG_MAX < length ps then plfit_fail PLFIT_EINVAL
      else if \<exists>b \<in> walker_allocations ps. \<not> c_alloc L b then plfit_fail PLFIT_ENOMEM
      else plfit_check (prepare_table (normalize_weights ps)) (\<lambda>(idx, prs').
        Inr \<lparr>num_bins = int (length ps), indexes = idx, probs = prs'\<rparr>))"
  by (auto simp: walker_alias_sampler_init_def walker_allocations_def with_alloc_def Let_def)

text \<open>
  C7. Initialising Walker's sampler never reads or writes outside its work arrays, whatever the
  weights are (negative, infinite and NaN ones included), and its loop ends: it fails exactly
  when there are more weights than a \<open>long\<close> can count (\<open>PLFIT_EINVAL\<close>) or, when there are not,
  one of its four allocations is refused (\<open>PLFIT_ENOMEM\<close>); in every other case it returns a table
  in which every alias is a valid column and no probability exceeds one.
\<close>

theorem walker_alias_sampler_init_cases:
  "if LONG_MAX < length ps then walker_alias_sampler_init L ps = plfit_fail PLFIT_EINVAL
   else if \<exists>b \<in> walker_allocations ps. \<not> c_alloc L b
   then walker_alias_sampler_init L ps = plfit_fail PLFIT_ENOMEM
   else \<exists>w. walker_alias_sampler_init L ps = Inr w \<and> num_bins w = int (length ps) \<and> sampler_ok w"
proof -
  obtain idx prs' where "prepare_table (normalize_weights ps) = Inr (idx, prs')"
    "length idx = max 1 (length ps)" "length prs' = max 1 (length ps)"
    "\<forall>x \<in> set idx. 0 \<le> x \<and> x < int (max 1 (length ps))" "\<forall>i < length ps. \<not> 1 < prs' ! i"
    using prepare_table_safe [of "normalize_weights ps"] by auto
  then show ?thesis by (auto simp: walker_init_cases sampler_ok_def)
qed

lemma walker_init_ok:
  assumes "walker_alias_sampler_init L ps = Inr w"
  shows "sampler_ok w \<and> num_bins w = int (length ps)"
proof -
  obtain idx prs' where "prepare_table (normalize_weights ps) = Inr (idx, prs')"
    "length idx = max 1 (length ps)" "length prs' = max 1 (length ps)"
    "\<forall>x \<in> set idx. 0 \<le> x \<and> x < int (max 1 (length ps))" "\<forall>i < length ps. \<not> 1 < prs' ! i"
    using prepare_table_safe [of "normalize_weights ps"] by auto
  with assms show ?thesis by (auto simp: walker_init_cases sampler_ok_def split: if_splits)
qed

subsection \<open>Drawing\<close>

lemma walker_choose_ok:
  assumes "sampler_ok w" "0 < num_bins w"
  shows "\<exists>x. walker_choose w u r = Inr x \<and> 0 \<le> x \<and> x < num_bins w"
proof -
  let ?j = "r mod num_bins w"
  have j: "0 \<le> ?j" "?j < num_bins w" using assms(2) by auto
  then have "nat ?j < nat (num_bins w)" by linarith
  then have "nat ?j < length (probs w)" "nat ?j < length (indexes w)"
    using assms by (auto simp: sampler_ok_def)
  moreover from this have "0 \<le> indexes w ! nat ?j \<and> indexes w ! nat ?j < num_bins w"
    using assms nth_mem [of "nat ?j" "indexes w"] by (auto simp: sampler_ok_def)
  ultimately show ?thesis using assms(2) j by (auto simp: walker_choose_def Let_def)
qed

lemma walker_draw_ok:
  assumes "sampler_ok w" "0 < num_bins w" "rng_ok L g"
  shows "\<exists>x g'. walker_draw L w g = Inr (x, g') \<and> rng_ok L g' \<and> 0 \<le> x \<and> x < num_bins w"
proof (cases g)
  case (Builtin st)
  obtain r0 st1 where a: "c_rand L st = (r0, st1)" by (cases "c_rand L st")
  obtain r st2 where b: "c_rand L st1 = (r, st2)" by (cases "c_rand L st1")
  from walker_choose_ok [OF assms(1,2), of "double_of_nat r0 / double_of_nat (c_RAND_MAX L)" "int r"]
  show ?thesis using assms(3) by (auto simp: walker_draw_def Builtin a b rng_ok_def)
next
  case (Twister m)
  then have "mt_ok m" using assms(3) by (simp add: rng_ok_def)
  then obtain u m1 where u: "plfit_mt_uniform_01 m = Inr (u, m1)" "mt_ok m1"
    using plfit_mt_uniform_01_total [of m] by blast
  obtain r m2 where r: "plfit_mt_random m1 = Inr (r, m2)" "mt_ok m2"
    using u(2) by (rule plfit_mt_random_total)
  from walker_choose_ok [OF assms(1,2), of u "uint r"]
  show ?thesis using u r by (auto simp: walker_draw_def Twister rng_ok_def)
qed

lemma walker_sample_ok:
  assumes "sampler_ok w" "0 < num_bins w" "rng_ok L g"
  shows "\<exists>xs g'. walker_alias_sampler_sample L w n g = Inr (xs, g') \<and> length xs = n \<and> rng_ok L g' \<and>
    (\<forall>x \<in> set xs. 0 \<le> x \<and> x < num_bins w)"
  using assms(3)
proof (induction n arbitrary: g)
  case 0
  then show ?case by simp
next
  case (Suc n)
  obtain x g1 where x: "walker_draw L w g = Inr (x, g1)" "rng_ok L g1" "0 \<le> x \<and> x < num_bins w"
    using walker_draw_ok [OF assms(1,2) Suc.prems] by auto
  from Suc.IH [OF x(2)] x show ?case by auto
qed

text \<open>
  A sampler built from at least one weight draws as many numbers as it is asked for, with
  either generator, and every number is the index of a weight: no table access leaves the table.
\<close>

theorem walker_sample_in_range:
  assumes "walker_alias_sampler_init L ps = Inr w" "ps \<noteq> []" "rng_ok L g"
  shows "\<exists>xs g'. walker_alias_sampler_sample L w n g = Inr (xs, g') \<and> length xs = n \<and> rng_ok L g' \<and>
    (\<forall>x \<in> set xs. 0 \<le> x \<and> x < int (length ps))"
  using walker_sample_ok [of w L g n] walker_init_ok [OF assms(1)] assms(2,3) by auto

subsection \<open>The table represents the weights\<close>

text \<open>
  A table gives outcome \<open>i\<close> the probability \<open>column_mass idx prs i / n\<close>: column \<open>i\<close> keeps
  \<open>i\<close> with its own probability, and every column whose alias is \<open>i\<close> adds the rest of its
  column.
\<close>

definition column_mass :: "int list \<Rightarrow> double list \<Rightarrow> nat \<Rightarrow> nat \<Rightarrow> rat" where
  "column_mass idx prs n i =
     val (prs ! i) + (\<Sum>j<n. if idx ! j = int i then 1 - val (prs ! j) else 0)"

definition grid :: "nat \<Rightarrow> rat \<Rightarrow> bool" where
  "grid k q \<longleftrightarrow> (\<exists>j. q = of_int j / 2 ^ k)"

definition exact_weights :: "nat \<Rightarrow> double list \<Rightarrow> bool" where
  \<comment> \<open>nonnegative multiples of \<open>2 ^ - k\<close> with average one, so that every sum is exact\<close>
  "exact_weights k prs \<longleftrightarrow> k \<le> 1074 \<and> rat_of_nat (length prs) \<le> 2 ^ 53 / 2 ^ k \<and>
     (\<forall>p \<in> set prs. 0 \<le> p \<and> isfinite p \<and> grid k (val p)) \<and>
     sum_list (map val prs) = rat_of_nat (length prs)"

lemma grid_representable:
  assumes "grid k q" "k \<le> 1074" "\<bar>q\<bar> \<le> 2 ^ 53 / 2 ^ k"
  shows "representable q" "\<bar>q\<bar> < 2 ^ 1024"
proof -
  obtain j where j: "q = of_int j / 2 ^ k" using assms(1) by (auto simp: grid_def)
  have "\<bar>rat_of_int j\<bar> \<le> of_int (2 ^ 53)"
    using assms(3) by (simp add: j divide_le_cancel)
  then have b: "\<bar>j\<bar> \<le> 2 ^ 53" by (simp only: of_int_abs [symmetric] of_int_le_iff)
  then show "representable q" unfolding j using assms(2) by (rule representable_quotient)
  have "\<bar>q\<bar> \<le> \<bar>of_int j\<bar>" by (simp add: j divide_le_eq) (simp add: mult_le_cancel_left1)
  also have "\<dots> < 2 ^ 1024" using b by (rule small_int_lt)
  finally show "\<bar>q\<bar> < 2 ^ 1024" .
qed

lemma grid_ops: "grid k q \<Longrightarrow> grid k r \<Longrightarrow> grid k (q + r - 1)"
proof -
  assume "grid k q" "grid k r"
  then obtain i j where "q = of_int i / 2 ^ k" "r = of_int j / 2 ^ k" by (auto simp: grid_def)
  then have "q + r - 1 = of_int (i + j - 2 ^ k) / 2 ^ k" by (simp add: field_simps)
  then show ?thesis unfolding grid_def by (rule exI)
qed

lemma grid_add: "grid k q \<Longrightarrow> grid k r \<Longrightarrow> grid k (q + r)"
proof -
  assume "grid k q" "grid k r"
  then obtain i j where "q = of_int i / 2 ^ k" "r = of_int j / 2 ^ k" by (auto simp: grid_def)
  then have "q + r = of_int (i + j) / 2 ^ k" by (simp add: field_simps)
  then show ?thesis unfolding grid_def by (rule exI)
qed

lemma exact_pairing:
  assumes "isfinite x" "isfinite y" "grid k (val x)" "grid k (val y)" "0 \<le> val x" "0 \<le> val y"
    "val x + val y \<le> M" "1 \<le> M" "k \<le> 1074" "M \<le> 2 ^ 53 / 2 ^ k"
  shows "isfinite (x + y - 1)" "val (x + y - 1) = val x + val y - 1"
proof -
  have r: "representable (val x + val y)" "\<bar>val x + val y\<bar> < 2 ^ 1024"
    using assms(5-8,10) by (intro grid_representable [OF grid_add [OF assms(3,4)] assms(9)]; linarith)+
  have s: "representable (val x + val y - 1)" "\<bar>val x + val y - 1\<bar> < 2 ^ 1024"
    using assms(5-8,10) by (intro grid_representable [OF grid_ops [OF assms(3,4)] assms(9)]; linarith)+
  have "\<exists>z. x + y = z \<and> isfinite z \<and> val z = val x + val y"
    using assms(1,2) r by (auto simp: dadd_finite isfinite_to_double val_to_double rnd_exact)
  then obtain z where z: "x + y = z" "isfinite z" "val z = val x + val y" by blast
  have "isfinite (z - 1) \<and> val (z - 1) = val z - 1"
    using z s by (auto simp: dsub_finite isfinite_to_double val_to_double rnd_exact)
  with z show "isfinite (x + y - 1)" "val (x + y - 1) = val x + val y - 1" by auto
qed

text \<open>What pairing keeps: the mass of every outcome, counting only the finished columns.\<close>

definition mass_kept :: "nat \<Rightarrow> double list \<Rightarrow> sticks \<Rightarrow> bool" where
  "mass_kept k prs s \<longleftrightarrow>
     (\<forall>i < length prs. isfinite (s_probs s ! i) \<and> grid k (val (s_probs s ! i)) \<and>
        0 \<le> val (s_probs s ! i) \<and> val (s_probs s ! i) \<le> val (prs ! i)) \<and>
     (\<forall>i \<in> set (longs s). 1 \<le> val (s_probs s ! i)) \<and>
     (\<Sum>i \<in> set (shorts s @ longs s). val (s_probs s ! i) - 1) = 0 \<and>
     (\<forall>i < length prs. val (s_probs s ! i) +
        (\<Sum>j \<in> {..<length prs} - set (shorts s @ longs s).
           if s_indexes s ! j = int i then 1 - val (s_probs s ! j) else 0) = val (prs ! i))"

lemma exact_two_weights:
  assumes "exact_weights k prs" "a < length prs" "b < length prs" "a \<noteq> b"
  shows "val (prs ! a) + val (prs ! b) \<le> rat_of_nat (length prs)"
proof -
  have nn: "0 \<le> val (prs ! i)" if "i < length prs" for i
    using assms(1) nth_mem [OF that] by (auto simp: exact_weights_def dle_finite)
  have "val (prs ! a) + val (prs ! b) = (\<Sum>i \<in> {a, b}. val (prs ! i))" using assms by simp
  also have "\<dots> \<le> (\<Sum>i < length prs. val (prs ! i))" using assms nn by (intro sum_mono2) auto
  also have "\<dots> = sum_list (map val prs)" by (simp add: sum_list_sum_nth atLeast0LessThan)
  finally show ?thesis using assms(1) by (simp add: exact_weights_def)
qed

lemma mass_kept_start:
  assumes e: "exact_weights k prs" and c: "classified prs (length prs) s"
  shows "mass_kept k prs s"
proof -
  let ?n = "length prs" and ?st = "set (shorts s @ longs s)"
  have fin: "isfinite (prs ! i) \<and> grid k (val (prs ! i)) \<and> 0 \<le> val (prs ! i)" if "i < ?n" for i
    using e nth_mem [OF that] by (auto simp: exact_weights_def dle_finite)
  have p: "s_probs s ! i = prs ! i" if "i < ?n" for i using c that by (auto simp: classified_def)
  have st: "shorts s = short_columns prs ?n" "longs s = long_columns prs ?n" using c by (auto simp: classified_def)
  then have sub: "?st \<subseteq> {..<?n}" by (auto simp: short_columns_def long_columns_def)
  have one: "val (prs ! i) = 1" if "i < ?n" "i \<notin> ?st" for i
    using that fin [OF that(1)] by (auto simp: st short_columns_def long_columns_def dless_finite)
  have ge: "1 \<le> val (s_probs s ! i)" if "i \<in> set (longs s)" for i
    using that fin p by (auto simp: st long_columns_def dless_finite)
  have "(\<Sum>i \<in> ?st. val (s_probs s ! i) - 1) = (\<Sum>i \<in> ?st. val (prs ! i) - 1)"
    using sub p by (intro sum.cong) auto
  also have "\<dots> = (\<Sum>i < ?n. val (prs ! i) - 1)"
    using sub one by (intro sum.mono_neutral_left) auto
  also have "\<dots> = sum_list (map val prs) - rat_of_nat ?n"
    by (simp add: sum_list_sum_nth atLeast0LessThan sum_subtractf)
  finally have z: "(\<Sum>i \<in> ?st. val (s_probs s ! i) - 1) = 0" using e by (simp add: exact_weights_def)
  have m: "(\<Sum>j \<in> {..<?n} - ?st. if s_indexes s ! j = int i then 1 - val (s_probs s ! j) else 0) = 0" for i
    using one p by (intro sum.neutral) auto
  show ?thesis unfolding mass_kept_def using fin p ge z m by auto
qed

lemma mass_kept_step:
  assumes e: "exact_weights k prs" and ok: "sticks_ok (length prs) s" and q: "mass_kept k prs s"
    and st: "paired s s' A a C b"
  shows "mass_kept k prs s'"
proof -
  let ?n = "length prs" and ?T = "set (shorts s @ longs s)" and ?T' = "set (shorts s' @ longs s')"
  let ?P = "\<lambda>i. val (s_probs s ! i)" and ?P' = "\<lambda>i. val (s_probs s' ! i)"
  have t: "table_ok ?n (s_indexes s) (s_probs s) (A @ [a]) (C @ [b])"
    using ok st by (auto simp: sticks_ok_def paired_def)
  then have d: "a \<noteq> b" "a < ?n" "b < ?n" "a \<notin> set A" "a \<notin> set C" "b \<notin> set A" "b \<notin> set C"
    and len: "length (s_indexes s) = ?n" "length (s_probs s) = ?n"
    by (auto simp: table_ok_def)
  have T: "?T = insert a (insert b (set A \<union> set C))" "?T' = insert b (set A \<union> set C)"
    using st by (auto simp: paired_def split: if_splits)
  have T': "?T = insert a ?T'" "a \<notin> ?T'" "?T \<subseteq> {..<?n}" "b \<in> ?T'" using d T t by (auto simp: table_ok_def)
  have fa: "isfinite (s_probs s ! a)" "grid k (?P a)" "0 \<le> ?P a" "?P a \<le> val (prs ! a)"
    and fb: "isfinite (s_probs s ! b)" "grid k (?P b)" "0 \<le> ?P b" "?P b \<le> val (prs ! b)" "1 \<le> ?P b"
  proof -
    have "b \<in> set (longs s)" using st by (simp add: paired_def)
    with q d show "isfinite (s_probs s ! a)" "grid k (?P a)" "0 \<le> ?P a" "?P a \<le> val (prs ! a)"
      "isfinite (s_probs s ! b)" "grid k (?P b)" "0 \<le> ?P b" "?P b \<le> val (prs ! b)" "1 \<le> ?P b"
      unfolding mass_kept_def by blast+
  qed
  have "s_probs s ! a < 1" using t by (simp add: table_ok_def)
  then have "?P a < 1" using fa by (simp add: dless_finite)
  have "?P b + ?P a \<le> rat_of_nat ?n" using exact_two_weights [OF e d(2,3,1)] fa fb by linarith
  moreover have "1 \<le> rat_of_nat ?n" using d(2) of_nat_le_iff [where 'a = rat, of 1 ?n] by (simp add: Suc_leI)
  moreover have "k \<le> 1074" "rat_of_nat ?n \<le> 2 ^ 53 / 2 ^ k" using e unfolding exact_weights_def by blast+
  ultimately have "?P b + ?P a \<le> rat_of_nat ?n" "1 \<le> rat_of_nat ?n" "k \<le> 1074" "rat_of_nat ?n \<le> 2 ^ 53 / 2 ^ k"
    by blast+
  from exact_pairing [OF fb(1) fa(1) fb(2) fa(2) fb(3) fa(3) this]
  have v: "isfinite (s_probs s ! b + s_probs s ! a - 1)" "val (s_probs s ! b + s_probs s ! a - 1) = ?P b + ?P a - 1"
    by auto
  have pb: "s_probs s' ! b = s_probs s ! b + s_probs s ! a - 1" and po: "i \<noteq> b \<Longrightarrow> s_probs s' ! i = s_probs s ! i" for i
    using st d len by (auto simp: paired_def)
  have ia: "s_indexes s' ! a = int b" and io: "i \<noteq> a \<Longrightarrow> s_indexes s' ! i = s_indexes s ! i" for i
    using st d len by (auto simp: paired_def)
  have P': "?P' i = (if i = b then ?P b + ?P a - 1 else ?P i)" for i using pb po v by auto
  have c1: "isfinite (s_probs s' ! i) \<and> grid k (?P' i) \<and> 0 \<le> ?P' i \<and> ?P' i \<le> val (prs ! i)" if "i < ?n" for i
    using that q v fa fb \<open>?P a < 1\<close> grid_ops [OF fb(2) fa(2)]
    by (cases "i = b") (auto simp: mass_kept_def pb po)
  have c2: "1 \<le> ?P' i" if "i \<in> set (longs s')" for i
  proof (cases "i = b")
    case True
    with that st d have "\<not> s_probs s ! b + s_probs s ! a - 1 < 1" by (auto simp: paired_def split: if_splits)
    with True v show ?thesis by (simp add: P' dless_finite)
  next
    case False
    with that st have "i \<in> set (longs s)" by (auto simp: paired_def split: if_splits)
    with False q show ?thesis by (simp add: P' mass_kept_def)
  qed
  have fT: "finite ?T'" by simp
  have "(\<Sum>i \<in> ?T. ?P i - 1) = 0" using q by (simp add: mass_kept_def)
  then have "(?P a - 1) + (\<Sum>i \<in> ?T'. ?P i - 1) = 0" using T' by simp
  then have "(?P a - 1) + ((?P b - 1) + (\<Sum>i \<in> ?T' - {b}. ?P i - 1)) = 0"
    by (subst (asm) sum.remove [OF fT T'(4)])
  moreover have "(\<Sum>i \<in> ?T' - {b}. ?P' i - 1) = (\<Sum>i \<in> ?T' - {b}. ?P i - 1)" by (intro sum.cong) (auto simp: P')
  ultimately have c3: "(\<Sum>i \<in> ?T'. ?P' i - 1) = 0"
    by (subst sum.remove [OF fT T'(4)]) (simp add: P')
  have c4: "?P' i + (\<Sum>j \<in> {..<?n} - ?T'. if s_indexes s' ! j = int i then 1 - ?P' j else 0) = val (prs ! i)"
    if "i < ?n" for i
  proof -
    have U: "{..<?n} - ?T' = insert a ({..<?n} - ?T)" "a \<notin> {..<?n} - ?T" "b \<notin> {..<?n} - ?T"
      using T' d by auto
    let ?f = "\<lambda>j. if s_indexes s ! j = int i then 1 - ?P j else 0"
      and ?f' = "\<lambda>j. if s_indexes s' ! j = int i then 1 - ?P' j else 0"
    have "sum ?f' ({..<?n} - ?T) = sum ?f ({..<?n} - ?T)"
    proof (rule sum.cong [OF refl])
      fix j assume "j \<in> {..<?n} - ?T"
      then have "j \<noteq> a" "j \<noteq> b" using U(2,3) by metis+
      then show "?f' j = ?f j" by (simp add: io P')
    qed
    moreover have "?f' a = (if b = i then 1 - ?P a else 0)"
      using d(1) by (simp only: ia P' of_nat_eq_iff if_False)
    ultimately have "sum ?f' ({..<?n} - ?T') = (if b = i then 1 - ?P a else 0) + sum ?f ({..<?n} - ?T)"
      unfolding U(1) using U(2) by (subst sum.insert) (simp_all only: finite_Diff finite_lessThan not_False_eq_True)
    moreover have "?P i + (\<Sum>j \<in> {..<?n} - ?T. if s_indexes s ! j = int i then 1 - ?P j else 0) = val (prs ! i)"
      using q that unfolding mass_kept_def by blast
    ultimately show ?thesis unfolding P' by (cases "i = b") simp_all
  qed
  show ?thesis unfolding mass_kept_def using c1 c2 c3 c4 by blast
qed

lemma sum_zero_all:
  fixes f :: "nat \<Rightarrow> rat"
  assumes "finite T" "sum f T = 0" "(\<forall>i \<in> T. 0 \<le> f i) \<or> (\<forall>i \<in> T. f i \<le> 0)" "i \<in> T"
  shows "f i = 0"
  using assms(3)
proof
  assume "\<forall>i \<in> T. 0 \<le> f i"
  then show ?thesis using assms(1,2,4) sum_nonneg_eq_0_iff [of T f] by blast
next
  assume "\<forall>i \<in> T. f i \<le> 0"
  then have "\<forall>i \<in> T. 0 \<le> - f i" by simp
  moreover have "sum (\<lambda>i. - f i) T = 0" using assms(2) by (simp only: sum_negf neg_equal_0_iff_equal)
  ultimately have "\<forall>i \<in> T. - f i = 0" using assms(1) sum_nonneg_eq_0_iff [of T "\<lambda>i. - f i"] by blast
  then show ?thesis using assms(4) by simp
qed

lemma mass_kept_end:
  assumes ok: "sticks_ok (length prs) s" and q: "mass_kept k prs s"
    and fin: "num_short_sticks s = 0 \<or> num_long_sticks s = 0" and i: "i \<in> set (shorts s @ longs s)"
  shows "val (s_probs s ! i) = 1"
proof -
  let ?T = "set (shorts s @ longs s)" and ?f = "\<lambda>i. val (s_probs s ! i) - 1"
  have t: "table_ok (length prs) (s_indexes s) (s_probs s) (shorts s) (longs s)" using ok by (simp add: sticks_ok_def)
  have s: "?f j \<le> 0" if "j \<in> set (shorts s)" for j
  proof -
    have "s_probs s ! j < 1" "j < length prs"
      using t that table_ok_member [OF t, of j] unfolding table_ok_def by blast+
    moreover from this have "isfinite (s_probs s ! j)" using q by (simp add: mass_kept_def)
    ultimately show ?thesis by (simp add: dless_finite)
  qed
  have l: "0 \<le> ?f j" if "j \<in> set (longs s)" for j using q that by (simp add: mass_kept_def)
  have "set (shorts s) = {} \<or> set (longs s) = {}" using fin by (auto simp: shorts_def longs_def)
  then have "(\<forall>j \<in> ?T. 0 \<le> ?f j) \<or> (\<forall>j \<in> ?T. ?f j \<le> 0)"
    using s l by (elim disjE) (simp_all only: set_append Un_empty_left Un_empty_right, blast+)
  moreover have "sum ?f ?T = 0" using q unfolding mass_kept_def by blast
  ultimately have "?f i = 0" using i sum_zero_all [of ?T ?f i] by blast
  then show ?thesis by simp
qed

text \<open>
  C8. When the normalised weights are multiples of a power of two, so that no sum rounds, the
  finished table represents them exactly: the probability mass that the columns give to each
  outcome, in units of one column, is the normalised weight of that outcome.
\<close>

theorem walker_table_exact:
  assumes init: "walker_alias_sampler_init L ps = Inr w" and e: "exact_weights k (normalize_weights ps)"
    and i: "i < length ps"
  shows "column_mass (indexes w) (probs w) (length ps) i = val (normalize_weights ps ! i)"
proof -
  let ?prs = "normalize_weights ps" and ?n = "length ps"
  obtain s idx prs' where p: "prepare_table ?prs = Inr (idx, prs')" "sticks_ok (length ?prs) s"
    "mass_kept k ?prs s" "num_short_sticks s = 0 \<or> num_long_sticks s = 0" "idx = s_indexes s"
    "\<forall>i < length ?prs. prs' ! i = (if i \<in> set (shorts s @ longs s) then 1 else s_probs s ! i)"
    by (rule prepare_table_rule [of ?prs "mass_kept k ?prs"])
      (auto intro: mass_kept_start [OF e] mass_kept_step [OF e])
  let ?T = "set (shorts s @ longs s)" and ?f = "\<lambda>j. if idx ! j = int i then 1 - val (s_probs s ! j) else 0"
  have one: "j \<in> ?T \<Longrightarrow> val (s_probs s ! j) = 1" for j using p(2-4) by (rule mass_kept_end)
  have v: "val (prs' ! j) = val (s_probs s ! j)" if "j < ?n" for j
    using p(6) that one [of j] by (cases "j \<in> ?T") simp_all
  have "(\<Sum>j<?n. if idx ! j = int i then 1 - val (prs' ! j) else 0) = sum ?f {..<?n}"
    by (intro sum.cong refl) (simp add: v)
  also have "\<dots> = sum ?f ({..<?n} - ?T)" using one by (intro sum.mono_neutral_right) auto
  finally have "column_mass idx prs' ?n i = val (s_probs s ! i) + sum ?f ({..<?n} - ?T)"
    using i by (simp add: column_mass_def v)
  also have "\<dots> = val (?prs ! i)" using p(3) i unfolding mass_kept_def p(5) length_normalize_weights by blast
  finally show ?thesis using init p(1) by (auto simp: walker_init_cases split: if_splits)
qed

subsection \<open>Concrete runs\<close>

definition sample_weights :: "double list" where
  "sample_weights = [Fin 1, Fin 3, Fin 2, Fin 2]"

definition sample_table :: walker_alias_sampler where
  "sample_table = \<lparr>num_bins = 4, indexes = [1, 0, 0, 0], probs = [Fin (1 / 2), 1, 1, 1]\<rparr>"

lemma sample_normalized: "normalize_weights sample_weights = [Fin (1 / 2), Fin (3 / 2), Fin 1, Fin 1]"
  by code_simp

lemma sample_prepared: "prepare_table [Fin (1 / 2), Fin (3 / 2), Fin 1, Fin 1] = Inr ([1, 0, 0, 0], [Fin (1 / 2), 1, 1, 1])"
  by code_simp

lemma sample_init: "walker_alias_sampler_init plain_clib sample_weights = Inr sample_table"
  unfolding walker_init_cases sample_normalized sample_prepared
  by (simp add: plain_clib_def LONG_MAX_def sample_weights_def sample_table_def)

lemma sample_grid: "grid 1 (1 / 2)" "grid 1 (3 / 2)" "grid 1 1"
  unfolding grid_def by (rule exI [of _ 1], simp, rule exI [of _ 3], simp, rule exI [of _ 2], simp)

lemma sample_exact: "exact_weights 1 (normalize_weights sample_weights)"
  unfolding exact_weights_def sample_normalized using sample_grid by simp

theorem walker_sample_in_range_witness:
  "\<exists>xs g'. walker_alias_sampler_sample plain_clib sample_table 5 (Builtin 0) = Inr (xs, g') \<and> length xs = 5 \<and>
    rng_ok plain_clib g' \<and> (\<forall>x \<in> set xs. 0 \<le> x \<and> x < int (length sample_weights))"
  by (rule walker_sample_in_range [OF sample_init _ plain_rng_ok]) (simp add: sample_weights_def)

theorem walker_table_exact_witness:
  "column_mass (indexes sample_table) (probs sample_table) (length sample_weights) 1 =
    val (normalize_weights sample_weights ! 1)"
  by (rule walker_table_exact [OF sample_init sample_exact]) (simp add: sample_weights_def)

end
