(* ===== verification/Options.thy ===== *)
theory Options
  imports Sampling
begin

text \<open>
  The public types of \<open>include/plfit.h\<close> and \<open>include/plfit_error.h\<close>, the defaults of
  \<open>src/options.c\<close> and the error handlers of \<open>src/error.c\<close>. The generator pointer of the
  options is threaded separately through the operations that draw numbers, as a value of
  type \<open>rng\<close>; the default, the null pointer, is \<open>Builtin\<close>.
\<close>

datatype plfit_continuous_method_t = PLFIT_LINEAR_ONLY | PLFIT_STRATIFIED_SAMPLING | PLFIT_GSS_OR_LINEAR

datatype plfit_discrete_method_t = PLFIT_LBFGS | PLFIT_LINEAR_SCAN | PLFIT_PRETEND_CONTINUOUS

datatype plfit_p_value_method_t = PLFIT_P_VALUE_SKIP | PLFIT_P_VALUE_APPROXIMATE | PLFIT_P_VALUE_EXACT

record plfit_result_t =
  res_alpha :: double
  res_xmin :: double
  res_L :: double
  res_D :: double
  res_p :: double

record plfit_continuous_options_t =
  co_finite_size_correction :: bool
  co_xmin_method :: plfit_continuous_method_t
  co_p_value_method :: plfit_p_value_method_t
  co_p_value_precision :: double

record plfit_discrete_options_t =
  do_finite_size_correction :: bool
  do_alpha_method :: plfit_discrete_method_t
  do_alpha_min :: double
  do_alpha_max :: double
  do_alpha_step :: double
  do_p_value_method :: plfit_p_value_method_t
  do_p_value_precision :: double

definition plfit_continuous_default_options :: plfit_continuous_options_t where
  "plfit_continuous_default_options =
     \<lparr>co_finite_size_correction = False, co_xmin_method = PLFIT_STRATIFIED_SAMPLING,
      co_p_value_method = PLFIT_P_VALUE_EXACT, co_p_value_precision = lit (1 / 100)\<rparr>"

definition plfit_discrete_default_options :: plfit_discrete_options_t where
  "plfit_discrete_default_options =
     \<lparr>do_finite_size_correction = False, do_alpha_method = PLFIT_LBFGS,
      do_alpha_min = lit (101 / 100), do_alpha_max = lit 5, do_alpha_step = lit (1 / 100),
      do_p_value_method = PLFIT_P_VALUE_EXACT, do_p_value_precision = lit (1 / 100)\<rparr>"

definition plfit_continuous_options_init ::
  "plfit_continuous_options_t \<Rightarrow> plfit_continuous_options_t result" where
  "plfit_continuous_options_init options = Inr plfit_continuous_default_options"

definition plfit_discrete_options_init ::
  "plfit_discrete_options_t \<Rightarrow> plfit_discrete_options_t result" where
  "plfit_discrete_options_init options = Inr plfit_discrete_default_options"

subsection \<open>Error codes and handlers\<close>

fun errno_code :: "plfit_errno \<Rightarrow> int" where
  "errno_code PLFIT_FAILURE = 1"
| "errno_code PLFIT_EINVAL = 2"
| "errno_code PLFIT_UNDRFLOW = 3"
| "errno_code PLFIT_OVERFLOW = 4"
| "errno_code PLFIT_ENOMEM = 5"
| "errno_code PLFIT_EMAXITER = 6"

definition plfit_i_error_strings :: "string list" where
  "plfit_i_error_strings =
     [''No error'', ''Failed'', ''Invalid value'', ''Underflow'', ''Overflow'',
      ''Not enough memory'', ''Maximum number of iterations exceeded'']"

definition plfit_strerror :: "int \<Rightarrow> string result" where
  "plfit_strerror plfit_errno =
     (if plfit_errno < 0 then Inl Undefined else array_get plfit_i_error_strings (nat plfit_errno))"

text \<open>
  A handler is one of the three of the library or the caller's own, which is known by a number.
  What a handler prints is recorded as the arguments of its \<open>fprintf\<close>.
\<close>

datatype plfit_error_handler_t =
  plfit_error_handler_abort | plfit_error_handler_printignore | plfit_error_handler_ignore
| Custom_handler nat

record error_state =
  plfit_error_handler :: plfit_error_handler_t
  stderr_lines :: "(string \<times> int \<times> string \<times> string) list"

datatype outcome = Returned error_state | Aborted error_state

definition initial_error_state :: error_state where
  "initial_error_state = \<lparr>plfit_error_handler = plfit_error_handler_abort, stderr_lines = []\<rparr>"

definition plfit_set_error_handler ::
  "plfit_error_handler_t \<Rightarrow> error_state \<Rightarrow> plfit_error_handler_t \<times> error_state" where
  "plfit_set_error_handler new_handler st =
     (plfit_error_handler st, st\<lparr>plfit_error_handler := new_handler\<rparr>)"

definition print_error :: "string \<Rightarrow> string \<Rightarrow> int \<Rightarrow> int \<Rightarrow> error_state \<Rightarrow> error_state result" where
  "print_error reason file line plfit_errno st =
     plfit_check (plfit_strerror plfit_errno) (\<lambda>msg.
       Inr (st\<lparr>stderr_lines := stderr_lines st @ [(file, line, reason, msg)]\<rparr>))"

definition plfit_error ::
  "(nat \<Rightarrow> int \<Rightarrow> error_state \<Rightarrow> outcome) \<Rightarrow>
   string \<Rightarrow> string \<Rightarrow> int \<Rightarrow> int \<Rightarrow> error_state \<Rightarrow> outcome result" where
  \<comment> \<open>\<open>custom\<close>: what the caller's own handlers do\<close>
  "plfit_error custom reason file line plfit_errno st =
     (case plfit_error_handler st of
        plfit_error_handler_abort \<Rightarrow>
          plfit_check (print_error reason file line plfit_errno st) (\<lambda>st'. Inr (Aborted st'))
      | plfit_error_handler_printignore \<Rightarrow>
          plfit_check (print_error reason file line plfit_errno st) (\<lambda>st'. Inr (Returned st'))
      | plfit_error_handler_ignore \<Rightarrow> Inr (Returned st)
      | Custom_handler k \<Rightarrow> Inr (custom k plfit_errno st))"

lemma plfit_strerror_total: "\<exists>msg. plfit_strerror (errno_code e) = Inr msg"
  by (cases e) (simp_all add: plfit_strerror_def plfit_i_error_strings_def)

text \<open>
  Every error code the library reports has a message, so no handler of the library reads
  outside the message table; \<open>plfit_error\<close> returns to its caller, who then returns the code,
  unless the handler installed is the aborting one, which is the initial one; installing a
  handler and putting the old one back restores the state.
\<close>

theorem plfit_error_handlers:
  "(plfit_error_handler st = plfit_error_handler_abort \<longleftrightarrow>
      (\<exists>st'. plfit_error (\<lambda>k e. Returned) reason file line (errno_code e) st = Inr (Aborted st'))) \<and>
   (\<exists>out. plfit_error (\<lambda>k e. Returned) reason file line (errno_code e) st = Inr out) \<and>
   plfit_error_handler initial_error_state = plfit_error_handler_abort \<and>
   (case plfit_set_error_handler h st of (old, st') \<Rightarrow>
      plfit_error_handler st' = h \<and> plfit_set_error_handler old st' = (h, st))"
proof -
  obtain msg where "plfit_strerror (errno_code e) = Inr msg" using plfit_strerror_total by blast
  then show ?thesis
    by (simp add: plfit_error_def print_error_def plfit_set_error_handler_def initial_error_state_def
        split: plfit_error_handler_t.split)
qed

end
