(* ===== verification/Stats.thy ===== *)
theory Stats
  imports Clib
begin

text \<open>
  \<open>src/stats.c\<close>: the moments of a sample in two passes. Each of the four output pointers may
  be null; \<open>wants_mean\<close> and the others say whether it is not, and an output is \<open>None\<close> when
  nothing was written behind it.
\<close>

record moments =
  mean :: "double option"
  variance :: "double option"
  skewness :: "double option"
  kurtosis :: "double option"

text \<open>The accumulators of the second pass: \<open>error\<close>, \<open>variance0\<close>, \<open>skewness0\<close>, \<open>kurtosis0\<close>.\<close>

definition moments_step :: "double \<Rightarrow> double \<Rightarrow> double \<times> double \<times> double \<times> double \<Rightarrow>
    double \<times> double \<times> double \<times> double" where
  "moments_step mean0 p acc =
     (case acc of (error, variance0, skewness0, kurtosis0) \<Rightarrow>
        let x = p - mean0; y = x * x; y' = y * x; y'' = y' * x
        in (error + x, variance0 + y, skewness0 + y', kurtosis0 + y''))"

definition wanted :: "bool \<Rightarrow> double \<Rightarrow> double option" where
  "wanted b x = (if b then Some x else None)"

definition plfit_moments ::
  "clib \<Rightarrow> double list \<Rightarrow> bool \<Rightarrow> bool \<Rightarrow> bool \<Rightarrow> bool \<Rightarrow> moments result" where
  "plfit_moments L xs wants_mean wants_variance wants_skewness wants_kurtosis =
     (let n = length xs in
      if n = 0 then
        Inr \<lparr>mean = wanted wants_mean 0, variance = wanted wants_variance 0,
             skewness = wanted wants_skewness 0, kurtosis = wanted wants_kurtosis 0\<rparr>
      else if n = 1 then
        Inr \<lparr>mean = wanted wants_mean (xs ! 0), variance = wanted wants_variance 0,
             skewness = wanted wants_skewness 0, kurtosis = wanted wants_kurtosis 0\<rparr>
      else
        let mean0 = foldl (+) 0 xs / double_of_nat n in
        if \<not> wants_variance \<and> \<not> wants_skewness \<and> \<not> wants_kurtosis then
          Inr \<lparr>mean = wanted wants_mean mean0, variance = None, skewness = None, kurtosis = None\<rparr>
        else
          case fold (moments_step mean0) xs (0, 0, 0, 0) of (error, v, skewness0, kurtosis0) \<Rightarrow>
            let variance0 = v - error * error / double_of_nat n;
                variance1 = variance0 / double_of_nat n
            in Inr \<lparr>mean = wanted wants_mean mean0,
                 variance = wanted wants_variance (variance0 / double_of_nat (n - 1)),
                 skewness = wanted wants_skewness
                   (skewness0 / (double_of_nat n * variance1 * c_sqrt L variance1)),
                 kurtosis = wanted wants_kurtosis
                   (kurtosis0 / (double_of_nat n * variance1 * variance1))\<rparr>)"

definition doubles_of_ints :: "int list \<Rightarrow> double list" where
  "doubles_of_ints is = map (\<lambda>i. Fin (of_int i)) is"

lemma integer_mean:
  assumes "sum_list (map abs is) \<le> 2 ^ 53" "is \<noteq> []" "length is \<le> 2 ^ 53"
  shows "foldl (+) 0 (doubles_of_ints is) / double_of_nat (length is) =
    to_double (sum_list is < 0) (of_int (sum_list is) / of_nat (length is))"
  using foldl_int_exact [of 0 "is"] assms
  by (simp add: doubles_of_ints_def zero_double_def double_of_nat_exact dbl)

text \<open>
  \<open>plfit_moments\<close> writes exactly the outputs it is asked for, for every sample; and on a
  sample of integers whose absolute values add up to at most \<open>2 ^ 53\<close> the mean it reports is
  the true mean, rounded once.
\<close>

theorem plfit_moments_mean:
  assumes "sum_list (map abs is) \<le> 2 ^ 53" "2 \<le> length is" "length is \<le> 2 ^ 53"
  shows "\<exists>m. plfit_moments L (doubles_of_ints is) a b c d = Inr m \<and>
    mean m = wanted a (to_double (sum_list is < 0) (of_int (sum_list is) / of_nat (length is))) \<and>
    (variance m = None \<longleftrightarrow> \<not> b) \<and> (skewness m = None \<longleftrightarrow> \<not> c) \<and> (kurtosis m = None \<longleftrightarrow> \<not> d)"
proof -
  have "is \<noteq> []" using assms(2) by auto
  note mean = integer_mean [OF assms(1) this assms(3)]
  have len: "length (doubles_of_ints is) = length is" by (simp add: doubles_of_ints_def)
  show ?thesis
    using assms(2) \<open>is \<noteq> []\<close> by (simp add: plfit_moments_def Let_def len mean wanted_def split: prod.split)
qed

theorem plfit_moments_mean_witness:
  "\<exists>m. plfit_moments plain_clib (doubles_of_ints [3, - 1, 5]) True False True False = Inr m \<and>
    mean m = wanted True (to_double (sum_list [3, - 1, 5 :: int] < 0)
      (of_int (sum_list [3, - 1, 5]) / of_nat (length [3, - 1, 5 :: int]))) \<and>
    (variance m = None \<longleftrightarrow> \<not> False) \<and> (skewness m = None \<longleftrightarrow> \<not> True) \<and> (kurtosis m = None \<longleftrightarrow> \<not> False)"
  by (rule plfit_moments_mean) simp_all

lemma moments_step_constant: "fold (moments_step (Fin c)) (replicate n (Fin c)) (0, 0, 0, 0) = (0, 0, 0, 0)"
proof -
  have z: "Fin c - Fin c = 0" by (simp add: dbl to_double_0 zero_double_def)
  have "moments_step (Fin c) (Fin c) (0, 0, 0, 0) = (0, 0, 0, 0)"
    unfolding moments_step_def z by (simp add: zero_double_def dbl to_double_0 Let_def)
  then show ?thesis by (induction n) simp_all
qed

text \<open>
  On a sample of two or more equal integers the reported variance is zero, and the
  skewness and the kurtosis are NaN: the division by the variance is not guarded.
\<close>

theorem plfit_moments_constant:
  assumes "int n * \<bar>i\<bar> \<le> 2 ^ 53" "2 \<le> n" "n \<le> 2 ^ 53" "c_sqrt L 0 = 0"
  shows "plfit_moments L (replicate n (Fin (of_int i))) True True True True =
    Inr \<lparr>mean = Some (Fin (of_int i)), variance = Some 0, skewness = Some NaN, kurtosis = Some NaN\<rparr>"
proof -
  let ?xs = "replicate n (Fin (of_int i))" and ?is = "replicate n i"
  have xs: "?xs = doubles_of_ints ?is" by (simp add: doubles_of_ints_def)
  have "1 * \<bar>i\<bar> \<le> int n * \<bar>i\<bar>" using assms(2) by (intro mult_right_mono) auto
  then have ib: "\<bar>i\<bar> \<le> 2 ^ 53" using assms(1) by simp
  have q: "of_int (sum_list ?is) / rat_of_nat n = of_int i" using assms(2) by (simp add: sum_list_replicate)
  have neg: "sum_list ?is < 0 \<longleftrightarrow> i < 0" using assms(2) by (simp add: sum_list_replicate mult_less_0_iff)
  have "foldl (+) 0 ?xs / double_of_nat n = to_double (i < 0) (of_int i)"
    using integer_mean [of ?is] assms q neg by (simp add: xs sum_list_replicate abs_mult)
  also have "\<dots> = Fin (of_int i)"
    using to_double_exact [OF representable_int [OF ib] small_int_lt [OF ib]] by (cases "i = 0") (auto simp: to_double_0)
  finally have mean: "foldl (+) 0 ?xs / double_of_nat n = Fin (of_int i)" .
  have n: "double_of_nat n = Fin (of_nat n)" "double_of_nat (n - 1) = Fin (of_nat (n - 1))" "(0 :: rat) < of_nat n"
    "(0 :: rat) < of_nat (n - 1)"
    using assms(2,3) by (simp_all add: double_of_nat_exact)
  have z: "Fin 0 * Fin 0 = Fin 0" "Fin 0 / Fin (of_nat n) = Fin 0" "Fin 0 / Fin (of_nat (n - 1)) = Fin 0"
    "Fin (of_nat n) * Fin 0 = Fin 0" "Fin 0 - Fin 0 = Fin 0"
    using n(3,4) by (simp_all add: dbl to_double_0 not_less)
  have nan: "Fin 0 / Fin 0 = NaN" by (simp add: divide_double_def ddiv_def)
  show ?thesis
    using assms(2,4) n(2) z(3) unfolding plfit_moments_def length_replicate Let_def mean moments_step_constant
    by (simp add: n(1) wanted_def zero_double_def z nan)
qed

theorem plfit_moments_constant_witness:
  "plfit_moments (plain_clib\<lparr>c_sqrt := \<lambda>x. x\<rparr>) (replicate 3 (Fin (of_int 7))) True True True True =
    Inr \<lparr>mean = Some (Fin (of_int 7)), variance = Some 0, skewness = Some NaN, kurtosis = Some NaN\<rparr>"
  by (rule plfit_moments_constant) simp_all

end
