(* ===== verification/Kolmogorov.thy ===== *)
theory Kolmogorov
  imports Clib
begin

text \<open>
  \<open>src/kolmogorov.c\<close>: the distribution function of the Kolmogorov statistic, which turns the
  distance of a Kolmogorov-Smirnov test into an approximate p-value.
\<close>

definition kolmogorov_fj :: "double list" where
  "kolmogorov_fj = [- lit 2, - lit 8, - lit 18, - lit 32]"

definition kolmogorov_terms :: "clib \<Rightarrow> double \<Rightarrow> nat \<Rightarrow> double list result" where
  \<comment> \<open>the array \<open>r\<close> after the loop over \<open>j < maxj\<close>\<close>
  "kolmogorov_terms L v maxj =
     loop_res (\<lambda>j r. plfit_check (array_get kolmogorov_fj j) (\<lambda>f. array_set r j (c_exp L (f * v))))
       [0..<maxj] [0, 0, 0, 0]"

definition plfit_kolmogorov :: "clib \<Rightarrow> double \<Rightarrow> double result" where
  "plfit_kolmogorov L z =
     (let w = lit 2.50662827;
          c1 = - lit 1.2337005501361697;
          c2 = - lit 11.103304951225528;
          c3 = - lit 30.842513753404244;
          u = \<bar>z\<bar>
      in if u < lit 0.2 then Inr 1
         else if u < lit 0.755 then
           (let v = 1 / (u * u) in
            Inr (1 - w * (c_exp L (c1 * v) + c_exp L (c2 * v) + c_exp L (c3 * v)) / u))
         else if u < lit 6.8116 then
           plfit_check (cast_long (lit 3 / u + lit 0.5)) (\<lambda>j.
             let maxj = (if j < 1 then 1 else j); v = u * u in
             plfit_check (kolmogorov_terms L v (nat maxj)) (\<lambda>r.
               plfit_check (array_get r 0) (\<lambda>r0. plfit_check (array_get r 1) (\<lambda>r1.
               plfit_check (array_get r 2) (\<lambda>r2. plfit_check (array_get r 3) (\<lambda>r3.
               Inr (lit 2 * (r0 - r1 + r2 - r3))))))))
         else Inr 0)"

definition plfit_ks_test_one_sample_p :: "clib \<Rightarrow> double \<Rightarrow> nat \<Rightarrow> double result" where
  "plfit_ks_test_one_sample_p L d n = plfit_kolmogorov L (d * c_sqrt L (double_of_nat n))"

definition plfit_ks_test_two_sample_p :: "clib \<Rightarrow> double \<Rightarrow> nat \<Rightarrow> nat \<Rightarrow> double result" where
  \<comment> \<open>the product and the sum of the sizes wrap around in \<open>size_t\<close>\<close>
  "plfit_ks_test_two_sample_p L d n1 n2 =
     plfit_kolmogorov L (d * c_sqrt L
       (double_of_nat (n1 * n2 mod 2 ^ 64) / double_of_nat ((n1 + n2) mod 2 ^ 64)))"

subsection \<open>The array index stays in range\<close>

lemma kolmogorov_terms_ok:
  assumes "maxj \<le> 4"
  shows "\<exists>r. kolmogorov_terms L v maxj = Inr r \<and> length r = 4 \<and>
    (\<forall>j < 4. r ! j = (if j < maxj then c_exp L (kolmogorov_fj ! j * v) else 0))"
proof -
  let ?P = "\<lambda>i r. length r = 4 \<and> (\<forall>j < 4. r ! j = (if j < i then c_exp L (kolmogorov_fj ! j * v) else 0))"
  have "?P 0 [0, 0, 0, 0 :: double]" by (auto simp: less_Suc_eq numeral_eq_Suc)
  moreover have len: "length kolmogorov_fj = 4" by (simp add: kolmogorov_fj_def)
  ultimately show ?thesis
    unfolding kolmogorov_terms_def
    using loop_res_invariant [of ?P "[0, 0, 0, 0]" "[0..<maxj]"
        "\<lambda>j r. plfit_check (array_get kolmogorov_fj j) (\<lambda>f. array_set r j (c_exp L (f * v)))"] assms
    by (auto simp: nth_list_update less_Suc_eq)
qed

lemma kolmogorov_maxj:
  assumes "lit 0.755 \<le> u" "u < lit 6.8116"
  shows "\<exists>j. cast_long (lit 3 / u + lit 0.5) = Inr j \<and> 0 \<le> j \<and> j \<le> 4"
proof -
  have c: "isfinite (lit 0.755)" "isfinite (lit 6.8116)" "isfinite (lit 3)" "isfinite (lit 0.5)"
    "0 \<le> lit 3" "lit 3 \<le> lit 3" "0 < lit 0.755" "0 \<le> lit 0.5" "lit 0.5 \<le> lit 0.5"
    by code_simp+
  have m: "lit 3 / lit 0.755 + lit 0.5 \<le> Fin 4.5" by code_simp
  have u: "isfinite u" "0 < u"
    using assms c isfinite_between [of "lit 0.755" u "lit 6.8116"] dless_le dless_le_trans by blast+
  have q: "lit 3 / u \<le> lit 3 / lit 0.755" "0 \<le> lit 3 / u"
    using ddiv_mono_finite [of "lit 3" "lit 3" "lit 0.755" u] ddiv_nonneg [of "lit 3" u] c u assms by auto
  have b: "isfinite (lit 3 / lit 0.755)" by code_simp
  then have f: "isfinite (lit 3 / u)" using q isfinite_between [of 0 _ "lit 3 / lit 0.755"] by simp
  have s: "lit 3 / u + lit 0.5 \<noteq> NaN" "lit 3 / lit 0.755 + lit 0.5 \<noteq> NaN"
    using not_nan_add f b c by blast+
  have "lit 3 / u + lit 0.5 \<le> lit 3 / lit 0.755 + lit 0.5" using q(1) c(9) s by (rule dadd_mono)
  then have hi: "lit 3 / u + lit 0.5 \<le> Fin 4.5" using m dle_trans by blast
  have lo: "0 \<le> lit 3 / u + lit 0.5" using q(2) c(8) by (rule dadd_nonneg)
  have fin: "isfinite (lit 3 / u + lit 0.5)" using lo hi by (rule isfinite_between) simp_all
  then have v: "0 \<le> val (lit 3 / u + lit 0.5)" "val (lit 3 / u + lit 0.5) \<le> 4.5"
    using lo hi by (simp_all add: dle_finite)
  then have "0 \<le> \<lfloor>val (lit 3 / u + lit 0.5)\<rfloor>" "\<lfloor>val (lit 3 / u + lit 0.5)\<rfloor> \<le> 4"
    by (simp_all add: floor_le_iff)
  with fin v show ?thesis by (simp add: cast_long_def cast_range_def trunc_rat_nonneg)
qed

text \<open>
  \<open>plfit_kolmogorov\<close> returns a number for every argument, NaN and infinities included: the
  loop fills between one and four of the four entries of its array. It is 1 below 0.2, it is 0
  from 6.8116 on, and it is an even function.
\<close>

theorem plfit_kolmogorov_total:
  "\<exists>p. plfit_kolmogorov L z = Inr p \<and> plfit_kolmogorov L (- z) = Inr p \<and>
    (if \<bar>z\<bar> < lit 0.2 then p = 1 else \<bar>z\<bar> < lit 6.8116 \<or> p = 0)"
proof -
  have even: "plfit_kolmogorov L (- z) = plfit_kolmogorov L z"
  proof -
    have "\<bar>- z\<bar> = \<bar>z\<bar>" by (cases z) (auto simp: abs_double_def uminus_double_def)
    then show ?thesis by (simp only: plfit_kolmogorov_def)
  qed
  have c: "lit 0.2 < lit 0.755" "lit 0.755 < lit 6.8116" "\<not> isnan (lit 0.755)" by code_simp+
  consider "\<bar>z\<bar> < lit 0.755" | "\<not> \<bar>z\<bar> < lit 6.8116" | "lit 0.755 \<le> \<bar>z\<bar>" "\<bar>z\<bar> < lit 6.8116" "z \<noteq> NaN"
    using c dless_not_nan [of "\<bar>z\<bar>" "lit 6.8116"] dnot_less [of "\<bar>z\<bar>" "lit 0.755"] by fastforce
  then show ?thesis
  proof cases
    case 1
    then have "\<bar>z\<bar> < lit 6.8116" using c dless_trans by blast
    with 1 even show ?thesis by (simp add: plfit_kolmogorov_def Let_def)
  next
    case 2
    then have "\<not> \<bar>z\<bar> < lit 0.755" "\<not> \<bar>z\<bar> < lit 0.2" using c dless_trans by blast+
    with 2 even show ?thesis by (simp add: plfit_kolmogorov_def Let_def)
  next
    case 3
    then have s: "\<not> \<bar>z\<bar> < lit 0.755" "\<not> \<bar>z\<bar> < lit 0.2"
      using c dless_le_trans [OF _ 3(1)] by (auto simp: dless_iff)
    obtain j where j: "cast_long (lit 3 / \<bar>z\<bar> + lit 0.5) = Inr j" "0 \<le> j" "j \<le> 4"
      using kolmogorov_maxj [OF 3(1,2)] by blast
    have "nat (if j < 1 then 1 else j) \<le> 4" using j by (simp add: nat_le_iff)
    from kolmogorov_terms_ok [OF this, of L "\<bar>z\<bar> * \<bar>z\<bar>"] j s 3 even show ?thesis
      by (auto simp: plfit_kolmogorov_def Let_def)
  qed
qed

end
