(* ===== verification/Gss.thy ===== *)
theory Gss
  imports Clib
begin

text \<open>
  \<open>src/gss.c\<close>: golden section search. The objective function and the progress callback work
  on the caller's \<open>instance\<close>, whose value of type \<open>'s\<close> is threaded through every call; a null
  progress callback is \<open>None\<close>. The loop runs until the bracket is short enough, with no bound
  on the iterations, so its model takes fuel. The static warning flag is part of what the
  search returns.
\<close>

datatype gss_error_handling_t = GSS_ERROR_STOP | GSS_ERROR_WARN

record gss_parameter_t =
  epsilon :: double
  on_error :: gss_error_handling_t

definition PHI :: double where "PHI = lit 1.618033988749895"

definition RESPHI :: double where "RESPHI = lit 0.3819660112501051"

definition gss_defparam :: gss_parameter_t where
  "gss_defparam = \<lparr>epsilon = DBL_MIN, on_error = GSS_ERROR_STOP\<rparr>"

definition gss_parameter_init :: "gss_parameter_t \<Rightarrow> gss_parameter_t" where
  "gss_parameter_init param = gss_defparam"

type_synonym 's gss_evaluate_t = "'s \<Rightarrow> double \<Rightarrow> (double \<times> 's) result"

text \<open>
  The progress callback gets the point, its value, the best point, its value, the bracket's
  ends in order and the iteration; a result other than zero (\<open>True\<close>) cancels the search.
\<close>

type_synonym 's gss_progress_t =
  "'s \<Rightarrow> double \<Rightarrow> double \<Rightarrow> double \<Rightarrow> double \<Rightarrow> double \<Rightarrow> double \<Rightarrow> nat \<Rightarrow> (bool \<times> 's) result"

text \<open>The local variables of \<open>gss\<close>, the warning flag and the caller's instance.\<close>

record 's gss_locals =
  g_a :: double
  g_b :: double
  g_c :: double
  g_fa :: double
  g_fb :: double
  g_fc :: double
  g_min :: double
  g_fmin :: double
  g_k :: nat
  gss_i_warning_flag :: bool
  g_instance :: 's

text \<open>How \<open>gss\<close> returns: with \<open>PLFIT_SUCCESS\<close>, having written the location and the value of the
  minimum, or with \<open>PLFIT_FAILURE\<close>, having written nothing.\<close>

datatype gss_status = Gss_success | Gss_failure

type_synonym 's gss_result = "(gss_status \<times> 's gss_locals) result"

text \<open>The macro \<open>EVALUATE\<close>: \<open>k\<close> receives the value, unless the callback cancels the search.\<close>

definition gss_EVALUATE ::
  "'s gss_evaluate_t \<Rightarrow> 's gss_progress_t option \<Rightarrow> double \<Rightarrow> 's gss_locals \<Rightarrow>
   (double \<Rightarrow> 's gss_locals \<Rightarrow> 's gss_result) \<Rightarrow> 's gss_result" where
  "gss_EVALUATE proc_evaluate proc_progress x s k =
     plfit_check (proc_evaluate (g_instance s) x) (\<lambda>(fx, i).
       let s1 = s\<lparr>g_instance := i\<rparr>;
           s2 = (if fx < g_fmin s then s1\<lparr>g_min := x, g_fmin := fx\<rparr> else s1)
       in case proc_progress of
            None \<Rightarrow> k fx s2
          | Some progress \<Rightarrow>
              plfit_check
                (progress i x fx (g_min s2) (g_fmin s2) (if g_a s < g_b s then g_a s else g_b s)
                   (if g_a s < g_b s then g_b s else g_a s) (g_k s))
                (\<lambda>(retval, i'). let s3 = s2\<lparr>g_instance := i'\<rparr> in
                   if retval then Inr (Gss_success, s3) else k fx s3))"

text \<open>The test after an evaluation that the function is not U-shaped, and its two reactions.\<close>

definition gss_not_u_shaped :: "double \<Rightarrow> 's gss_locals \<Rightarrow> bool" where
  "gss_not_u_shaped fx s \<longleftrightarrow> g_fa s \<le> fx \<or> g_fb s \<le> fx"

fun gss_loop ::
  "'s gss_evaluate_t \<Rightarrow> 's gss_progress_t option \<Rightarrow> gss_parameter_t \<Rightarrow> nat \<Rightarrow> 's gss_locals \<Rightarrow>
   's gss_result" where
  "gss_loop ev pr param 0 s =
     (if epsilon param < \<bar>g_a s - g_b s\<bar> then Inl Out_of_fuel
      else gss_EVALUATE ev pr ((g_a s + g_b s) / lit 2)
        (s\<lparr>g_c := (g_a s + g_b s) / lit 2, g_k := Suc (g_k s)\<rparr>)
        (\<lambda>fx s. Inr (Gss_success, s\<lparr>g_fc := fx\<rparr>)))"
| "gss_loop ev pr param (Suc fuel) s =
     (if epsilon param < \<bar>g_a s - g_b s\<bar> then
        let s1 = s\<lparr>g_k := Suc (g_k s)\<rparr>; d = g_c s + RESPHI * (g_b s - g_c s) in
        gss_EVALUATE ev pr d s1 (\<lambda>fd s2.
          if gss_not_u_shaped fd s2 \<and> on_error param = GSS_ERROR_STOP then Inr (Gss_failure, s2)
          else
            let s3 = (if gss_not_u_shaped fd s2 then s2\<lparr>gss_i_warning_flag := True\<rparr> else s2) in
            gss_loop ev pr param fuel
              (if g_fc s3 \<le> fd then s3\<lparr>g_b := g_a s3, g_a := d\<rparr>
               else s3\<lparr>g_a := g_c s3, g_c := d, g_fc := fd\<rparr>))
      else gss_EVALUATE ev pr ((g_a s + g_b s) / lit 2)
        (s\<lparr>g_c := (g_a s + g_b s) / lit 2, g_k := Suc (g_k s)\<rparr>)
        (\<lambda>fx s. Inr (Gss_success, s\<lparr>g_fc := fx\<rparr>)))"

definition gss_start ::
  "'s gss_evaluate_t \<Rightarrow> 's gss_progress_t option \<Rightarrow> gss_parameter_t \<Rightarrow> nat \<Rightarrow> 's gss_locals \<Rightarrow>
   's gss_result" where
  \<comment> \<open>the three first evaluations, with \<open>min\<close>, \<open>fmin\<close> and \<open>c\<close> set\<close>
  "gss_start ev pr param fuel s =
     gss_EVALUATE ev pr (g_a s) s (\<lambda>fa s1.
     gss_EVALUATE ev pr (g_b s) (s1\<lparr>g_fa := fa\<rparr>) (\<lambda>fb s2.
     gss_EVALUATE ev pr (g_c s) (s2\<lparr>g_fb := fb\<rparr>) (\<lambda>fc s3.
       let s4 = s3\<lparr>g_fc := fc\<rparr> in
       if gss_not_u_shaped fc s4 \<and> on_error param = GSS_ERROR_STOP then Inr (Gss_failure, s4)
       else gss_loop ev pr param fuel
         (if gss_not_u_shaped fc s4 then s4\<lparr>gss_i_warning_flag := True\<rparr> else s4))))"

definition gss ::
  "double \<Rightarrow> double \<Rightarrow> 's gss_evaluate_t \<Rightarrow> 's gss_progress_t option \<Rightarrow> 's \<Rightarrow>
   gss_parameter_t option \<Rightarrow> nat \<Rightarrow> 's gss_result" where
  "gss a b proc_evaluate proc_progress inst param_opt fuel =
     (let param = (case param_opt of None \<Rightarrow> gss_defparam | Some p \<Rightarrow> p);
          (a, b) = (if b < a then (b, a) else (a, b))
      in plfit_check (proc_evaluate inst a) (\<lambda>(fmin, i).
         gss_start proc_evaluate proc_progress param fuel
           \<lparr>g_a = a, g_b = b, g_c = a + RESPHI * (b - a), g_fa = 0, g_fb = 0, g_fc = 0,
            g_min = a, g_fmin = fmin, g_k = 0, gss_i_warning_flag = False, g_instance = i\<rparr>))"

definition gss_get_warning_flag :: "'s gss_locals \<Rightarrow> bool" where
  "gss_get_warning_flag s = gss_i_warning_flag s"

subsection \<open>The contract between the search and its caller\<close>

text \<open>
  What the callbacks may rely on and have to keep: \<open>inside\<close> is the set of points at which the
  search may evaluate, closed under the two ways in which the search makes a new point;
  \<open>J i m fm\<close> says that the caller's state \<open>i\<close> agrees with the best point \<open>m\<close> and its value.
\<close>

locale gss_client =
  fixes ev :: "'s gss_evaluate_t" and pr :: "'s gss_progress_t option"
    and inside :: "double \<Rightarrow> bool" and J :: "'s \<Rightarrow> double \<Rightarrow> double \<Rightarrow> bool"
  assumes ev_ok: "J i m fm \<Longrightarrow> inside x \<Longrightarrow>
      \<exists>fx i'. ev i x = Inr (fx, i') \<and> (if fx < fm then J i' x fx else J i' m fm)"
    and pr_ok: "pr = Some p \<Longrightarrow> J i m fm \<Longrightarrow> inside l \<Longrightarrow> inside r \<Longrightarrow>
      \<exists>b i'. p i x fx m fm l r k = Inr (b, i') \<and> J i' m fm"
    and step_inside: "inside a \<Longrightarrow> inside b \<Longrightarrow> inside (a + RESPHI * (b - a))"
    and middle_inside: "inside a \<Longrightarrow> inside b \<Longrightarrow> inside ((a + b) / lit 2)"
begin

definition locals_ok :: "'s gss_locals \<Rightarrow> bool" where
  "locals_ok s \<longleftrightarrow> inside (g_a s) \<and> inside (g_b s) \<and> inside (g_c s) \<and>
     J (g_instance s) (g_min s) (g_fmin s)"

definition outcome_ok :: "'s gss_result \<Rightarrow> bool" where
  "outcome_ok r \<longleftrightarrow> r = Inl Out_of_fuel \<or>
     (\<exists>st s. r = Inr (st, s) \<and> J (g_instance s) (g_min s) (g_fmin s))"

lemma outcome_ok_Inr [simp]: "outcome_ok (Inr (st, s)) \<longleftrightarrow> J (g_instance s) (g_min s) (g_fmin s)"
  by (simp add: outcome_ok_def)

lemma EVALUATE_ok:
  assumes s: "locals_ok s" and x: "inside x"
    and k: "\<And>fx s'. locals_ok s' \<Longrightarrow> g_a s' = g_a s \<Longrightarrow> g_b s' = g_b s \<Longrightarrow> g_c s' = g_c s \<Longrightarrow>
      outcome_ok (k fx s')"
  shows "outcome_ok (gss_EVALUATE ev pr x s k)"
proof -
  obtain fx i where e: "ev (g_instance s) x = Inr (fx, i)"
    "if fx < g_fmin s then J i x fx else J i (g_min s) (g_fmin s)"
    using ev_ok [of "g_instance s" "g_min s" "g_fmin s" x] s x by (auto simp: locals_ok_def)
  define s2 where "s2 = (if fx < g_fmin s then s\<lparr>g_instance := i, g_min := x, g_fmin := fx\<rparr>
    else s\<lparr>g_instance := i\<rparr>)"
  have s2: "locals_ok s2" "g_instance s2 = i" "g_a s2 = g_a s" "g_b s2 = g_b s" "g_c s2 = g_c s"
    using s e(2) by (auto simp: s2_def locals_ok_def)
  show ?thesis
  proof (cases pr)
    case None
    with e have "gss_EVALUATE ev pr x s k = k fx s2"
      by (auto simp: gss_EVALUATE_def s2_def Let_def)
    with k [OF s2(1,3-5)] show ?thesis by simp
  next
    case (Some p)
    let ?l = "if g_a s < g_b s then g_a s else g_b s" and ?r = "if g_a s < g_b s then g_b s else g_a s"
    have "inside ?l" "inside ?r" using s by (auto simp: locals_ok_def)
    then obtain b i' where p: "p i x fx (g_min s2) (g_fmin s2) ?l ?r (g_k s) = Inr (b, i')"
      "J i' (g_min s2) (g_fmin s2)"
      using pr_ok [OF Some, of i "g_min s2" "g_fmin s2" ?l ?r x fx "g_k s"] s2(1,2)
      by (auto simp: locals_ok_def)
    have eq: "gss_EVALUATE ev pr x s k =
        (if b then Inr (Gss_success, s2\<lparr>g_instance := i'\<rparr>) else k fx (s2\<lparr>g_instance := i'\<rparr>))"
      using e p(1) Some by (auto simp: gss_EVALUATE_def s2_def Let_def)
    have "locals_ok (s2\<lparr>g_instance := i'\<rparr>)" using s2(1) p(2) by (simp add: locals_ok_def)
    then have "outcome_ok (k fx (s2\<lparr>g_instance := i'\<rparr>))" using s2 by (intro k) simp_all
    with p(2) show ?thesis unfolding eq by (simp add: outcome_ok_def)
  qed
qed

lemma finish_ok:
  assumes "locals_ok s"
  shows "outcome_ok (gss_EVALUATE ev pr ((g_a s + g_b s) / lit 2)
    (s\<lparr>g_c := (g_a s + g_b s) / lit 2, g_k := Suc (g_k s)\<rparr>) (\<lambda>fx s. Inr (Gss_success, s\<lparr>g_fc := fx\<rparr>)))"
proof (rule EVALUATE_ok)
  show "locals_ok (s\<lparr>g_c := (g_a s + g_b s) / lit 2, g_k := Suc (g_k s)\<rparr>)" "inside ((g_a s + g_b s) / lit 2)"
    using assms middle_inside by (simp_all add: locals_ok_def)
qed (simp add: outcome_ok_def locals_ok_def)

lemma loop_ok: "locals_ok s \<Longrightarrow> outcome_ok (gss_loop ev pr param fuel s)"
proof (induction fuel arbitrary: s)
  case 0
  then show ?case using finish_ok by (simp add: outcome_ok_def)
next
  case (Suc fuel)
  show ?case
  proof (cases "epsilon param < \<bar>g_a s - g_b s\<bar>")
    case False
    with Suc.prems finish_ok show ?thesis by simp
  next
    case True
    let ?d = "g_c s + RESPHI * (g_b s - g_c s)"
    have d: "inside ?d" using Suc.prems step_inside by (simp add: locals_ok_def)
    have "outcome_ok (gss_EVALUATE ev pr ?d (s\<lparr>g_k := Suc (g_k s)\<rparr>) (\<lambda>fd s2.
        if gss_not_u_shaped fd s2 \<and> on_error param = GSS_ERROR_STOP then Inr (Gss_failure, s2)
        else let s3 = (if gss_not_u_shaped fd s2 then s2\<lparr>gss_i_warning_flag := True\<rparr> else s2) in
          gss_loop ev pr param fuel
            (if g_fc s3 \<le> fd then s3\<lparr>g_b := g_a s3, g_a := ?d\<rparr>
             else s3\<lparr>g_a := g_c s3, g_c := ?d, g_fc := fd\<rparr>)))"
    proof (rule EVALUATE_ok)
      show "locals_ok (s\<lparr>g_k := Suc (g_k s)\<rparr>)" using Suc.prems by (simp add: locals_ok_def)
      show "inside ?d" by (rule d)
    qed (use d in \<open>auto intro!: Suc.IH simp: Let_def locals_ok_def\<close>)
    with True show ?thesis by (simp add: Let_def)
  qed
qed

lemma start_ok: "locals_ok s \<Longrightarrow> outcome_ok (gss_start ev pr param fuel s)"
  unfolding gss_start_def
  by (intro EVALUATE_ok) (auto simp: Let_def locals_ok_def intro!: loop_ok)

text \<open>The search only evaluates inside, and ends, if it ends, with its best point recorded.\<close>

lemma gss_ok:
  assumes "inside a" "inside b" "\<And>x. x \<in> {a, b} \<Longrightarrow> \<exists>fx i. ev inst x = Inr (fx, i) \<and> J i x fx"
  shows "outcome_ok (gss a b ev pr inst param fuel)"
proof -
  define a' b' where "a' = (if b < a then b else a)" and "b' = (if b < a then a else b)"
  then have ab: "inside a'" "inside b'" "a' \<in> {a, b}" using assms by auto
  obtain fx i where e: "ev inst a' = Inr (fx, i)" "J i a' fx" using assms(3) [OF ab(3)] by blast
  have "outcome_ok (gss_start ev pr (case param of None \<Rightarrow> gss_defparam | Some p \<Rightarrow> p) fuel
     \<lparr>g_a = a', g_b = b', g_c = a' + RESPHI * (b' - a'), g_fa = 0, g_fb = 0, g_fc = 0,
      g_min = a', g_fmin = fx, g_k = 0, gss_i_warning_flag = False, g_instance = i\<rparr>)"
    using e(2) ab step_inside by (intro start_ok) (simp add: locals_ok_def)
  then show ?thesis using e by (auto simp: gss_def a'_def b'_def Let_def split: if_splits)
qed

end

subsection \<open>Recording the points of a search\<close>

text \<open>
  The same search with a record of the points at which it evaluates beside the caller's
  instance: the callbacks work on the instance alone, every evaluation appends its point.
\<close>

definition recording :: "'s gss_evaluate_t \<Rightarrow> ('s \<times> double list) gss_evaluate_t" where
  "recording ev i x = plfit_check (ev (fst i) x) (\<lambda>(fx, i'). Inr (fx, i', snd i @ [x]))"

definition recording_progress :: "'s gss_progress_t option \<Rightarrow> ('s \<times> double list) gss_progress_t option" where
  "recording_progress pr = map_option (\<lambda>p i x fx m fm l r k.
     plfit_check (p (fst i) x fx m fm l r k) (\<lambda>(b, i'). Inr (b, i', snd i))) pr"

definition forget :: "('s \<times> double list) gss_locals \<Rightarrow> 's gss_locals" where
  "forget s = \<lparr>g_a = g_a s, g_b = g_b s, g_c = g_c s, g_fa = g_fa s, g_fb = g_fb s, g_fc = g_fc s,
     g_min = g_min s, g_fmin = g_fmin s, g_k = g_k s, gss_i_warning_flag = gss_i_warning_flag s,
     g_instance = fst (g_instance s)\<rparr>"

lemma forget_simps [simp]:
  "g_a (forget s) = g_a s" "g_b (forget s) = g_b s" "g_c (forget s) = g_c s" "g_fa (forget s) = g_fa s"
  "g_fb (forget s) = g_fb s" "g_fc (forget s) = g_fc s" "g_min (forget s) = g_min s"
  "g_fmin (forget s) = g_fmin s" "g_k (forget s) = g_k s"
  "gss_i_warning_flag (forget s) = gss_i_warning_flag s" "g_instance (forget s) = fst (g_instance s)"
  by (simp_all add: forget_def)

lemma forget_update [simp]:
  "forget (s\<lparr>g_a := x\<rparr>) = (forget s)\<lparr>g_a := x\<rparr>" "forget (s\<lparr>g_b := x\<rparr>) = (forget s)\<lparr>g_b := x\<rparr>"
  "forget (s\<lparr>g_c := x\<rparr>) = (forget s)\<lparr>g_c := x\<rparr>" "forget (s\<lparr>g_fa := x\<rparr>) = (forget s)\<lparr>g_fa := x\<rparr>"
  "forget (s\<lparr>g_fb := x\<rparr>) = (forget s)\<lparr>g_fb := x\<rparr>" "forget (s\<lparr>g_fc := x\<rparr>) = (forget s)\<lparr>g_fc := x\<rparr>"
  "forget (s\<lparr>g_min := x\<rparr>) = (forget s)\<lparr>g_min := x\<rparr>" "forget (s\<lparr>g_fmin := x\<rparr>) = (forget s)\<lparr>g_fmin := x\<rparr>"
  "forget (s\<lparr>g_k := k\<rparr>) = (forget s)\<lparr>g_k := k\<rparr>"
  "forget (s\<lparr>gss_i_warning_flag := b\<rparr>) = (forget s)\<lparr>gss_i_warning_flag := b\<rparr>"
  "forget (s\<lparr>g_instance := i\<rparr>) = (forget s)\<lparr>g_instance := fst i\<rparr>"
  by (simp_all add: forget_def)

definition forget_result :: "('s \<times> double list) gss_result \<Rightarrow> 's gss_result" where
  "forget_result r = plfit_check r (\<lambda>(st, s). Inr (st, forget s))"

lemma forget_result_simps [simp]:
  "forget_result (Inr (st, s)) = Inr (st, forget s)" "forget_result (Inl e) = Inl e"
  by (simp_all add: forget_result_def)

lemma forget_check:
  assumes "\<And>x. forget_result (k' x) = k x"
  shows "forget_result (plfit_check r k') = plfit_check r k"
  using assms by (cases r) simp_all

lemma forget_EVALUATE:
  assumes "forget s = s0" "\<And>fx s'. forget_result (k' fx s') = k fx (forget s')"
  shows "forget_result (gss_EVALUATE (recording ev) (recording_progress pr) x s k') = gss_EVALUATE ev pr x s0 k"
proof -
  have s0: "s0 = forget s" by (simp add: assms(1))
  show ?thesis
  proof (cases "ev (fst (g_instance s)) x")
    case (Inr r)
    obtain fx i where r: "r = (fx, i)" by fastforce
    show ?thesis
    proof (cases pr)
      case None
      with Inr r show ?thesis
        by (auto simp: gss_EVALUATE_def recording_def recording_progress_def Let_def s0 assms(2))
    next
      case (Some p)
      let ?l = "if g_a s < g_b s then g_a s else g_b s" and ?r = "if g_a s < g_b s then g_b s else g_a s"
      define m fm where "m = (if fx < g_fmin s then x else g_min s)" and "fm = (if fx < g_fmin s then fx else g_fmin s)"
      show ?thesis
        by (cases "p i x fx m fm ?l ?r (g_k s)")
          (auto simp: gss_EVALUATE_def recording_def recording_progress_def Let_def s0 assms(2) Inr r Some m_def fm_def)
    qed
  qed (simp add: gss_EVALUATE_def recording_def s0)
qed

lemma forget_loop:
  "forget_result (gss_loop (recording ev) (recording_progress pr) param fuel s) = gss_loop ev pr param fuel (forget s)"
proof (induction fuel arbitrary: s)
  case 0
  show ?case by (auto intro!: forget_EVALUATE)
next
  case (Suc fuel)
  show ?case
    by (auto simp: Let_def Suc gss_not_u_shaped_def intro!: forget_EVALUATE)
qed

lemma forget_gss:
  "forget_result (gss a b (recording ev) (recording_progress pr) (inst, []) param fuel) = gss a b ev pr inst param fuel"
proof -
  have start: "forget_result (gss_start (recording ev) (recording_progress pr) p fuel s) =
      gss_start ev pr p fuel (forget s)" for p s
    unfolding gss_start_def
    by (auto simp: Let_def gss_not_u_shaped_def forget_loop intro!: forget_EVALUATE)
  show ?thesis
    by (auto simp: gss_def recording_def Let_def start forget_def plfit_check_assoc case_prod_beta intro!: forget_check)
qed

subsection \<open>A search over a bracket of doubles\<close>

lemma RESPHI_value: "isfinite RESPHI" "0 \<le> val RESPHI" "val RESPHI \<le> 1 / 2"
  by code_simp+

lemma lit_2: "lit 2 = Fin 2"
  by code_simp

text \<open>
  The objective is a function of the point alone; the instance is the trace of the points at
  which it was evaluated, and the best point is the first of them with the least value. The
  objective is also taken with an evaluation outside the bracket as an undefined one, and the
  progress callback is null or any decision whether to cancel that leaves the trace alone.
\<close>

definition traced :: "(double \<Rightarrow> double) \<Rightarrow> double list gss_evaluate_t" where
  "traced f trace x = Inr (f x, trace @ [x])"

definition confined :: "double \<Rightarrow> double \<Rightarrow> (double \<Rightarrow> double) \<Rightarrow> double list gss_evaluate_t" where
  "confined lo hi f trace x = (if lo \<le> x \<and> x \<le> hi then traced f trace x else Inl Undefined)"

definition cancelling ::
  "('s \<Rightarrow> double \<Rightarrow> double \<Rightarrow> double \<Rightarrow> double \<Rightarrow> double \<Rightarrow> double \<Rightarrow> nat \<Rightarrow> bool) option \<Rightarrow> 's gss_progress_t option" where
  "cancelling q = map_option (\<lambda>p i x fx m fm l r k. Inr (p i x fx m fm l r k, i)) q"

definition best_of :: "(double \<Rightarrow> double) \<Rightarrow> (double \<Rightarrow> bool) \<Rightarrow> double list \<Rightarrow> double \<Rightarrow> double \<Rightarrow> bool" where
  "best_of f inside trace m fm \<longleftrightarrow> m \<in> set trace \<and> fm = f m \<and> (\<forall>x \<in> set trace. inside x \<and> \<not> f x < fm)"

interpretation bracketed: gss_client "confined lo hi f" "cancelling q"
    "\<lambda>x. bracket lo hi \<and> in_bracket lo hi x" "best_of f (in_bracket lo hi)" for f lo hi q
proof
  fix i m fm x
  assume J: "best_of f (in_bracket lo hi) i m fm" and x: "bracket lo hi \<and> in_bracket lo hi x"
  have "best_of f (in_bracket lo hi) (i @ [x]) x (f x)" if "f x < fm"
    using J x that dless_trans by (auto simp: best_of_def)
  moreover have "best_of f (in_bracket lo hi) (i @ [x]) m fm" if "\<not> f x < fm"
    using J x that by (auto simp: best_of_def)
  ultimately show "\<exists>fx i'. confined lo hi f i x = Inr (fx, i') \<and>
      (if fx < fm then best_of f (in_bracket lo hi) i' x fx else best_of f (in_bracket lo hi) i' m fm)"
    using x by (auto simp: confined_def traced_def in_bracket_def)
next
  fix a b
  assume "bracket lo hi \<and> in_bracket lo hi a" "bracket lo hi \<and> in_bracket lo hi b"
  then show "bracket lo hi \<and> in_bracket lo hi (a + RESPHI * (b - a))"
    "bracket lo hi \<and> in_bracket lo hi ((a + b) / lit 2)"
    using step_in_bracket RESPHI_value midpoint_in_bracket by (auto simp: lit_2)
qed (auto simp: cancelling_def)

text \<open>
  Two objectives of which the second is undefined where it differs give the same run, unless
  the second makes it undefined.
\<close>

definition as_defined :: "'a result \<Rightarrow> 'a result \<Rightarrow> bool" where
  "as_defined r r' \<longleftrightarrow> r' = Inl Undefined \<or> r' = r"

lemma as_defined_check:
  assumes "as_defined r r'" "\<And>x. as_defined (k x) (k' x)"
  shows "as_defined (plfit_check r k) (plfit_check r' k')"
proof (cases r')
  case (Inr x)
  with assms(1) have "r = Inr x" by (auto simp: as_defined_def)
  with Inr assms(2) show ?thesis by simp
qed (use assms(1) in \<open>auto simp: as_defined_def\<close>)

lemma EVALUATE_as_defined:
  assumes "\<And>i x. as_defined (ev i x) (ev' i x)" "\<And>fx s'. as_defined (k fx s') (k' fx s')"
  shows "as_defined (gss_EVALUATE ev pr x s k) (gss_EVALUATE ev' pr x s k')"
proof -
  have same: "as_defined r r" for r :: "'b result" by (simp add: as_defined_def)
  show ?thesis
    unfolding gss_EVALUATE_def Let_def
    by (intro as_defined_check assms(1)) (auto intro!: as_defined_check assms(2) same split: option.split)
qed

lemma loop_as_defined:
  assumes "\<And>i x. as_defined (ev i x) (ev' i x)"
  shows "as_defined (gss_loop ev pr param fuel s) (gss_loop ev' pr param fuel s)"
proof (induction fuel arbitrary: s)
  case 0
  show ?case using EVALUATE_as_defined [OF assms] by (simp add: as_defined_def)
next
  case (Suc fuel)
  have same: "as_defined r r" for r :: "'a gss_result" by (simp add: as_defined_def)
  show ?case
    by (auto simp: Let_def intro!: EVALUATE_as_defined [OF assms] Suc same)
qed

lemma gss_as_defined:
  assumes "\<And>i x. as_defined (ev i x) (ev' i x)"
  shows "as_defined (gss a b ev pr inst param fuel) (gss a b ev' pr inst param fuel)"
proof -
  have same: "as_defined r r" for r :: "'a gss_result" by (simp add: as_defined_def)
  have start: "as_defined (gss_start ev pr p fuel s) (gss_start ev' pr p fuel s)" for p s
    unfolding gss_start_def
    by (auto simp: Let_def intro!: EVALUATE_as_defined [OF assms] loop_as_defined [OF assms] same)
  have "as_defined (plfit_check (ev i x) (\<lambda>(fx, i). gss_start ev pr p fuel (s fx i)))
      (plfit_check (ev' i x) (\<lambda>(fx, i). gss_start ev' pr p fuel (s fx i)))" for i x p s
    using start by (auto intro!: as_defined_check assms split: prod.split)
  then show ?thesis by (simp add: gss_def split: prod.split)
qed

text \<open>
  C29. For every objective function, every bracket whose ends are doubles of at most 2^1000 in
  magnitude, and any progress callback that may cancel the search, golden section search
  evaluates only points of the bracket, rounding included, although it swaps the ends of its
  bracket as it goes: as far as it is run, an objective that is undefined outside of the bracket
  gives the same run and is never undefined. When it returns, successfully, cancelled or because
  the function is not U-shaped, the location of the minimum is one of the points evaluated, with
  its value, and no evaluated point has a smaller value.
\<close>

theorem gss_best_of_evaluated:
  assumes "bracket lo hi" "in_bracket lo hi a" "in_bracket lo hi b"
  shows "gss a b (confined lo hi f) (cancelling q) [] param fuel = gss a b (traced f) (cancelling q) [] param fuel \<and>
    (gss a b (traced f) (cancelling q) [] param fuel = Inl Out_of_fuel \<or>
     (\<exists>st s. gss a b (traced f) (cancelling q) [] param fuel = Inr (st, s) \<and>
       g_min s \<in> set (g_instance s) \<and> g_fmin s = f (g_min s) \<and>
       (\<forall>x \<in> set (g_instance s). lo \<le> x \<and> x \<le> hi \<and> \<not> f x < g_fmin s)))"
proof -
  let ?c = "gss a b (confined lo hi f) (cancelling q) [] param fuel"
  have ok: "bracketed.outcome_ok f lo hi ?c"
    using assms by (intro bracketed.gss_ok) (auto simp: confined_def traced_def best_of_def in_bracket_def)
  have "as_defined (gss a b (traced f) (cancelling q) [] param fuel) ?c"
    by (rule gss_as_defined) (simp add: as_defined_def confined_def)
  then have "?c = gss a b (traced f) (cancelling q) [] param fuel"
    using ok by (auto simp: as_defined_def bracketed.outcome_ok_def)
  with ok show ?thesis by (auto simp: bracketed.outcome_ok_def best_of_def in_bracket_def)
qed

theorem gss_best_of_evaluated_witness:
  "gss (Fin 0) (Fin 8) (traced (\<lambda>x. \<bar>x - Fin 3\<bar>)) (cancelling None) [] None 5 = Inl Out_of_fuel \<or>
    (\<exists>st s. gss (Fin 0) (Fin 8) (traced (\<lambda>x. \<bar>x - Fin 3\<bar>)) (cancelling None) [] None 5 = Inr (st, s) \<and>
      g_min s \<in> set (g_instance s) \<and> g_fmin s = \<bar>g_min s - Fin 3\<bar> \<and>
      (\<forall>x \<in> set (g_instance s). Fin 0 \<le> x \<and> x \<le> Fin 8 \<and> \<not> \<bar>x - Fin 3\<bar> < g_fmin s))"
proof -
  have r: "representable 0" "representable 8" using representable_int [of 8] by simp_all
  have "is_double (Fin 8)" "is_double (Fin 0)" using r by (simp_all add: is_double_Fin)
  then show ?thesis
    using gss_best_of_evaluated [of "Fin 0" "Fin 8" "Fin 0" "Fin 8" "\<lambda>x. \<bar>x - Fin 3\<bar>" None None 5]
    by (simp add: bracket_def in_bracket_def)
qed

end
