(* ===== verification/Arrays.thy ===== *)
theory Arrays
  imports Options
begin

text \<open>
  The routines at the head of \<open>src/plfit.c\<close> on arrays of doubles: sorting, counting and
  extracting the elements below a threshold, and the pointers to the blocks of equal elements.
  An array is the list of its elements, a pointer into an array is an offset, the null pointer
  is \<open>None\<close>. A routine that returns the null pointer because memory is exhausted gives
  \<open>PLFIT_ENOMEM\<close>, the code that its callers report.
\<close>

definition double_comparator :: "double \<Rightarrow> double \<Rightarrow> int" where
  "double_comparator a b = of_bool (b < a) - of_bool (a < b)"

definition plfit_i_copy_and_sort :: "clib \<Rightarrow> double list \<Rightarrow> double list result" where
  "plfit_i_copy_and_sort L xs =
     with_alloc L (sizeof_double * length xs) (plfit_fail PLFIT_ENOMEM)
       (Inr (qsort double_comparator xs))"

definition count_smaller :: "double list \<Rightarrow> double \<Rightarrow> nat" where
  "count_smaller xs xmin = fold (\<lambda>p counter. if p < xmin then counter + 1 else counter) xs 0"

definition extract_step :: "double \<Rightarrow> double \<Rightarrow> double list \<times> nat \<Rightarrow> (double list \<times> nat) result" where
  \<comment> \<open>the array and the offset of \<open>p\<close>\<close>
  "extract_step xmin x s =
     (case s of (res, p) \<Rightarrow>
        if x < xmin then plfit_check (array_set res p x) (\<lambda>res'. Inr (res', p + 1)) else Inr (res, p))"

definition extract_smaller :: "clib \<Rightarrow> double list \<Rightarrow> double \<Rightarrow> (double list \<times> nat) result" where
  "extract_smaller L xs xmin =
     (let counter = count_smaller xs xmin; size = (if 0 < counter then counter else 1) in
      with_alloc L (size * sizeof_double) (plfit_fail PLFIT_ENOMEM)
        (plfit_check (loop_res (extract_step xmin) xs (replicate size 0, 0))
           (\<lambda>(res, p). Inr (res, counter))))"

subsection \<open>Pointers to the unique elements\<close>

record unique_locals =
  u_result :: "nat option list"
  u_num_elts :: nat
  u_used_elts :: nat
  u_prev_x :: double

definition unique_store :: "nat \<Rightarrow> double \<Rightarrow> unique_locals \<Rightarrow> unique_locals result" where
  "unique_store ptr x s =
     plfit_check (array_set (u_result s) (u_used_elts s) (Some ptr)) (\<lambda>res.
       Inr (s\<lparr>u_result := res, u_used_elts := u_used_elts s + 1, u_prev_x := x\<rparr>))"

definition unique_step :: "clib \<Rightarrow> double list \<Rightarrow> nat \<Rightarrow> unique_locals \<Rightarrow> unique_locals result" where
  "unique_step L xs ptr s =
     plfit_check (array_get xs ptr) (\<lambda>x.
       if deq x (u_prev_x s) then Inr s
       else if u_num_elts s \<le> u_used_elts s then
         (let num = u_num_elts s * 2 + 1 in
          with_alloc L (sizeof_pointer * (num + 1)) (plfit_fail PLFIT_ENOMEM)
            (unique_store ptr x
               (s\<lparr>u_num_elts := num,
                  u_result := u_result s @ replicate (num + 1 - length (u_result s)) None\<rparr>)))
       else unique_store ptr x s)"

definition unique_element_pointers :: "clib \<Rightarrow> double list \<Rightarrow> (nat option list \<times> nat) result" where
  \<comment> \<open>the array of pointers with its guard, and the number of blocks\<close>
  "unique_element_pointers L xs =
     (if xs = [] then
        with_alloc L (1 * sizeof_pointer) (plfit_fail PLFIT_ENOMEM) (Inr ([None], 0))
      else
        with_alloc L (16 * sizeof_pointer) (plfit_fail PLFIT_ENOMEM)
          (plfit_check (unique_store 0 (xs ! 0)
             \<lparr>u_result = replicate 16 None, u_num_elts = 15, u_used_elts = 0, u_prev_x = xs ! 0\<rparr>) (\<lambda>s0.
           plfit_check (loop_res (unique_step L xs) [1..<length xs] s0) (\<lambda>s.
           plfit_check (array_set (u_result s) (u_used_elts s) None) (\<lambda>res.
             Inr (res, u_used_elts s))))))"

subsection \<open>Sorting\<close>

lemma double_comparator_le:
  "x \<noteq> NaN \<Longrightarrow> y \<noteq> NaN \<Longrightarrow> double_comparator x y \<le> 0 \<longleftrightarrow> x \<le> y"
  using dle_total [of x y] by (auto simp: double_comparator_def dless_iff)

interpretation doubles: comparison double_comparator "(\<le>)" "\<lambda>x. x \<noteq> NaN"
proof
  fix x y z :: double
  show "x \<noteq> NaN \<Longrightarrow> y \<noteq> NaN \<Longrightarrow> double_comparator x y \<le> 0 \<longleftrightarrow> x \<le> y" by (rule double_comparator_le)
  show "x \<noteq> NaN \<Longrightarrow> y \<noteq> NaN \<Longrightarrow> x \<le> y \<or> y \<le> x" by (rule dle_total) simp_all
  show "x \<le> y \<Longrightarrow> y \<le> z \<Longrightarrow> x \<le> z" by (rule dle_trans)
qed

definition no_nan :: "double list \<Rightarrow> bool" where
  "no_nan xs \<longleftrightarrow> NaN \<notin> set xs"

definition sorted_doubles :: "double list \<Rightarrow> bool" where
  "sorted_doubles xs \<longleftrightarrow> no_nan xs \<and> sorted_wrt (\<le>) xs"

lemma sorted_doubles_qsort: "no_nan xs \<Longrightarrow> sorted_doubles (qsort double_comparator xs)"
  using doubles.qsort_sorted [of xs] by (auto simp: sorted_doubles_def no_nan_def)

lemma qsort_sorted_doubles: "sorted_doubles xs \<Longrightarrow> qsort double_comparator xs = xs"
  using doubles.qsort_sorted_id [of xs] by (auto simp: sorted_doubles_def no_nan_def)

lemma sorted_doubles_nth: "sorted_doubles xs \<Longrightarrow> i \<le> j \<Longrightarrow> j < length xs \<Longrightarrow> xs ! i \<le> xs ! j"
  unfolding sorted_doubles_def no_nan_def
  by (cases "i = j") (auto simp: sorted_wrt_iff_nth_less, metis nth_mem)

text \<open>
  The sorted copy of a sample without NaN is in ascending order, has the same elements
  with the same multiplicities, and sorting a sorted sample leaves it alone; the copy fails
  exactly when its allocation is refused.
\<close>

theorem plfit_i_copy_and_sort_correct:
  assumes "no_nan xs"
  shows "if c_alloc L (sizeof_double * length xs)
    then \<exists>ys. plfit_i_copy_and_sort L xs = Inr ys \<and> sorted_doubles ys \<and>
      (\<forall>z. count_list ys z = count_list xs z) \<and> (sorted_doubles xs \<longrightarrow> ys = xs)
    else plfit_i_copy_and_sort L xs = plfit_fail PLFIT_ENOMEM"
  using sorted_doubles_qsort [OF assms] qsort_sorted_doubles [of xs]
  by (simp add: plfit_i_copy_and_sort_def with_alloc_def)

theorem plfit_i_copy_and_sort_correct_witness:
  "\<exists>ys. plfit_i_copy_and_sort plain_clib [Fin 3, NInf, NegZero, Fin 3] = Inr ys \<and> sorted_doubles ys \<and>
    (\<forall>z. count_list ys z = count_list [Fin 3, NInf, NegZero, Fin 3] z) \<and>
    (sorted_doubles [Fin 3, NInf, NegZero, Fin 3] \<longrightarrow> ys = [Fin 3, NInf, NegZero, Fin 3])"
  using plfit_i_copy_and_sort_correct [of "[Fin 3, NInf, NegZero, Fin 3]" plain_clib]
  by (simp add: plain_clib_def no_nan_def)

subsection \<open>The elements below a threshold\<close>

lemma count_smaller_eq: "count_smaller xs xmin = length (filter (\<lambda>x. x < xmin) xs)"
proof -
  have "fold (\<lambda>p counter. if p < xmin then counter + 1 else counter) xs k =
      k + length (filter (\<lambda>x. x < xmin) xs)" for k
    by (induction xs arbitrary: k) auto
  then show ?thesis by (simp add: count_smaller_def)
qed

lemma extract_loop:
  "p + length (filter (\<lambda>x. x < xmin) xs) \<le> length res \<Longrightarrow>
   loop_res (extract_step xmin) xs (res, p) =
     Inr (take p res @ filter (\<lambda>x. x < xmin) xs @ drop (p + length (filter (\<lambda>x. x < xmin) xs)) res,
          p + length (filter (\<lambda>x. x < xmin) xs))"
proof (induction xs arbitrary: res p)
  case (Cons x xs)
  show ?case
  proof (cases "x < xmin")
    case True
    with Cons.prems have "p < length res" by simp
    with True Cons show ?thesis by (simp add: extract_step_def take_Suc_conv_app_nth)
  qed (use Cons in \<open>simp add: extract_step_def\<close>)
qed simp

lemma extract_smaller_eq:
  "extract_smaller L xs xmin =
     (let head = filter (\<lambda>x. x < xmin) xs in
      if c_alloc L (max 1 (length head) * sizeof_double)
      then Inr (if head = [] then [0] else head, length head) else plfit_fail PLFIT_ENOMEM)"
proof -
  let ?h = "filter (\<lambda>x. x < xmin) xs"
  have "loop_res (extract_step xmin) xs (replicate (max 1 (length ?h)) 0, 0) =
      Inr (if ?h = [] then [0] else ?h, length ?h)"
    by (subst extract_loop) (auto simp: Suc_le_eq)
  moreover have "(if 0 < length ?h then length ?h else 1) = max 1 (length ?h)" by (cases "length ?h") auto
  ultimately show ?thesis by (simp add: extract_smaller_def count_smaller_eq with_alloc_def Let_def)
qed

subsection \<open>The blocks of equal elements\<close>

text \<open>
  \<open>block_starts xs n us\<close>: among the first \<open>n\<close> elements of a sorted array the offsets \<open>us\<close>
  are the starts of the blocks of equal elements.
\<close>

definition block_starts :: "double list \<Rightarrow> nat \<Rightarrow> nat list \<Rightarrow> bool" where
  "block_starts xs n us \<longleftrightarrow>
     us \<noteq> [] \<and> hd us = 0 \<and> set us \<subseteq> {..<n} \<and> sorted_wrt (\<lambda>u v. u < v \<and> xs ! u < xs ! v) us \<and>
     (\<forall>k < n. \<exists>u \<in> set us. u \<le> k \<and> deq (xs ! k) (xs ! u))"

definition unique_ok :: "double list \<Rightarrow> nat \<Rightarrow> unique_locals \<Rightarrow> bool" where
  "unique_ok xs n s \<longleftrightarrow>
     (\<exists>us. block_starts xs n us \<and> u_used_elts s = length us \<and>
       take (u_used_elts s) (u_result s) = map Some us \<and> u_used_elts s \<le> u_num_elts s \<and>
       length (u_result s) = u_num_elts s + 1 \<and> u_prev_x s = xs ! last us)"

lemma block_starts_last: "block_starts xs n us \<Longrightarrow> last us < n"
  unfolding block_starts_def using last_in_set [of us] by blast

lemma block_starts_same:
  assumes "block_starts xs n us" "deq (xs ! n) (xs ! last us)"
  shows "block_starts xs (Suc n) us"
proof -
  have "last us \<in> set us" using assms(1) by (simp add: block_starts_def)
  moreover have "last us < n" using assms(1) by (rule block_starts_last)
  ultimately have "\<exists>u \<in> set us. u \<le> n \<and> deq (xs ! n) (xs ! u)" using assms(2) less_imp_le by blast
  with assms(1) show ?thesis by (auto simp: block_starts_def less_Suc_eq)
qed

lemma block_starts_new:
  assumes "block_starts xs n us" "xs ! last us < xs ! n" "n < length xs" "xs ! n \<noteq> NaN"
  shows "block_starts xs (Suc n) (us @ [n])"
proof -
  have le: "xs ! u \<le> xs ! last us" if "u \<in> set us" for u
  proof -
    have us: "us = butlast us @ [last us]" using assms(1) by (simp add: block_starts_def)
    then have "u = last us \<or> u \<in> set (butlast us)" using that
      by (metis append_butlast_last_id empty_iff empty_set in_set_butlastD rotate1.simps(2) set_ConsD set_rotate1)
    moreover have "sorted_wrt (\<lambda>u v. u < v \<and> xs ! u < xs ! v) (butlast us @ [last us])"
      using assms(1) us by (simp add: block_starts_def)
    ultimately show ?thesis
      using dless_not_nan [OF assms(2)] by (auto simp: sorted_wrt_append dless_le)
  qed
  then have "xs ! u < xs ! n" if "u \<in> set us" for u using that assms(2) dle_less_trans by blast
  with assms show ?thesis
    by (fastforce simp: block_starts_def sorted_wrt_append less_Suc_eq)
qed

lemma unique_store_ok:
  assumes us: "block_starts xs n us" "u_used_elts s = length us"
      "take (u_used_elts s) (u_result s) = map Some us"
    and cap: "u_used_elts s < u_num_elts s" "length (u_result s) = u_num_elts s + 1"
    and new: "block_starts xs (Suc n) (us @ [n])"
  shows "\<exists>s'. unique_store n (xs ! n) s = Inr s' \<and> unique_ok xs (Suc n) s'"
proof -
  let ?s' = "s\<lparr>u_result := (u_result s)[u_used_elts s := Some n], u_used_elts := u_used_elts s + 1,
    u_prev_x := xs ! n\<rparr>"
  have "take (Suc (u_used_elts s)) ((u_result s)[u_used_elts s := Some n]) = map Some (us @ [n])"
    using us(3) cap by (subst take_Suc_conv_app_nth) simp_all
  then have "unique_ok xs (Suc n) ?s'"
    using new us(2) cap unfolding unique_ok_def by (intro exI [of _ "us @ [n]"]) simp
  then show ?thesis using cap by (simp add: unique_store_def)
qed

lemma unique_step_ok:
  assumes s: "unique_ok xs n s" and xs: "sorted_doubles xs" and n: "n < length xs"
    and alloc: "\<forall>b. c_alloc L b"
  shows "\<exists>s'. unique_step L xs n s = Inr s' \<and> unique_ok xs (Suc n) s'"
proof -
  obtain us where us: "block_starts xs n us" "u_used_elts s = length us"
    "take (u_used_elts s) (u_result s) = map Some us" "u_used_elts s \<le> u_num_elts s"
    "length (u_result s) = u_num_elts s + 1" "u_prev_x s = xs ! last us"
    using s by (auto simp: unique_ok_def)
  show ?thesis
  proof (cases "deq (xs ! n) (u_prev_x s)")
    case True
    then have "unique_ok xs (Suc n) s"
      using us block_starts_same unfolding unique_ok_def by metis
    with True n show ?thesis by (simp add: unique_step_def)
  next
    case False
    have le: "xs ! last us \<le> xs ! n"
      using sorted_doubles_nth [OF xs _ n] block_starts_last [OF us(1)] by simp
    moreover have "\<not> xs ! n \<le> xs ! last us" using False le us(6) by (simp add: deq_iff)
    ultimately have new: "block_starts xs (Suc n) (us @ [n])"
      using us(1) n dle_not_nan [OF le] by (intro block_starts_new) (auto simp: dless_iff)
    show ?thesis
    proof (cases "u_num_elts s \<le> u_used_elts s")
      case True
      let ?num = "u_num_elts s * 2 + 1"
      let ?s = "s\<lparr>u_num_elts := ?num, u_result := u_result s @ replicate (?num + 1 - length (u_result s)) None\<rparr>"
      have "\<exists>s'. unique_store n (xs ! n) ?s = Inr s' \<and> unique_ok xs (Suc n) s'"
        using us True by (intro unique_store_ok [OF us(1) _ _ _ _ new]) auto
      with True False n alloc show ?thesis by (simp add: unique_step_def Let_def)
    next
      case nfull: False
      with us have "\<exists>s'. unique_store n (xs ! n) s = Inr s' \<and> unique_ok xs (Suc n) s'"
        by (intro unique_store_ok [OF us(1) _ _ _ _ new]) auto
      with nfull False n show ?thesis by (simp add: unique_step_def)
    qed
  qed
qed

lemma unique_pointers_ok:
  assumes "sorted_doubles xs" "xs \<noteq> []" "\<forall>b. c_alloc L b"
  shows "\<exists>us res. unique_element_pointers L xs = Inr (res, length us) \<and> block_starts xs (length xs) us \<and>
    take (length us + 1) res = map Some us @ [None]"
proof -
  let ?s = "\<lparr>u_result = replicate 16 None, u_num_elts = 15, u_used_elts = 0, u_prev_x = xs ! 0\<rparr>"
  have "xs ! 0 \<in> set xs" using assms(2) by simp
  then have n0: "xs ! 0 \<noteq> NaN" using assms(1) by (auto simp: sorted_doubles_def no_nan_def)
  then have b: "block_starts xs 1 [0]" using assms by (simp add: block_starts_def)
  have t: "take 1 ((replicate 16 None)[0 := Some 0]) = map Some [0 :: nat]"
    using take_push [of 0 "replicate 16 None" "Some (0 :: nat)"] by simp
  let ?start = "?s\<lparr>u_result := (replicate 16 None)[0 := Some 0], u_used_elts := 1\<rparr>"
  have "unique_store 0 (xs ! 0) ?s = Inr ?start" by (simp add: unique_store_def)
  moreover have "unique_ok xs 1 ?start"
    unfolding unique_ok_def using b t by (intro exI [of _ "[0]"]) simp
  ultimately obtain s0 where s0: "unique_store 0 (xs ! 0) ?s = Inr s0" "unique_ok xs 1 s0" by blast
  have "\<exists>s. loop_res (unique_step L xs) [1..<length xs] s0 = Inr s \<and> unique_ok xs (Suc (length [1..<length xs])) s"
    using assms s0 by (intro loop_res_invariant [where P = "\<lambda>i. unique_ok xs (Suc i)"]) (auto intro!: unique_step_ok)
  then obtain s us where s: "loop_res (unique_step L xs) [1..<length xs] s0 = Inr s"
    and us: "block_starts xs (length xs) us" "u_used_elts s = length us"
      "take (u_used_elts s) (u_result s) = map Some us" "u_used_elts s \<le> u_num_elts s"
      "length (u_result s) = u_num_elts s + 1"
    using assms(2) by (auto simp: unique_ok_def)
  have "array_set (u_result s) (u_used_elts s) None = Inr ((u_result s)[u_used_elts s := None])"
    using us by simp
  moreover have "take (length us + 1) ((u_result s)[u_used_elts s := None]) = map Some us @ [None]"
    using us by (simp add: take_Suc_conv_app_nth)
  ultimately show ?thesis
    using s0(1) s us(1,2) assms(2,3) by (auto simp: unique_element_pointers_def)
qed

text \<open>
  On a sorted array, when the allocations are granted, the growing table of pointers is
  never written outside its bounds, and it ends up holding the starts of the blocks of equal
  elements, in order, followed by the null pointer as a guard.
\<close>

theorem unique_element_pointers_correct:
  assumes "sorted_doubles xs" "xs \<noteq> []" "\<forall>b. c_alloc L b"
  shows "\<exists>us res. unique_element_pointers L xs = Inr (res, length us) \<and> block_starts xs (length xs) us \<and>
    take (length us + 1) res = map Some us @ [None]"
  using assms by (rule unique_pointers_ok)

theorem unique_element_pointers_correct_witness:
  "\<exists>us res. unique_element_pointers plain_clib [Fin 1, Fin 1, Fin 2] = Inr (res, length us) \<and>
    block_starts [Fin 1, Fin 1, Fin 2] (length [Fin 1, Fin 1, Fin 2]) us \<and>
    take (length us + 1) res = map Some us @ [None]"
  by (rule unique_element_pointers_correct) (simp_all add: sorted_doubles_def no_nan_def plain_clib_def)

end
