(* ===== verification/Rbinom.thy ===== *)
theory Rbinom
  imports Sampling
begin

text \<open>
  \<open>src/rbinom.c\<close>: binomial variates. The function caches the set-up of its last arguments in
  static variables; they are the record \<open>rbinom_statics\<close>, which is threaded through the calls
  together with the generator. Both rejection loops take fuel. An \<open>int\<close> that overflows and a
  conversion that does not fit are undefined behaviour.
\<close>

record rbinom_statics =
  b_c :: double
  b_fm :: double
  b_npq :: double
  b_p1 :: double
  b_p2 :: double
  b_p3 :: double
  b_p4 :: double
  b_qn :: double
  b_xl :: double
  b_xll :: double
  b_xlr :: double
  b_xm :: double
  b_xr :: double
  psave :: double
  nsave :: int
  b_m :: int

definition rbinom_initial :: rbinom_statics where
  "rbinom_initial =
     \<lparr>b_c = 0, b_fm = 0, b_npq = 0, b_p1 = 0, b_p2 = 0, b_p3 = 0, b_p4 = 0, b_qn = 0, b_xl = 0,
      b_xll = 0, b_xlr = 0, b_xm = 0, b_xr = 0, psave = - 1, nsave = - 1, b_m = 0\<rparr>"

definition int_arith :: "int \<Rightarrow> int result" where
  \<comment> \<open>the result of an operation on \<open>int\<close> operands\<close>
  "int_arith i = (if - (2 ^ 31) \<le> i \<and> i \<le> 2 ^ 31 - 1 then Inr i else Inl Undefined)"

definition dmin :: "double \<Rightarrow> double \<Rightarrow> double" where
  \<comment> \<open>\<open>fmin\<close>\<close>
  "dmin x y = (if x = NaN then y else if y = NaN then x else if y < x then y else x)"

text \<open>The set-up for \<open>n * p >= 30\<close>.\<close>

definition rbinom_setup_large ::
  "clib \<Rightarrow> double \<Rightarrow> double \<Rightarrow> double \<Rightarrow> rbinom_statics \<Rightarrow> rbinom_statics result" where
  "rbinom_setup_large L p q np st =
     (let ffm = np + p in
      plfit_check (cast_int ffm) (\<lambda>m.
      let fm = double_of_int m; npq = np * q in
      plfit_check (cast_int (lit 2.195 * c_sqrt L npq - lit 4.6 * q)) (\<lambda>ip1.
      let p1 = double_of_int ip1 + lit 0.5;
          xm = fm + lit 0.5;
          xl = xm - p1;
          xr = xm + p1;
          c = lit 0.134 + lit 20.5 / (lit 15.3 + fm);
          al = (ffm - xl) / (ffm - xl * p);
          xll = al * (1 + lit 0.5 * al);
          al' = (xr - ffm) / (xr * q);
          xlr = al' * (1 + lit 0.5 * al');
          p2 = p1 * (1 + c + c);
          p3 = p2 + c / xll;
          p4 = p3 + c / xlr
      in Inr (st\<lparr>b_m := m, b_fm := fm, b_npq := npq, b_p1 := p1, b_xm := xm, b_xl := xl, b_xr := xr,
           b_c := c, b_xll := xll, b_xlr := xlr, b_p2 := p2, b_p3 := p3, b_p4 := p4\<rparr>))))"

definition rbinom_setup ::
  "clib \<Rightarrow> double \<Rightarrow> int \<Rightarrow> double \<Rightarrow> double \<Rightarrow> double \<Rightarrow> rbinom_statics \<Rightarrow> rbinom_statics result" where
  "rbinom_setup L pp n p q np st =
     (if \<not> deq pp (psave st) \<or> n \<noteq> nsave st then
        let st' = st\<lparr>psave := pp, nsave := n\<rparr> in
        if np < lit 30 then Inr (st'\<lparr>b_qn := c_pow L q (double_of_int n)\<rparr>)
        else rbinom_setup_large L p q np st'
      else Inr st)"

subsection \<open>The loop for \<open>n * p >= 30\<close>\<close>

datatype rbinom_step = Finis int | Retry

definition rbinom_explicit :: "double \<Rightarrow> double \<Rightarrow> int \<Rightarrow> int \<Rightarrow> double" where
  "rbinom_explicit g r m ix =
     (if m < ix then fold (\<lambda>i f. f * (g / double_of_int i - r)) [m + 1..ix] 1
      else if m \<noteq> ix then fold (\<lambda>i f. f / (g / double_of_int i - r)) [ix + 1..m] 1
      else 1)"

definition rbinom_stirling :: "double \<Rightarrow> double" where
  "rbinom_stirling y =
     (let y2 = y * y in
      (lit 13860 - (lit 462 - (lit 132 - (lit 99 - lit 140 / y2) / y2) / y2) / y2) / y / lit 166320)"

definition rbinom_accept ::
  "clib \<Rightarrow> rbinom_statics \<Rightarrow> int \<Rightarrow> double \<Rightarrow> double \<Rightarrow> double \<Rightarrow> double \<Rightarrow> int \<Rightarrow> double \<Rightarrow> bool result" where
  "rbinom_accept L st n p q g r ix v =
     plfit_check (int_arith (ix - b_m st)) (\<lambda>d.
     plfit_check (int_arith \<bar>d\<bar>) (\<lambda>k.
     let kd = double_of_int k; npq = b_npq st; m = b_m st in
     if k \<le> 20 \<or> npq / lit 2 - 1 \<le> kd then Inr (v \<le> rbinom_explicit g r m ix)
     else
       plfit_check (int_arith (- k * k)) (\<lambda>kk.
       let amaxp = kd / npq * ((kd * (kd / lit 3 + lit 0.625) + 1 / lit 6) / npq + lit 0.5);
           ynorm = double_of_int kk / (lit 2 * npq);
           alv = c_log L v
       in if alv < ynorm - amaxp then Inr True
          else if alv \<le> ynorm + amaxp then
            plfit_check (int_arith (ix + 1)) (\<lambda>ix1.
            plfit_check (int_arith (n + 1)) (\<lambda>n1.
            let x1 = double_of_int ix1;
                f1 = b_fm st + 1;
                z = double_of_int n1 - b_fm st;
                w = double_of_int (n - ix) + 1
            in Inr (alv \<le> b_xm st * c_log L (f1 / x1)
                 + (double_of_int (n - m) + lit 0.5) * c_log L (z / w)
                 + double_of_int d * c_log L (w * p / (x1 * q))
                 + rbinom_stirling f1 + rbinom_stirling z + rbinom_stirling x1 + rbinom_stirling w)))
          else Inr False)))"

definition rbinom_choose ::
  "clib \<Rightarrow> rbinom_statics \<Rightarrow> int \<Rightarrow> double \<Rightarrow> double \<Rightarrow> double \<Rightarrow> double \<Rightarrow> double \<Rightarrow> double \<Rightarrow> rbinom_step result" where
  \<comment> \<open>one iteration, once \<open>u\<close> and \<open>v\<close> are drawn\<close>
  "rbinom_choose L st n p q g r u v =
     (let decide = (\<lambda>ix v. plfit_check (rbinom_accept L st n p q g r ix v) (\<lambda>ok.
            Inr (if ok then Finis ix else Retry)))
      in if u \<le> b_p1 st then plfit_check (cast_int (b_xm st - b_p1 st * v + u)) (\<lambda>ix. Inr (Finis ix))
         else if u \<le> b_p2 st then
           (let x = b_xl st + (u - b_p1 st) / b_c st;
                v' = v * b_c st + 1 - \<bar>b_xm st - x\<bar> / b_p1 st
            in if 1 < v' \<or> v' \<le> 0 then Inr Retry
               else plfit_check (cast_int x) (\<lambda>ix. decide ix v'))
         else if b_p3 st < u then
           plfit_check (cast_int (b_xr st - c_log L v / b_xlr st)) (\<lambda>ix.
             if n < ix then Inr Retry else decide ix (v * (u - b_p3 st) * b_xlr st))
         else
           plfit_check (cast_int (b_xl st + c_log L v / b_xll st)) (\<lambda>ix.
             if ix < 0 then Inr Retry else decide ix (v * (u - b_p2 st) * b_xll st)))"

fun rbinom_large ::
  "clib \<Rightarrow> nat \<Rightarrow> rbinom_statics \<Rightarrow> int \<Rightarrow> double \<Rightarrow> double \<Rightarrow> double \<Rightarrow> double \<Rightarrow> rng \<Rightarrow> int drawn" where
  "rbinom_large L 0 st n p q g r rng = Inl Out_of_fuel"
| "rbinom_large L (Suc fuel) st n p q g r rng =
     plfit_check (plfit_runif_01 L rng) (\<lambda>(u, rng1).
     plfit_check (plfit_runif_01 L rng1) (\<lambda>(v, rng2).
     plfit_check (rbinom_choose L st n p q g r (u * b_p4 st) v) (\<lambda>step.
       case step of Finis ix \<Rightarrow> Inr (ix, rng2) | Retry \<Rightarrow> rbinom_large L fuel st n p q g r rng2)))"

subsection \<open>The loop for \<open>n * p < 30\<close>\<close>

text \<open>The inner loop; \<open>None\<close> when it gives up after \<open>ix > 110\<close>.\<close>

function rbinom_invert :: "double \<Rightarrow> double \<Rightarrow> double \<Rightarrow> double \<Rightarrow> nat \<Rightarrow> nat option" where
  "rbinom_invert g r u f ix =
     (if u < f then Some ix
      else if 110 < ix then None
      else rbinom_invert g r (u - f) (f * (g / double_of_nat (ix + 1) - r)) (ix + 1))"
  by pat_completeness auto
termination by (relation "measure (\<lambda>(g, r, u, f, ix). 111 - ix)") auto

declare rbinom_invert.simps [simp del]

fun rbinom_small :: "clib \<Rightarrow> nat \<Rightarrow> double \<Rightarrow> double \<Rightarrow> double \<Rightarrow> rng \<Rightarrow> int drawn" where
  "rbinom_small L 0 qn g r rng = Inl Out_of_fuel"
| "rbinom_small L (Suc fuel) qn g r rng =
     plfit_check (plfit_runif_01 L rng) (\<lambda>(u, rng1).
       case rbinom_invert g r u qn 0 of
         Some ix \<Rightarrow> Inr (int ix, rng1)
       | None \<Rightarrow> rbinom_small L fuel qn g r rng1)"

subsection \<open>The function\<close>

type_synonym 'a rbinom_drawn = "('a \<times> rbinom_statics \<times> rng) result"

definition rbinom_draw ::
  "clib \<Rightarrow> nat \<Rightarrow> double \<Rightarrow> int \<Rightarrow> rbinom_statics \<Rightarrow> rng \<Rightarrow> double rbinom_drawn" where
  \<comment> \<open>from \<open>n = (int) r\<close> on\<close>
  "rbinom_draw L fuel pp n st rng =
     (let p = dmin pp (1 - pp); q = 1 - p; np = double_of_int n * p; r = p / q in
      plfit_check (int_arith (n + 1)) (\<lambda>n1.
      let g = r * double_of_int n1 in
      plfit_check (rbinom_setup L pp n p q np st) (\<lambda>st'.
      plfit_check (if np < lit 30 then rbinom_small L fuel (b_qn st') g r rng
                   else rbinom_large L fuel st' n p q g r rng) (\<lambda>(ix, rng').
      plfit_check (if lit 0.5 < psave st' then int_arith (n - ix) else Inr ix) (\<lambda>ix'.
        Inr (double_of_int ix', st', rng'))))))"

definition plfit_rbinom ::
  "clib \<Rightarrow> nat \<Rightarrow> double \<Rightarrow> double \<Rightarrow> rbinom_statics \<Rightarrow> rng \<Rightarrow> double rbinom_drawn" where
  "plfit_rbinom L fuel nin pp st rng =
     (let r = dfloor (nin + lit 0.5) in
      if \<not> isfinite nin then Inr (NaN, st, rng)
      else if \<not> deq r nin then Inr (NaN, st, rng)
      else if \<not> isfinite pp \<or> r < 0 \<or> pp < 0 \<or> 1 < pp then Inr (NaN, st, rng)
      else if deq r 0 \<or> deq pp 0 then Inr (0, st, rng)
      else if deq pp 1 then Inr (r, st, rng)
      else plfit_check (cast_int r) (\<lambda>n. rbinom_draw L fuel pp n st rng))"

subsection \<open>The cached set-up\<close>

text \<open>
  A cache is valid when it is fresh, or holds what the set-up computes for the arguments it is
  labelled with.
\<close>

definition same_setup :: "rbinom_statics \<Rightarrow> rbinom_statics \<Rightarrow> double \<Rightarrow> bool" where
  \<comment> \<open>agreement on the variables that the branch for \<open>np\<close> reads\<close>
  "same_setup st st' np \<longleftrightarrow> psave st = psave st' \<and> nsave st = nsave st' \<and>
     (if np < lit 30 then b_qn st = b_qn st' else st\<lparr>b_qn := b_qn st'\<rparr> = st')"

definition cache_ok :: "clib \<Rightarrow> rbinom_statics \<Rightarrow> bool" where
  "cache_ok L st \<longleftrightarrow> psave st = - 1 \<or>
     (let pp = psave st; p = dmin pp (1 - pp); q = 1 - p; np = double_of_int (nsave st) * p in
      \<exists>st'. rbinom_setup L pp (nsave st) p q np rbinom_initial = Inr st' \<and> same_setup st st' np)"

lemma rbinom_setup_large_result:
  assumes "rbinom_setup_large L p q np st = Inr st'" "psave s = psave st" "nsave s = nsave st"
  shows "rbinom_setup_large L p q np s = Inr (st'\<lparr>b_qn := b_qn s\<rparr>)"
  using assms by (auto simp: rbinom_setup_large_def Let_def plfit_check_eq_Inr)

lemma rbinom_setup_large_error:
  "rbinom_setup_large L p q np st = Inl e \<Longrightarrow> rbinom_setup_large L p q np s = Inl e"
  by (auto simp: rbinom_setup_large_def Let_def plfit_check_eq_Inl)

lemma rbinom_setup_large_labels:
  "rbinom_setup_large L p q np st = Inr st' \<Longrightarrow> psave st' = psave st \<and> nsave st' = nsave st"
  by (auto simp: rbinom_setup_large_def Let_def plfit_check_eq_Inr)

lemma rbinom_setup_labels:
  "rbinom_setup L pp n p q np st = Inr st' \<Longrightarrow> pp \<noteq> 0 \<Longrightarrow> pp \<noteq> NegZero \<Longrightarrow> psave st' = pp \<and> nsave st' = n"
proof -
  have eq: "deq pp x \<Longrightarrow> pp \<noteq> 0 \<Longrightarrow> pp \<noteq> NegZero \<Longrightarrow> x = pp" for x
    by (cases pp; cases x) (auto simp: deq_iff zero_double_def)
  show "rbinom_setup L pp n p q np st = Inr st' \<Longrightarrow> pp \<noteq> 0 \<Longrightarrow> pp \<noteq> NegZero \<Longrightarrow> psave st' = pp \<and> nsave st' = n"
    using rbinom_setup_large_labels [of L p q np "st\<lparr>psave := pp, nsave := n\<rparr>" st']
    by (auto simp: rbinom_setup_def Let_def split: if_splits dest: eq)
qed

lemma rbinom_accept_qn: "rbinom_accept L (st\<lparr>b_qn := a\<rparr>) n p q g r ix v = rbinom_accept L st n p q g r ix v"
  by (simp add: rbinom_accept_def cong: if_cong)

lemma rbinom_large_qn: "rbinom_large L fuel (st\<lparr>b_qn := a\<rparr>) n p q g r rng = rbinom_large L fuel st n p q g r rng"
proof -
  have "rbinom_choose L (st\<lparr>b_qn := a\<rparr>) n p q g r u v = rbinom_choose L st n p q g r u v" for u v
    by (simp add: rbinom_choose_def rbinom_accept_qn cong: if_cong)
  then show ?thesis
    by (induction fuel arbitrary: rng)
      (auto intro!: plfit_check_cong simp: split_beta split: rbinom_step.split)
qed

text \<open>Running the set-up on a valid cache is as good as running it on a fresh one.\<close>

lemma rbinom_setup_cases:
  assumes cache: "cache_ok L st" and pp: "0 < pp"
    and p: "p = dmin pp (1 - pp)" "q = 1 - p" "np = double_of_int n * p"
  shows "(\<exists>s s'. rbinom_setup L pp n p q np st = Inr s \<and> rbinom_setup L pp n p q np rbinom_initial = Inr s' \<and>
      same_setup s s' np) \<or>
    (\<exists>e. rbinom_setup L pp n p q np st = Inl e \<and> rbinom_setup L pp n p q np rbinom_initial = Inl e)"
proof -
  have m1: "- (1 :: double) = Fin (- 1)" by (simp add: one_double_def dbl)
  have fresh: "\<not> deq pp (psave rbinom_initial)"
    using pp by (cases pp) (auto simp: rbinom_initial_def m1 deq_iff)
  show ?thesis
  proof (cases "deq pp (psave st) \<and> n = nsave st")
    case True
    then have "psave st = pp" using pp by (cases pp; cases "psave st") (auto simp: deq_iff)
    moreover have "pp \<noteq> - 1" using pp by (auto simp: m1)
    ultimately show ?thesis using cache True p by (auto simp: cache_ok_def Let_def rbinom_setup_def)
  next
    case False
    show ?thesis
    proof (cases "np < lit 30")
      case True
      with False fresh show ?thesis by (auto simp: rbinom_setup_def Let_def same_setup_def)
    next
      case large: False
      let ?s = "st\<lparr>psave := pp, nsave := n\<rparr>" and ?i = "rbinom_initial\<lparr>psave := pp, nsave := n\<rparr>"
      have e: "rbinom_setup L pp n p q np st = rbinom_setup_large L p q np ?s"
        "rbinom_setup L pp n p q np rbinom_initial = rbinom_setup_large L p q np ?i"
        using False fresh large by (auto simp: rbinom_setup_def Let_def)
      show ?thesis
      proof (cases "rbinom_setup_large L p q np ?s")
        case (Inl err)
        then show ?thesis using e rbinom_setup_large_error by metis
      next
        case (Inr s)
        have i: "rbinom_setup_large L p q np ?i = Inr (s\<lparr>b_qn := b_qn ?i\<rparr>)"
          by (rule rbinom_setup_large_result [OF Inr]) simp_all
        have "same_setup s (s\<lparr>b_qn := b_qn ?i\<rparr>) np" using large by (simp add: same_setup_def)
        then show ?thesis using Inr i unfolding e by blast
      qed
    qed
  qed
qed

lemma rbinom_draw_cached:
  assumes cache: "cache_ok L st" and pp: "0 < pp"
  shows "(\<exists>x s s' g. rbinom_draw L fuel pp n st rng = Inr (x, s, g) \<and> cache_ok L s \<and>
      rbinom_draw L fuel pp n rbinom_initial rng = Inr (x, s', g)) \<or>
    (\<exists>e. rbinom_draw L fuel pp n st rng = Inl e \<and> rbinom_draw L fuel pp n rbinom_initial rng = Inl e)"
proof -
  define p q np where "p = dmin pp (1 - pp)" and "q = 1 - p" and "np = double_of_int n * p"
  let ?run = "\<lambda>s. plfit_check (if np < lit 30 then rbinom_small L fuel (b_qn s) (p / q * double_of_int (n + 1)) (p / q) rng
      else rbinom_large L fuel s n p q (p / q * double_of_int (n + 1)) (p / q) rng)
    (\<lambda>(ix, rng'). plfit_check (if lit 0.5 < psave s then int_arith (n - ix) else Inr ix) (\<lambda>ix'. Inr (double_of_int ix', rng')))"
  have draw: "rbinom_draw L fuel pp n s rng = plfit_check (int_arith (n + 1)) (\<lambda>_.
      plfit_check (rbinom_setup L pp n p q np s) (\<lambda>s'. plfit_check (?run s') (\<lambda>(x, g). Inr (x, s', g))))" for s
    by (auto simp: rbinom_draw_def p_def q_def np_def Let_def int_arith_def plfit_check_assoc split_beta
        intro!: plfit_check_cong)
  have nz: "pp \<noteq> 0" "pp \<noteq> NegZero" using pp by auto
  show ?thesis
    using rbinom_setup_cases [OF cache pp p_def q_def np_def]
  proof (elim disjE exE conjE)
    fix s s' assume s: "rbinom_setup L pp n p q np st = Inr s" "rbinom_setup L pp n p q np rbinom_initial = Inr s'"
      and same: "same_setup s s' np"
    have "psave s = pp" "nsave s = n" using rbinom_setup_labels [OF s(1) nz] by auto
    then have "cache_ok L s"
      using s(2) same by (simp add: cache_ok_def Let_def p_def [symmetric] q_def [symmetric] np_def [symmetric])
    moreover have "?run s = ?run s'"
      using same rbinom_large_qn [where st = s and a = "b_qn s'"] by (auto simp: same_setup_def)
    ultimately show ?thesis
      unfolding draw s plfit_check_simps by (cases "int_arith (n + 1)"; cases "?run s'") auto
  next
    fix e assume "rbinom_setup L pp n p q np st = Inl e" "rbinom_setup L pp n p q np rbinom_initial = Inl e"
    then show ?thesis unfolding draw by (cases "int_arith (n + 1)") auto
  qed
qed

text \<open>
  C30. The variables that \<open>plfit_rbinom\<close> caches between calls are invisible: with any cache that
  earlier calls can have left behind it returns the same variate and leaves the generator in the
  same state as a first call would, and what it leaves behind is again such a cache.
\<close>

theorem plfit_rbinom_cache_transparent:
  assumes "cache_ok L st"
  shows "(\<exists>x s s' g. plfit_rbinom L fuel nin pp st rng = Inr (x, s, g) \<and> cache_ok L s \<and>
      plfit_rbinom L fuel nin pp rbinom_initial rng = Inr (x, s', g)) \<or>
    (\<exists>e. plfit_rbinom L fuel nin pp st rng = Inl e \<and> plfit_rbinom L fuel nin pp rbinom_initial rng = Inl e)"
proof (cases "isfinite nin \<and> deq (dfloor (nin + lit 0.5)) nin \<and> isfinite pp \<and>
    \<not> dfloor (nin + lit 0.5) < 0 \<and> \<not> pp < 0 \<and> \<not> 1 < pp \<and>
    \<not> deq (dfloor (nin + lit 0.5)) 0 \<and> \<not> deq pp 0 \<and> \<not> deq pp 1")
  case True
  then have "0 < pp" by (cases pp) (auto simp: deq_iff)
  from rbinom_draw_cached [OF assms this] True show ?thesis
    by (cases "cast_int (dfloor (nin + lit 0.5))") (auto simp: plfit_rbinom_def Let_def)
next
  case False
  then show ?thesis using assms by (auto simp: plfit_rbinom_def Let_def)
qed

lemma cache_ok_initial [simp]: "cache_ok L rbinom_initial"
  by (simp add: cache_ok_def rbinom_initial_def)

theorem plfit_rbinom_cache_transparent_witness:
  "((\<exists>x s g. plfit_rbinom plain_clib 9 (Fin 4) (Fin (1 / 4)) rbinom_initial (Builtin 3) = Inr (x, s, g) \<and> cache_ok plain_clib s) \<or>
    (\<exists>e. plfit_rbinom plain_clib 9 (Fin 4) (Fin (1 / 4)) rbinom_initial (Builtin 3) = Inl e)) \<and>
   (case plfit_rbinom plain_clib 9 (Fin 4) (Fin (1 / 4)) rbinom_initial (Builtin 3) of
     Inl e \<Rightarrow> True
   | Inr (_, st, g0) \<Rightarrow>
      (\<exists>x s s' g. plfit_rbinom plain_clib 9 (Fin 4) (Fin (1 / 4)) st g0 = Inr (x, s, g) \<and> cache_ok plain_clib s \<and>
        plfit_rbinom plain_clib 9 (Fin 4) (Fin (1 / 4)) rbinom_initial g0 = Inr (x, s', g)) \<or>
      (\<exists>e. plfit_rbinom plain_clib 9 (Fin 4) (Fin (1 / 4)) st g0 = Inl e \<and>
        plfit_rbinom plain_clib 9 (Fin 4) (Fin (1 / 4)) rbinom_initial g0 = Inl e))"
proof -
  note first = plfit_rbinom_cache_transparent [of plain_clib rbinom_initial 9 "Fin 4" "Fin (1 / 4)" "Builtin 3"]
  have "cache_ok plain_clib st"
    if "plfit_rbinom plain_clib 9 (Fin 4) (Fin (1 / 4)) rbinom_initial (Builtin 3) = Inr (x, st, g0)" for x st g0
    using first that by auto
  from first plfit_rbinom_cache_transparent [OF this] show ?thesis
    by (cases "plfit_rbinom plain_clib 9 (Fin 4) (Fin (1 / 4)) rbinom_initial (Builtin 3)") (auto split: prod.split)
qed

subsection \<open>The generator stays valid\<close>

lemma rbinom_large_rng:
  "rbinom_large L fuel st n p q g r rng = Inr (ix, rng') \<Longrightarrow> rng_ok L rng \<Longrightarrow> rng_ok L rng'"
proof (induction fuel arbitrary: rng)
  case (Suc fuel)
  then obtain u rng1 v rng2 step where d: "plfit_runif_01 L rng = Inr (u, rng1)" "plfit_runif_01 L rng1 = Inr (v, rng2)"
    "(case step of Finis i \<Rightarrow> Inr (i, rng2) | Retry \<Rightarrow> rbinom_large L fuel st n p q g r rng2) = Inr (ix, rng')"
    by (auto simp: plfit_check_eq_Inr)
  have "rng_ok L rng2"
    using runif.draw_range(4) [OF d(2) runif.draw_range(4) [OF d(1) Suc.prems(2)]] .
  with d(3) Suc.IH show ?case by (cases step) auto
qed simp

lemma rbinom_small_rng:
  "rbinom_small L fuel qn g r rng = Inr (ix, rng') \<Longrightarrow> rng_ok L rng \<Longrightarrow> rng_ok L rng'"
  by (induction fuel arbitrary: rng)
    (auto simp: plfit_check_eq_Inr split: option.splits dest!: runif.draw_range(4))

lemma plfit_rbinom_rng:
  "plfit_rbinom L fuel nin pp st rng = Inr (x, st', rng') \<Longrightarrow> rng_ok L rng \<Longrightarrow> rng_ok L rng'"
  by (auto simp: plfit_rbinom_def rbinom_draw_def Let_def plfit_check_eq_Inr split: if_splits
      dest: rbinom_small_rng rbinom_large_rng)

lemma plfit_rbinom_zero:
  assumes "plfit_rbinom L fuel nin pp st rng = Inr (x, st', rng')" "deq pp 0"
  shows "x = 0 \<or> x = NaN"
proof -
  have "pp \<noteq> NaN" using assms(2) by (auto simp: deq_iff)
  with assms show ?thesis by (auto simp: plfit_rbinom_def Let_def split: if_splits)
qed

end
