(* ===== verification/Resample.thy ===== *)
theory Resample
  imports Rbinom Arrays
begin

text \<open>
  The resampling routines of \<open>src/plfit.c\<close>: a synthetic data set takes a binomial number of
  points from the part of the data below \<open>xmin\<close> and the rest from the fitted distribution. What
  is threaded through is the cache of \<open>plfit_rbinom\<close> and the generator. The result is the
  returned code (\<open>None\<close> for \<open>PLFIT_SUCCESS\<close>) and what was written into the output array; a
  write past its \<open>num_samples\<close> elements is undefined.
\<close>

type_synonym env = "rbinom_statics \<times> rng"

type_synonym resampled = "(plfit_errno option \<times> double list \<times> env) result"

fun resample_head :: "clib \<Rightarrow> double list \<Rightarrow> nat \<Rightarrow> nat \<Rightarrow> rng \<Rightarrow> double list drawn" where
  \<comment> \<open>the draws from \<open>xs_head\<close>, with replacement\<close>
  "resample_head L xs_head num_smaller 0 rng = Inr ([], rng)"
| "resample_head L xs_head num_smaller (Suc k) rng =
     plfit_check (plfit_runif L 0 (double_of_nat num_smaller) rng) (\<lambda>(u, rng1).
     plfit_check (cast_size u) (\<lambda>i.
     plfit_check (array_get xs_head i) (\<lambda>x.
     plfit_check (resample_head L xs_head num_smaller k rng1) (\<lambda>(ys, rng2).
     Inr (x # ys, rng2)))))"

text \<open>The head is followed by the samples of a function that returns a code.\<close>

definition resample_tail ::
  "double list \<Rightarrow> rbinom_statics \<Rightarrow> rng \<Rightarrow> double list drawn \<Rightarrow> resampled" where
  "resample_tail ys st rng tail =
     (case tail of
        Inl (Err e) \<Rightarrow> Inr (Some e, ys, st, rng)
      | Inl s \<Rightarrow> Inl s
      | Inr (zs, rng') \<Rightarrow> Inr (None, ys @ zs, st, rng'))"

definition resample_split ::
  "clib \<Rightarrow> nat \<Rightarrow> double list \<Rightarrow> nat \<Rightarrow> nat \<Rightarrow> nat \<Rightarrow> env \<Rightarrow> (nat \<Rightarrow> rng \<Rightarrow> double list drawn) \<Rightarrow> resampled" where
  \<comment> \<open>what both routines share; \<open>tail\<close> draws the remaining samples\<close>
  "resample_split L fuel xs_head num_smaller n num_samples e tail =
     (case e of (st, rng) \<Rightarrow>
      plfit_check (plfit_rbinom L fuel (double_of_nat num_samples)
        (double_of_nat num_smaller / double_of_nat n) st rng) (\<lambda>(k, st1, rng1).
      plfit_check (cast_size k) (\<lambda>num_orig_samples.
      if num_samples < num_orig_samples then Inl Undefined
      else plfit_check (resample_head L xs_head num_smaller num_orig_samples rng1) (\<lambda>(ys, rng2).
        resample_tail ys st1 rng2 (tail (num_samples - num_orig_samples) rng2)))))"

definition plfit_i_resample_continuous ::
  "clib \<Rightarrow> nat \<Rightarrow> double list \<Rightarrow> nat \<Rightarrow> nat \<Rightarrow> double \<Rightarrow> double \<Rightarrow> nat \<Rightarrow> env \<Rightarrow> resampled" where
  "plfit_i_resample_continuous L fuel xs_head num_smaller n alpha xmin num_samples e =
     resample_split L fuel xs_head num_smaller n num_samples e
       (\<lambda>k rng. plfit_rpareto_array L xmin (alpha - 1) k False rng)"

definition plfit_resample_continuous ::
  "clib \<Rightarrow> nat \<Rightarrow> double list \<Rightarrow> double \<Rightarrow> double \<Rightarrow> nat \<Rightarrow> env \<Rightarrow> resampled" where
  "plfit_resample_continuous L fuel xs alpha xmin num_samples e =
     plfit_check (extract_smaller L xs xmin) (\<lambda>(xs_head, num_smaller).
       plfit_i_resample_continuous L fuel xs_head num_smaller (length xs) alpha xmin num_samples e)"

definition plfit_i_resample_discrete ::
  "clib \<Rightarrow> nat \<Rightarrow> double list \<Rightarrow> nat \<Rightarrow> nat \<Rightarrow> double \<Rightarrow> double \<Rightarrow> nat \<Rightarrow> env \<Rightarrow> resampled" where
  "plfit_i_resample_discrete L fuel xs_head num_smaller n alpha xmin num_samples e =
     resample_split L fuel xs_head num_smaller n num_samples e
       (\<lambda>k rng. plfit_check (cast_long xmin) (\<lambda>m. plfit_rzeta_array L fuel m alpha k False rng))"

definition plfit_resample_discrete ::
  "clib \<Rightarrow> nat \<Rightarrow> double list \<Rightarrow> double \<Rightarrow> double \<Rightarrow> nat \<Rightarrow> env \<Rightarrow> resampled" where
  "plfit_resample_discrete L fuel xs alpha xmin num_samples e =
     plfit_check (extract_smaller L xs xmin) (\<lambda>(xs_head, num_smaller).
       plfit_i_resample_discrete L fuel xs_head num_smaller (length xs) alpha xmin num_samples e)"

subsection \<open>The shape of a synthetic data set\<close>

lemma resample_head_values:
  "resample_head L xs_head m k rng = Inr (ys, rng') \<Longrightarrow> length ys = k \<and> (\<forall>y \<in> set ys. y \<in> set xs_head)"
proof (induction k arbitrary: rng ys)
  case (Suc k)
  then obtain i rng1 zs where i: "i < length xs_head" "ys = xs_head ! i # zs"
    and z: "resample_head L xs_head m k rng1 = Inr (zs, rng')"
    by (auto simp: plfit_check_eq_Inr array_get_eq_Inr split: prod.splits)
  from Suc.IH [OF z] i show ?case by simp
qed simp

lemma resample_head_rng:
  "resample_head L xs_head m k rng = Inr (ys, rng') \<Longrightarrow> rng_ok L rng \<Longrightarrow> rng_ok L rng'"
proof (induction k arbitrary: rng ys)
  case (Suc k)
  then obtain u rng1 zs where u: "plfit_runif L 0 (double_of_nat m) rng = Inr (u, rng1)"
    and z: "resample_head L xs_head m k rng1 = Inr (zs, rng')"
    by (auto simp: plfit_check_eq_Inr split: prod.splits)
  from plfit_runif_rng [OF u Suc.prems(2)] Suc.IH [OF z] show ?case by blast
qed simp

lemma cast_size_zero: "cast_size 0 = Inr 0" "\<not> cast_size NaN = Inr k"
  by (simp_all add: cast_size_def cast_range_def trunc_rat_def)

lemma zero_over_nat: "deq (double_of_nat 0 / double_of_nat n) 0 \<or> double_of_nat 0 / double_of_nat n = NaN"
proof -
  have "0 \<le> double_of_nat n" by simp
  then show ?thesis
    by (cases "double_of_nat n") (auto simp: divide_double_def ddiv_def zero_double_def deq_iff to_double_0)
qed

lemma plfit_rbinom_nan:
  "plfit_rbinom L fuel nin NaN st rng = Inr (x, st', rng') \<Longrightarrow> x = NaN"
  by (auto simp: plfit_rbinom_def Let_def split: if_splits)

lemma resample_split_values:
  assumes "resample_split L fuel xs_head m n num_samples (st, rng) tail = Inr (None, ys, e')" "rng_ok L rng"
  obtains k zs ts rng1 rng2 where "k \<le> num_samples" "ys = zs @ ts" "length zs = k"
    "\<forall>z \<in> set zs. z \<in> set xs_head" "tail (num_samples - k) rng1 = Inr (ts, rng2)" "rng_ok L rng1"
    "m = 0 \<Longrightarrow> k = 0"
proof -
  obtain kd st1 rng1 k zs rng2 where r:
    "plfit_rbinom L fuel (double_of_nat num_samples) (double_of_nat m / double_of_nat n) st rng = Inr (kd, st1, rng1)"
    "cast_size kd = Inr k" "\<not> num_samples < k" "resample_head L xs_head m k rng1 = Inr (zs, rng2)"
    "resample_tail zs st1 rng2 (tail (num_samples - k) rng2) = Inr (None, ys, e')"
    using assms by (auto simp: resample_split_def plfit_check_eq_Inr split: if_splits)
  obtain ts rng3 where t: "tail (num_samples - k) rng2 = Inr (ts, rng3)" "ys = zs @ ts"
    using r(5) by (auto simp: resample_tail_def split: sum.splits stop.splits)
  have "rng_ok L rng2"
    using plfit_rbinom_rng [OF r(1) assms(2)] resample_head_rng [OF r(4)] by simp
  moreover have "k = 0" if "m = 0"
  proof -
    from zero_over_nat [of n] have "kd = 0 \<or> kd = NaN"
    proof
      assume "deq (double_of_nat 0 / double_of_nat n) 0"
      then show ?thesis using plfit_rbinom_zero [OF r(1)] that by simp
    next
      assume "double_of_nat 0 / double_of_nat n = NaN"
      then have "plfit_rbinom L fuel (double_of_nat num_samples) NaN st rng = Inr (kd, st1, rng1)" using r(1) that by simp
      then show ?thesis using plfit_rbinom_nan by blast
    qed
    with r(2) cast_size_zero show ?thesis by auto
  qed
  ultimately show ?thesis
    using r t resample_head_values [OF r(4)] by (intro that [of k zs ts rng2 rng3]) auto
qed

lemma extract_smaller_values:
  assumes "extract_smaller L xs xmin = Inr (xs_head, m)" "m \<noteq> 0"
  shows "y \<in> set xs_head \<Longrightarrow> y \<in> set xs \<and> y < xmin"
  using assms by (auto simp: extract_smaller_eq Let_def split: if_splits)

text \<open>
  A synthetic data set for a continuous fit that was drawn successfully has as many points
  as were asked for, and each of them either is a point of the data below \<open>xmin\<close> or is at least
  \<open>xmin\<close>.
\<close>

theorem plfit_resample_continuous_values:
  assumes ok: "rng_ok L rng" "pow_ge_one L" "is_double xmin" "\<not> isnan xmin" "\<not> isnan (alpha - 1)"
    and run: "plfit_resample_continuous L fuel xs alpha xmin num_samples (st, rng) = Inr (None, ys, e)"
  shows "length ys = num_samples \<and> (\<forall>y \<in> set ys. (y \<in> set xs \<and> y < xmin) \<or> xmin \<le> y)"
proof -
  obtain xs_head m where h: "extract_smaller L xs xmin = Inr (xs_head, m)"
    and r: "resample_split L fuel xs_head m (length xs) num_samples (st, rng)
      (\<lambda>k rng. plfit_rpareto_array L xmin (alpha - 1) k False rng) = Inr (None, ys, e)"
    using run by (auto simp: plfit_resample_continuous_def plfit_i_resample_continuous_def plfit_check_eq_Inr)
  from r ok(1) obtain k zs ts rng1 rng2 where k: "k \<le> num_samples" "ys = zs @ ts" "length zs = k"
    "\<forall>z \<in> set zs. z \<in> set xs_head" "plfit_rpareto_array L xmin (alpha - 1) (num_samples - k) False rng1 = Inr (ts, rng2)"
    "rng_ok L rng1" "m = 0 \<Longrightarrow> k = 0"
    by (rule resample_split_values) blast
  have "length ts = num_samples - k \<and> (\<forall>y \<in> set ts. xmin \<le> y)"
    using rpareto_array_values [OF k(5,6) ok(2-5)] .
  moreover have "z \<in> set xs \<and> z < xmin" if "z \<in> set zs" for z
    using that k extract_smaller_values [OF h] by (cases "m = 0") auto
  ultimately show ?thesis using k by auto
qed

lemma resample_example:
  "plfit_resample_continuous zero_clib 1 [Fin 5, Fin 7] (Fin 3) (Fin 2) 2 (rbinom_initial, Builtin 0) =
     Inr (None, [Fin 2, Fin 2], rbinom_initial, Builtin 0)"
proof -
  have a: "extract_smaller zero_clib [Fin 5, Fin 7] (Fin 2) = Inr ([0], 0)"
    by (simp add: extract_smaller_eq zero_clib_def plain_clib_def)
  have n: "double_of_nat 2 = Fin 2" "double_of_nat 0 / Fin 2 = Fin 0" "dfloor (Fin 2 + lit 0.5) = Fin 2"
    "cast_size 0 = Inr 0" "\<not> Fin 3 - 1 \<le> 0" "1 * Fin 2 = Fin 2"
    by code_simp+
  have r: "plfit_rbinom zero_clib 1 (Fin 2) (Fin 0) rbinom_initial (Builtin 0) = Inr (0, rbinom_initial, Builtin 0)"
    unfolding plfit_rbinom_def n(3) Let_def by (simp add: deq_iff zero_double_def one_double_def)
  have c: "plfit_rpareto_array zero_clib (Fin 2) (Fin 3 - 1) 2 False (Builtin 0) = Inr ([Fin 2, Fin 2], Builtin 0)"
    using n by (simp add: plfit_rpareto_array_def eval_nat_numeral zero_clib_draws) (simp add: zero_clib_def plain_clib_def)
  have l: "length [Fin 5, Fin 7] = 2" by simp
  show ?thesis
    unfolding plfit_resample_continuous_def a plfit_i_resample_continuous_def resample_split_def plfit_check_simps
      prod.case l n(1,2) r n(4) using c by (simp add: resample_tail_def)
qed

theorem plfit_resample_continuous_values_witness:
  "plfit_resample_continuous zero_clib 1 [Fin 5, Fin 7] (Fin 3) (Fin 2) 2 (rbinom_initial, Builtin 0) =
     Inr (None, [Fin 2, Fin 2], rbinom_initial, Builtin 0) \<and> length [Fin 2, Fin 2] = 2 \<and>
   (Fin 2 \<in> set [Fin 5, Fin 7] \<and> Fin 2 < Fin 2 \<or> Fin 2 \<le> Fin 2)"
proof -
  have "length [Fin 2, Fin 2] = 2 \<and> (\<forall>y \<in> set [Fin 2, Fin 2]. (y \<in> set [Fin 5, Fin 7] \<and> y < Fin 2) \<or> Fin 2 \<le> y)"
  proof (rule plfit_resample_continuous_values [OF zero_clib_draws(1,3) _ _ _ resample_example])
    show "is_double (Fin 2)" "\<not> isnan (Fin 2)" "\<not> isnan (Fin 3 - 1)" using representable_int [of 2]
      by (simp_all add: is_double_Fin one_double_def dbl)
  qed
  then show ?thesis using resample_example by simp
qed

end
