(* ===== verification/Continuous.thy ===== *)
theory Continuous
  imports Resample Kolmogorov Gss
begin

text \<open>
  Fitting a continuous power law, \<open>src/plfit.c\<close>: the maximum likelihood estimate of the
  exponent for a fixed \<open>xmin\<close>, the Kolmogorov-Smirnov distance of the fit, the log-likelihood,
  and the search for the \<open>xmin\<close> with the least distance. The data are the list of the
  elements between the pointers \<open>begin\<close> and \<open>end\<close>. The p-value, which repeats the fit on
  synthetic data, is in the theory \<open>Continuous_P\<close>.
\<close>

definition plfit_i_perform_finite_size_correction :: "plfit_result_t \<Rightarrow> nat \<Rightarrow> plfit_result_t" where
  \<comment> \<open>\<open>n - 1\<close> wraps around in \<open>size_t\<close>\<close>
  "plfit_i_perform_finite_size_correction result n =
     result\<lparr>res_alpha := res_alpha result * double_of_nat ((n + (2 ^ 64 - 1)) mod 2 ^ 64) / double_of_nat n
       + 1 / double_of_nat n\<rparr>"

definition plfit_i_logsum_less_than_continuous :: "clib \<Rightarrow> double list \<Rightarrow> double \<Rightarrow> double \<times> nat" where
  "plfit_i_logsum_less_than_continuous L xs xmin =
     fold (\<lambda>x (logsum, count).
       if xmin \<le> x then (logsum + c_log L (x / xmin), count + 1) else (logsum, count)) xs (0, 0)"

definition plfit_i_logsum_continuous :: "clib \<Rightarrow> double list \<Rightarrow> double \<Rightarrow> double" where
  "plfit_i_logsum_continuous L xs xmin = fold (\<lambda>x logsum. logsum + c_log L (x / xmin)) xs 0"

definition plfit_i_estimate_alpha_continuous :: "clib \<Rightarrow> double list \<Rightarrow> double \<Rightarrow> double result" where
  "plfit_i_estimate_alpha_continuous L xs xmin =
     (if xmin \<le> 0 then plfit_fail PLFIT_EINVAL
      else case plfit_i_logsum_less_than_continuous L xs xmin of (res, m) \<Rightarrow>
        if m = 0 then plfit_fail PLFIT_EINVAL else Inr (1 + double_of_nat m / res))"

definition plfit_i_estimate_alpha_continuous_sorted :: "clib \<Rightarrow> double list \<Rightarrow> double \<Rightarrow> double result" where
  "plfit_i_estimate_alpha_continuous_sorted L xs xmin =
     (if xmin \<le> 0 then plfit_fail PLFIT_EINVAL
      else let xs = dropWhile (\<lambda>x. x < xmin) xs in
        if xs = [] then plfit_fail PLFIT_EINVAL
        else Inr (1 + double_of_nat (length xs) / plfit_i_logsum_continuous L xs xmin))"

definition ks_distance_continuous :: "clib \<Rightarrow> double \<Rightarrow> double \<Rightarrow> double \<Rightarrow> nat \<Rightarrow> double \<Rightarrow> double" where
  "ks_distance_continuous L alpha xmin n m x =
     \<bar>1 - c_pow L (xmin / x) (alpha - 1) - double_of_nat m / n\<bar>"

definition plfit_i_ks_test_continuous :: "clib \<Rightarrow> double list \<Rightarrow> double \<Rightarrow> double \<Rightarrow> double" where
  "plfit_i_ks_test_continuous L xs alpha xmin =
     (let n = double_of_nat (length xs) in
      fst (fold (\<lambda>x (res, m).
        let d = ks_distance_continuous L alpha xmin n m x in (if res < d then d else res, m + 1)) xs (0, 0)))"

definition plfit_log_likelihood_continuous :: "clib \<Rightarrow> double list \<Rightarrow> double \<Rightarrow> double \<Rightarrow> double result" where
  "plfit_log_likelihood_continuous L xs alpha xmin =
     (if alpha \<le> 1 then plfit_fail PLFIT_EINVAL
      else if xmin \<le> 0 then plfit_fail PLFIT_EINVAL
      else let c = (alpha - 1) / xmin in
        case plfit_i_logsum_less_than_continuous L xs xmin of (logsum, m) \<Rightarrow>
          Inr (- alpha * logsum + c_log L c * double_of_nat m))"

text \<open>
  What a fit reports: the whole result, or an error code together with the distance that is in
  the caller's result structure by then (\<open>None\<close> when the call left it alone). The p-value of a
  fit is computed from the distances of fits that may fail in this way.
\<close>

datatype fit_report = Fitted plfit_result_t | Failed plfit_errno "double option"

definition report_check :: "'a result \<Rightarrow> double option \<Rightarrow> ('a \<Rightarrow> fit_report result) \<Rightarrow> fit_report result" where
  \<comment> \<open>\<open>PLFIT_CHECK\<close> in a function that has written \<open>D\<close> so far\<close>
  "report_check r D k =
     (case r of Inl (Err e) \<Rightarrow> Inr (Failed e D) | Inl s \<Rightarrow> Inl s | Inr x \<Rightarrow> k x)"

definition estimate_sorted_core ::
  "clib \<Rightarrow> plfit_continuous_options_t \<Rightarrow> double list \<Rightarrow> double \<Rightarrow> fit_report result" where
  \<comment> \<open>\<open>plfit_estimate_alpha_continuous_sorted\<close> up to the p-value\<close>
  "estimate_sorted_core L options xs xmin =
     (let xs = dropWhile (\<lambda>x. x < xmin) xs in
      report_check (plfit_i_estimate_alpha_continuous_sorted L xs xmin) None (\<lambda>alpha.
      let D = plfit_i_ks_test_continuous L xs alpha xmin;
          r0 = \<lparr>res_alpha = alpha, res_xmin = xmin, res_L = NaN, res_D = D, res_p = NaN\<rparr>;
          r1 = (if co_finite_size_correction options
                then plfit_i_perform_finite_size_correction r0 (length xs) else r0)
      in report_check (plfit_log_likelihood_continuous L xs (res_alpha r1) xmin) (Some D) (\<lambda>l.
         Inr (Fitted (r1\<lparr>res_L := l\<rparr>)))))"

definition estimate_core ::
  "clib \<Rightarrow> plfit_continuous_options_t \<Rightarrow> double list \<Rightarrow> double \<Rightarrow> fit_report result" where
  "estimate_core L options xs xmin =
     report_check (plfit_i_copy_and_sort L xs) None (\<lambda>xs_copy. estimate_sorted_core L options xs_copy xmin)"

subsection \<open>Searching for \<open>xmin\<close>\<close>

text \<open>
  The data of the search. The pointers \<open>probes\<close> are offsets into the sorted data. The fields of
  \<open>last\<close> hold the last evaluation; \<open>last_alpha\<close> is \<open>None\<close> while it is not initialised, since
  an evaluation ignores the code of the estimate and then uses what is there.
\<close>

record plfit_continuous_xmin_opt_data_t =
  od_data :: "double list"
  od_probes :: "nat list"
  od_num_probes :: nat
  last_alpha :: "double option"
  last_xmin :: double
  last_D :: double

definition opt_evaluate_at ::
  "clib \<Rightarrow> plfit_continuous_xmin_opt_data_t \<Rightarrow> int \<Rightarrow> (double \<times> plfit_continuous_xmin_opt_data_t) result" where
  "opt_evaluate_at L data i =
     (if i < 0 then Inl Undefined
      else plfit_check (array_get (od_probes data) (nat i)) (\<lambda>off.
        plfit_check (array_get (od_data data) off) (\<lambda>xmin.
        let xs = drop off (od_data data) in
        plfit_check
          (case plfit_i_estimate_alpha_continuous_sorted L xs xmin of
             Inr alpha \<Rightarrow> Inr alpha
           | Inl (Err e) \<Rightarrow> (case last_alpha data of None \<Rightarrow> Inl Undefined | Some alpha \<Rightarrow> Inr alpha)
           | Inl s \<Rightarrow> Inl s) (\<lambda>alpha.
        let D = plfit_i_ks_test_continuous L xs alpha xmin in
        Inr (D, data\<lparr>last_alpha := Some alpha, last_xmin := xmin, last_D := D\<rparr>)))))"

definition plfit_i_continuous_xmin_opt_evaluate ::
  "clib \<Rightarrow> plfit_continuous_xmin_opt_data_t gss_evaluate_t" where
  "plfit_i_continuous_xmin_opt_evaluate L data x =
     plfit_check (cast_long x) (opt_evaluate_at L data)"

definition plfit_i_continuous_xmin_opt_progress :: "plfit_continuous_xmin_opt_data_t gss_progress_t" where
  "plfit_i_continuous_xmin_opt_progress data x fx m fm left right k =
     plfit_check (cast_int left) (\<lambda>l. plfit_check (cast_int right) (\<lambda>r. Inr (l = r, data)))"

definition last_result :: "plfit_continuous_xmin_opt_data_t \<Rightarrow> plfit_result_t" where
  "last_result data =
     \<lparr>res_alpha = (case last_alpha data of None \<Rightarrow> NaN | Some a \<Rightarrow> a), res_xmin = last_xmin data,
      res_L = NaN, res_D = last_D data, res_p = NaN\<rparr>"

definition no_best :: plfit_result_t where
  "no_best = \<lparr>res_alpha = 0, res_xmin = 0, res_L = NaN, res_D = DBL_MAX, res_p = NaN\<rparr>"

definition scan_step ::
  "clib \<Rightarrow> nat \<Rightarrow> plfit_continuous_xmin_opt_data_t \<times> plfit_result_t \<times> nat \<Rightarrow>
   (plfit_continuous_xmin_opt_data_t \<times> plfit_result_t \<times> nat) result" where
  "scan_step L i s =
     (case s of (data, best, best_n) \<Rightarrow>
        plfit_check (plfit_i_continuous_xmin_opt_evaluate L data (double_of_nat i)) (\<lambda>(D, data').
          if last_D data' < res_D best then
            plfit_check (array_get (od_probes data') i) (\<lambda>off.
              Inr (data', last_result data', length (od_data data') - off))
          else Inr (data', best, best_n)))"

definition plfit_i_continuous_xmin_opt_linear_scan ::
  "clib \<Rightarrow> plfit_continuous_xmin_opt_data_t \<Rightarrow> (plfit_result_t \<times> nat) result" where
  \<comment> \<open>without OpenMP: one thread, whose best result becomes the global one if it has a distance
     below \<open>DBL_MAX\<close>; \<open>num_probes - 1\<close> wraps around when there is no probe\<close>
  "plfit_i_continuous_xmin_opt_linear_scan L data =
     (if od_num_probes data = 0 then Inl Undefined
      else plfit_check (loop_res (scan_step L) [0..<od_num_probes data - 1] (data, no_best, 0))
        (\<lambda>(data', best, best_n). if res_D best < DBL_MAX then Inr (best, best_n) else Inr (no_best, 0)))"

text \<open>
  The three ways of searching. Each yields the best result and the number of points it covers;
  the golden section search yields \<open>None\<close> when it fails or is skipped, and always the data,
  whose last evaluation a later scan starts from.
\<close>

definition continuous_gss ::
  "clib \<Rightarrow> nat \<Rightarrow> plfit_continuous_xmin_opt_data_t \<Rightarrow>
   ((plfit_result_t \<times> nat) option \<times> plfit_continuous_xmin_opt_data_t) result" where
  "continuous_gss L fuel data =
     (if od_num_probes data \<le> 5 then Inr (None, data)
      else plfit_check
        (gss 0 (double_of_nat (od_num_probes data - 5)) (plfit_i_continuous_xmin_opt_evaluate L)
           (Some plfit_i_continuous_xmin_opt_progress) data (Some gss_defparam) fuel) (\<lambda>(st, s).
        case st of
          Gss_failure \<Rightarrow> Inr (None, g_instance s)
        | Gss_success \<Rightarrow>
            plfit_check (cast_int (g_min s)) (\<lambda>i.
            if i < 0 then Inl Undefined
            else plfit_check (array_get (od_probes data) (nat i)) (\<lambda>off.
              Inr (Some (last_result (g_instance s), length (od_data data) - off + 1), g_instance s)))))"

definition subdivision_length :: nat where "subdivision_length = 10"

definition continuous_stratified ::
  "clib \<Rightarrow> plfit_continuous_xmin_opt_data_t \<Rightarrow> (plfit_result_t \<times> nat) option result" where
  "continuous_stratified L data =
     (let us = od_probes data; num_uniques = od_num_probes data in
      if num_uniques < 50 then Inr None
      else let num_strata = num_uniques div subdivision_length in
        with_alloc L (num_strata * sizeof_pointer) (plfit_fail PLFIT_ENOMEM)
          (let strata = map (\<lambda>i. us ! (i * subdivision_length)) [0..<num_strata] in
           plfit_check (plfit_i_continuous_xmin_opt_linear_scan L
             (data\<lparr>od_probes := strata, od_num_probes := num_strata\<rparr>)) (\<lambda>(best, best_n).
           case List.find (\<lambda>i. deq (od_data data ! (strata ! i)) (res_xmin best)) [0..<num_strata] of
             None \<Rightarrow> Inr None
           | Some i \<Rightarrow>
              (let num_probes = (if i \<noteq> 0 then subdivision_length else 0)
                 + (if i \<noteq> num_strata - 1 then subdivision_length else 0) in
               if 0 < num_probes then
                 plfit_check (plfit_i_continuous_xmin_opt_linear_scan L
                   (data\<lparr>od_probes := drop (if 0 < i then (i - 1) * subdivision_length else 0) us,
                         od_num_probes := num_probes\<rparr>)) (\<lambda>r. Inr (Some r))
               else Inr None))))"

definition continuous_search ::
  "clib \<Rightarrow> nat \<Rightarrow> plfit_continuous_method_t \<Rightarrow> plfit_continuous_xmin_opt_data_t \<Rightarrow>
   (plfit_result_t \<times> nat) result" where
  "continuous_search L fuel xmin_method data =
     plfit_check
       (case xmin_method of
          PLFIT_GSS_OR_LINEAR \<Rightarrow> continuous_gss L fuel data
        | PLFIT_STRATIFIED_SAMPLING \<Rightarrow> plfit_check (continuous_stratified L data) (\<lambda>r. Inr (r, data))
        | PLFIT_LINEAR_ONLY \<Rightarrow> Inr (None, data)) (\<lambda>(found, data').
       case found of
         Some r \<Rightarrow> Inr r
       | None \<Rightarrow> plfit_i_continuous_xmin_opt_linear_scan L data')"

text \<open>The log-likelihood of the last \<open>best_n\<close> points, which may reach before the data.\<close>

definition log_likelihood_tail ::
  "clib \<Rightarrow> double list \<Rightarrow> nat \<Rightarrow> double \<Rightarrow> double \<Rightarrow> double result" where
  "log_likelihood_tail L data best_n alpha xmin =
     (if length data < best_n \<and> \<not> alpha \<le> 1 \<and> \<not> xmin \<le> 0 then Inl Undefined
      else plfit_log_likelihood_continuous L (drop (length data - best_n) data) alpha xmin)"

definition continuous_core ::
  "clib \<Rightarrow> nat \<Rightarrow> plfit_continuous_options_t \<Rightarrow> double list \<Rightarrow> fit_report result" where
  \<comment> \<open>\<open>plfit_continuous\<close> from the sorted copy of the data up to the p-value\<close>
  "continuous_core L fuel options data =
     report_check (unique_element_pointers L data) None (\<lambda>(res, num_uniques).
     report_check (continuous_search L fuel (co_xmin_method options)
       \<lparr>od_data = data, od_probes = List.map_filter id (take num_uniques res), od_num_probes = num_uniques,
        last_alpha = None, last_xmin = NaN, last_D = NaN\<rparr>) None (\<lambda>(best, best_n).
     let r = (if co_finite_size_correction options
              then plfit_i_perform_finite_size_correction best best_n else best) in
     report_check (log_likelihood_tail L data best_n (res_alpha r) (res_xmin r)) (Some (res_D r)) (\<lambda>l.
       Inr (Fitted (r\<lparr>res_L := l\<rparr>)))))"

definition fit_continuous ::
  "clib \<Rightarrow> nat \<Rightarrow> plfit_continuous_options_t \<Rightarrow> double list \<Rightarrow> fit_report result" where
  "fit_continuous L fuel options xs =
     (if xs = [] then Inr (Failed PLFIT_EINVAL None)
      else report_check (plfit_i_copy_and_sort L xs) None (continuous_core L fuel options))"

subsection \<open>The two estimators agree\<close>

lemma sorted_dropWhile_filter:
  assumes "sorted_doubles xs" "xmin \<noteq> NaN"
  shows "dropWhile (\<lambda>x. x < xmin) xs = filter (\<lambda>x. xmin \<le> x) xs"
  using assms(1)
proof (induction xs)
  case (Cons x xs)
  then have s: "sorted_doubles xs" "x \<noteq> NaN" and le: "\<forall>y \<in> set xs. x \<le> y"
    by (auto simp: sorted_doubles_def no_nan_def)
  show ?case
  proof (cases "x < xmin")
    case True
    then have "\<not> xmin \<le> x" by (simp add: dless_iff)
    with True Cons.IH [OF s(1)] show ?thesis by simp
  next
    case False
    then have "xmin \<le> x" using s(2) assms(2) dnot_less [of x xmin] by simp
    then have "\<forall>y \<in> set xs. xmin \<le> y" using le dle_trans by blast
    then have "filter (\<lambda>x. xmin \<le> x) xs = xs" by (simp add: filter_id_conv)
    with False \<open>xmin \<le> x\<close> show ?thesis by simp
  qed
qed simp

lemma logsum_less_than_eq:
  "plfit_i_logsum_less_than_continuous L xs xmin =
     (plfit_i_logsum_continuous L (filter (\<lambda>x. xmin \<le> x) xs) xmin, length (filter (\<lambda>x. xmin \<le> x) xs))"
proof -
  have "fold (\<lambda>x (logsum, count). if xmin \<le> x then (logsum + c_log L (x / xmin), count + 1) else (logsum, count)) xs (s, k) =
      (fold (\<lambda>x logsum. logsum + c_log L (x / xmin)) (filter (\<lambda>x. xmin \<le> x) xs) s,
       k + length (filter (\<lambda>x. xmin \<le> x) xs))" for s and k :: nat
    by (induction xs arbitrary: s k) auto
  then show ?thesis by (simp add: plfit_i_logsum_less_than_continuous_def plfit_i_logsum_continuous_def)
qed

text \<open>
  On sorted data the estimator that first skips to \<open>xmin\<close> and the one that tests every
  element return the same code and exactly the same double, for every logarithm function.
\<close>

theorem estimators_agree:
  assumes "sorted_doubles xs" "\<not> isnan xmin"
  shows "plfit_i_estimate_alpha_continuous_sorted L xs xmin = plfit_i_estimate_alpha_continuous L xs xmin"
  using sorted_dropWhile_filter [of xs xmin] assms
  by (simp add: plfit_i_estimate_alpha_continuous_sorted_def plfit_i_estimate_alpha_continuous_def
      logsum_less_than_eq Let_def)

theorem estimators_agree_witness:
  "plfit_i_estimate_alpha_continuous_sorted plain_clib [Fin 1, Fin 2, Fin 2, Fin 5] (Fin 2) =
    plfit_i_estimate_alpha_continuous plain_clib [Fin 1, Fin 2, Fin 2, Fin 5] (Fin 2)"
  by (rule estimators_agree) (simp_all add: sorted_doubles_def no_nan_def)

subsection \<open>The distance is the greatest gap\<close>

text \<open>A running maximum, with C's comparison: NaN is never taken.\<close>

lemma running_max:
  assumes "\<forall>d \<in> A. \<not> r < d" "r \<noteq> NaN"
  shows "\<forall>d \<in> insert x A. \<not> (if r < x then x else r) < d" "(if r < x then x else r) \<noteq> NaN"
proof -
  show "(if r < x then x else r) \<noteq> NaN" using assms(2) dless_not_nan [of r x] by auto
  show "\<forall>d \<in> insert x A. \<not> (if r < x then x else r) < d"
    using assms dless_trans [of r x] by auto
qed

definition ks_gaps :: "clib \<Rightarrow> double list \<Rightarrow> double \<Rightarrow> double \<Rightarrow> double list" where
  \<comment> \<open>the gap at every point, between the fit and the data\<close>
  "ks_gaps L xs alpha xmin =
     map (\<lambda>m. ks_distance_continuous L alpha xmin (double_of_nat (length xs)) m (xs ! m)) [0..<length xs]"

lemma ks_fold:
  "snd (fold (\<lambda>x (res, m). let d = g m x in (if res < d then d else res, Suc m)) xs (r, k)) = k + length xs"
  by (induction xs arbitrary: r k) (auto simp: Let_def)

lemma ks_fold_max:
  fixes g :: "nat \<Rightarrow> double \<Rightarrow> double"
  defines "f \<equiv> \<lambda>x (res, m). let d = g m x in (if res < d then d else res, Suc m)"
  shows "fst (fold f xs (0, 0)) \<noteq> NaN \<and> fst (fold f xs (0, 0)) \<in> insert 0 (set (map (\<lambda>m. g m (xs ! m)) [0..<length xs])) \<and>
    (\<forall>d \<in> insert 0 (set (map (\<lambda>m. g m (xs ! m)) [0..<length xs])). \<not> fst (fold f xs (0, 0)) < d)"
proof (induction xs rule: rev_induct)
  case Nil
  then show ?case by simp
next
  case (snoc x xs)
  let ?A = "insert 0 (set (map (\<lambda>m. g m (xs ! m)) [0..<length xs]))"
  obtain r k where rk: "fold f xs (0, 0) = (r, k)" by (cases "fold f xs (0, 0)")
  have k: "k = length xs" using ks_fold [of g xs 0 0] rk by (simp add: f_def)
  have e: "map (\<lambda>m. g m ((xs @ [x]) ! m)) [0..<length (xs @ [x])] = map (\<lambda>m. g m (xs ! m)) [0..<length xs] @ [g (length xs) x]"
    by (simp add: nth_append)
  have s: "fst (fold f (xs @ [x]) (0, 0)) = (if r < g (length xs) x then g (length xs) x else r)"
    using rk k by (simp add: f_def Let_def)
  have A: "\<forall>d \<in> ?A. \<not> r < d" "r \<noteq> NaN" "r \<in> ?A" using snoc.IH rk by simp_all
  have "insert 0 (set (map (\<lambda>m. g m ((xs @ [x]) ! m)) [0..<length (xs @ [x])])) = insert (g (length xs) x) ?A"
    unfolding e by auto
  then show ?case using running_max [OF A(1,2), of "g (length xs) x"] A(3) unfolding s by simp
qed

text \<open>
  C28. The distance computed by the Kolmogorov-Smirnov test of a continuous fit is never NaN; it
  is zero or the gap at one of the points, and it is not below zero nor below the gap at any
  point (gaps that are NaN are passed over).
\<close>

theorem plfit_i_ks_test_continuous_max:
  "plfit_i_ks_test_continuous L xs alpha xmin \<noteq> NaN \<and>
   plfit_i_ks_test_continuous L xs alpha xmin \<in> insert 0 (set (ks_gaps L xs alpha xmin)) \<and>
   (\<not> plfit_i_ks_test_continuous L xs alpha xmin < 0) \<and>
   (\<nexists>d. d \<in> set (ks_gaps L xs alpha xmin) \<and> plfit_i_ks_test_continuous L xs alpha xmin < d)"
  using ks_fold_max [of "ks_distance_continuous L alpha xmin (double_of_nat (length xs))" xs]
  by (auto simp: plfit_i_ks_test_continuous_def ks_gaps_def Let_def)

subsection \<open>The linear scan finds the least distance\<close>

definition probe_alpha :: "clib \<Rightarrow> double list \<Rightarrow> nat \<Rightarrow> double" where
  "probe_alpha L data off =
     1 + double_of_nat (length data - off) / plfit_i_logsum_continuous L (drop off data) (data ! off)"

definition probe_D :: "clib \<Rightarrow> double list \<Rightarrow> nat \<Rightarrow> double" where
  "probe_D L data off = plfit_i_ks_test_continuous L (drop off data) (probe_alpha L data off) (data ! off)"

definition probe_result :: "clib \<Rightarrow> double list \<Rightarrow> nat \<Rightarrow> plfit_result_t" where
  "probe_result L data off =
     \<lparr>res_alpha = probe_alpha L data off, res_xmin = data ! off, res_L = NaN, res_D = probe_D L data off, res_p = NaN\<rparr>"

definition positive_data :: "double list \<Rightarrow> bool" where
  "positive_data data \<longleftrightarrow> sorted_doubles data \<and> data \<noteq> [] \<and> (\<forall>x \<in> set data. 0 < x) \<and> length data \<le> 2 ^ 31"

definition opt_ok :: "plfit_continuous_xmin_opt_data_t \<Rightarrow> bool" where
  "opt_ok d \<longleftrightarrow> positive_data (od_data d) \<and> 0 < od_num_probes d \<and>
     od_num_probes d \<le> length (od_data d) \<and> od_num_probes d - 1 \<le> length (od_probes d) \<and>
     (\<forall>off \<in> set (od_probes d). off < length (od_data d))"

lemma probe_D_not_nan: "probe_D L data off \<noteq> NaN"
  using plfit_i_ks_test_continuous_max by (simp add: probe_D_def)

lemma estimate_at_probe:
  assumes "positive_data data" "off < length data"
  shows "plfit_i_estimate_alpha_continuous_sorted L (drop off data) (data ! off) = Inr (probe_alpha L data off)"
proof -
  have x: "0 < data ! off" using assms by (simp add: positive_data_def)
  then have "\<not> data ! off \<le> 0" by (simp add: dless_iff)
  moreover have "dropWhile (\<lambda>x. x < data ! off) (drop off data) = drop off data"
    using assms(2) by (simp add: Cons_nth_drop_Suc [symmetric])
  ultimately show ?thesis
    using assms(2) by (simp add: plfit_i_estimate_alpha_continuous_sorted_def probe_alpha_def Let_def)
qed

lemma evaluate_at:
  assumes "positive_data (od_data d)" "0 \<le> i" "nat i < length (od_probes d)" "od_probes d ! nat i < length (od_data d)"
  defines "off \<equiv> od_probes d ! nat i"
  shows "opt_evaluate_at L d i = Inr (probe_D L (od_data d) off,
    d\<lparr>last_alpha := Some (probe_alpha L (od_data d) off), last_xmin := od_data d ! off, last_D := probe_D L (od_data d) off\<rparr>)"
  using assms by (simp add: opt_evaluate_at_def estimate_at_probe probe_D_def Let_def)

lemma cast_long_of_nat:
  assumes "k \<le> 2 ^ 53"
  shows "cast_long (double_of_nat k) = Inr (int k)"
proof -
  have "int k \<le> int (2 ^ 53)" using assms by (simp only: of_nat_le_iff)
  then have "int k \<le> 2 ^ 63 - 1" by simp
  then show ?thesis using assms
    by (simp add: cast_long_def cast_range_def double_of_nat_exact trunc_rat_def)
qed

lemma evaluate_probe:
  assumes "opt_ok d" "i < od_num_probes d - 1"
  shows "plfit_i_continuous_xmin_opt_evaluate L d (double_of_nat i) = Inr (probe_D L (od_data d) (od_probes d ! i),
    d\<lparr>last_alpha := Some (probe_alpha L (od_data d) (od_probes d ! i)), last_xmin := od_data d ! (od_probes d ! i),
      last_D := probe_D L (od_data d) (od_probes d ! i)\<rparr>)"
proof -
  have "i \<le> 2 ^ 53" "i < length (od_probes d)" using assms by (auto simp: opt_ok_def positive_data_def)
  then show ?thesis
    using assms evaluate_at [of d "int i" L]
    by (simp add: plfit_i_continuous_xmin_opt_evaluate_def cast_long_of_nat opt_ok_def)
qed

text \<open>
  What the scan has found after \<open>i\<close> probes: nothing below \<open>DBL_MAX\<close>, or the first of the
  probes with the least distance.
\<close>

definition scan_found ::
  "clib \<Rightarrow> plfit_continuous_xmin_opt_data_t \<Rightarrow> nat \<Rightarrow> plfit_result_t \<Rightarrow> nat \<Rightarrow> bool" where
  "scan_found L d i best best_n \<longleftrightarrow>
     (let D = \<lambda>j. probe_D L (od_data d) (od_probes d ! j) in
      (best = no_best \<and> best_n = 0 \<and> (\<forall>j < i. \<not> D j < DBL_MAX)) \<or>
      (\<exists>k < i. best = probe_result L (od_data d) (od_probes d ! k) \<and>
        best_n = length (od_data d) - od_probes d ! k \<and> D k < DBL_MAX \<and>
        (\<forall>j < i. \<not> D j < D k) \<and> (\<forall>j < k. D k < D j)))"

definition same_search :: "plfit_continuous_xmin_opt_data_t \<Rightarrow> plfit_continuous_xmin_opt_data_t \<Rightarrow> bool" where
  "same_search d d' \<longleftrightarrow> od_data d' = od_data d \<and> od_probes d' = od_probes d \<and> od_num_probes d' = od_num_probes d"

lemma same_search_ok: "same_search d d' \<Longrightarrow> opt_ok d \<Longrightarrow> opt_ok d'"
  by (simp add: same_search_def opt_ok_def)

lemma DBL_MAX_not_nan: "DBL_MAX \<noteq> NaN"
  by (simp add: DBL_MAX_def)

lemma scan_found_step:
  assumes found: "scan_found L d i best best_n"
  defines "Di \<equiv> probe_D L (od_data d) (od_probes d ! i)"
  shows "Di < res_D best \<Longrightarrow> scan_found L d (Suc i) (probe_result L (od_data d) (od_probes d ! i))
      (length (od_data d) - od_probes d ! i)"
    and "\<not> Di < res_D best \<Longrightarrow> scan_found L d (Suc i) best best_n"
proof -
  let ?D = "\<lambda>j. probe_D L (od_data d) (od_probes d ! j)"
  have best: "res_D best = (if best = no_best then DBL_MAX else res_D best)" by (simp add: no_best_def)
  assume less: "Di < res_D best"
  from found have "Di < DBL_MAX \<and> (\<forall>j < i. Di < ?D j)"
    unfolding scan_found_def Let_def
  proof (elim disjE exE conjE)
    assume "best = no_best" "\<forall>j < i. \<not> ?D j < DBL_MAX"
    with less have "Di < DBL_MAX" "\<forall>j < i. DBL_MAX \<le> ?D j"
      using dnot_less probe_D_not_nan DBL_MAX_not_nan by (auto simp: no_best_def)
    then show ?thesis using dless_le_trans [of Di DBL_MAX] by simp
  next
    fix k assume "k < i" "best = probe_result L (od_data d) (od_probes d ! k)" "?D k < DBL_MAX" "\<forall>j < i. \<not> ?D j < ?D k"
    with less have "Di < ?D k" "\<forall>j < i. ?D k \<le> ?D j"
      using dnot_less probe_D_not_nan by (auto simp: probe_result_def)
    then have "Di < ?D j" if "j < i" for j using that dless_le_trans [of Di "?D k" "?D j"] by simp
    moreover have "Di < DBL_MAX" using \<open>Di < ?D k\<close> \<open>?D k < DBL_MAX\<close> by (rule dless_trans)
    ultimately show ?thesis by simp
  qed
  then have lt: "?D i < DBL_MAX" and first: "\<forall>j < i. ?D i < ?D j" unfolding Di_def by simp_all
  moreover have "\<not> ?D j < ?D i" if "j < Suc i" for j
  proof (cases "j = i")
    case False
    with that first have "?D i < ?D j" by simp
    then show ?thesis by (simp add: dless_iff)
  qed simp
  ultimately have "\<exists>k < Suc i. probe_result L (od_data d) (od_probes d ! i) = probe_result L (od_data d) (od_probes d ! k) \<and>
      length (od_data d) - od_probes d ! i = length (od_data d) - od_probes d ! k \<and> ?D k < DBL_MAX \<and>
      (\<forall>j < Suc i. \<not> ?D j < ?D k) \<and> (\<forall>j < k. ?D k < ?D j)"
    by (intro exI [of _ i]) simp
  then show "scan_found L d (Suc i) (probe_result L (od_data d) (od_probes d ! i)) (length (od_data d) - od_probes d ! i)"
    unfolding scan_found_def Let_def by (rule disjI2)
next
  let ?D = "\<lambda>j. probe_D L (od_data d) (od_probes d ! j)"
  assume "\<not> Di < res_D best"
  with found show "scan_found L d (Suc i) best best_n"
    unfolding scan_found_def Let_def Di_def
    by (elim disjE exE conjE) (auto simp: less_Suc_eq no_best_def probe_result_def)
qed

lemma scan_loop:
  assumes "opt_ok d" "n \<le> od_num_probes d - 1"
  shows "\<exists>d' best best_n. loop_res (scan_step L) [0..<n] (d, no_best, 0) = Inr (d', best, best_n) \<and>
    same_search d d' \<and> scan_found L d n best best_n"
proof -
  let ?P = "\<lambda>i s. case s of (d', best, best_n) \<Rightarrow> same_search d d' \<and> scan_found L d i best best_n"
  have "\<exists>s. loop_res (scan_step L) [0..<n] (d, no_best, 0) = Inr s \<and> ?P (length [0..<n]) s"
  proof (rule loop_res_invariant)
    show "?P 0 (d, no_best, 0)" by (simp add: same_search_def scan_found_def)
  next
    fix i s assume i: "i < length [0..<n]" and "?P i s"
    then obtain d' best best_n where s: "s = (d', best, best_n)" "same_search d d'" "scan_found L d i best best_n"
      by (cases s) auto
    let ?off = "od_probes d ! i"
    have ok: "opt_ok d'" using s(2) assms(1) by (rule same_search_ok)
    have i': "i < od_num_probes d' - 1" using i assms(2) s(2) by (simp add: same_search_def)
    have len: "i < length (od_probes d')" using ok i' by (simp add: opt_ok_def)
    note e = evaluate_probe [OF ok i', of L]
    show "\<exists>s'. scan_step L ([0..<n] ! i) s = Inr s' \<and> ?P (Suc i) s'"
      using i s(2) len scan_found_step [OF s(3)]
      by (auto simp: s(1) scan_step_def e same_search_def last_result_def probe_result_def)
  qed
  then show ?thesis by auto
qed

lemma linear_scan_found:
  assumes "opt_ok d"
  shows "\<exists>best best_n. plfit_i_continuous_xmin_opt_linear_scan L d = Inr (best, best_n) \<and>
    scan_found L d (od_num_probes d - 1) best best_n"
proof -
  obtain d' best best_n where s: "loop_res (scan_step L) [0..<od_num_probes d - 1] (d, no_best, 0) = Inr (d', best, best_n)"
    "scan_found L d (od_num_probes d - 1) best best_n"
    using scan_loop [OF assms order_refl] by blast
  have "od_num_probes d \<noteq> 0" using assms by (simp add: opt_ok_def)
  moreover have "best = no_best \<and> best_n = 0" if "\<not> res_D best < DBL_MAX"
    using s(2) that by (auto simp: scan_found_def Let_def probe_result_def)
  ultimately show ?thesis using s by (auto simp: plfit_i_continuous_xmin_opt_linear_scan_def)
qed

text \<open>
  C5. On at most 2^31 sorted positive data the linear scan never fails: it returns the first of the
  probes, the last one excluded, with the least distance, together with the number of points from
  there on, or, when no distance is below \<open>DBL_MAX\<close>, an empty result.
\<close>

theorem linear_scan_least_distance:
  assumes "opt_ok d"
  shows "\<exists>best best_n. plfit_i_continuous_xmin_opt_linear_scan L d = Inr (best, best_n) \<and>
    scan_found L d (od_num_probes d - 1) best best_n"
  using assms by (rule linear_scan_found)

definition sample_data :: plfit_continuous_xmin_opt_data_t where
  "sample_data = \<lparr>od_data = [Fin 1, Fin 2, Fin 2, Fin 4], od_probes = [0, 1, 3], od_num_probes = 3,
     last_alpha = None, last_xmin = NaN, last_D = NaN\<rparr>"

lemma sample_data_ok: "opt_ok sample_data" "length (od_probes sample_data) = od_num_probes sample_data"
  by (auto simp: sample_data_def opt_ok_def positive_data_def sorted_doubles_def no_nan_def)

theorem linear_scan_least_distance_witness:
  "\<exists>best best_n. plfit_i_continuous_xmin_opt_linear_scan plain_clib sample_data = Inr (best, best_n) \<and>
    scan_found plain_clib sample_data (od_num_probes sample_data - 1) best best_n"
  by (rule linear_scan_least_distance) (rule sample_data_ok)

subsection \<open>The searches stay inside the data\<close>

definition found_at :: "clib \<Rightarrow> double list \<Rightarrow> plfit_result_t \<Rightarrow> nat \<Rightarrow> bool" where
  "found_at L data best best_n \<longleftrightarrow>
     (best = no_best \<and> best_n = 0) \<or>
     (\<exists>off < length data. best = probe_result L data off \<and> best_n = length data - off)"

lemma scan_found_at:
  assumes "opt_ok d" "scan_found L d (od_num_probes d - 1) best best_n"
  shows "found_at L (od_data d) best best_n"
proof -
  have "od_probes d ! k < length (od_data d)" if "k < od_num_probes d - 1" for k
    using assms(1) that by (simp add: opt_ok_def)
  with assms(2) show ?thesis by (auto simp: scan_found_def Let_def found_at_def)
qed

lemma strata_ok:
  assumes ok: "opt_ok d" and len: "length (od_probes d) = od_num_probes d" "50 \<le> od_num_probes d"
  defines "k \<equiv> od_num_probes d div subdivision_length"
  shows "opt_ok (d\<lparr>od_probes := map (\<lambda>i. od_probes d ! (i * subdivision_length)) [0..<k], od_num_probes := k\<rparr>)"
    and "i < k \<Longrightarrow> num = (if i \<noteq> 0 then subdivision_length else 0) + (if i \<noteq> k - 1 then subdivision_length else 0) \<Longrightarrow>
      0 < num \<Longrightarrow>
      opt_ok (d\<lparr>od_probes := drop (if 0 < i then (i - 1) * subdivision_length else 0) (od_probes d), od_num_probes := num\<rparr>)"
proof -
  have k: "k * 10 \<le> od_num_probes d" "5 \<le> k" using len(2) by (simp_all add: k_def subdivision_length_def)
  have n: "od_num_probes d \<le> length (od_data d)" using ok by (simp add: opt_ok_def)
  have mem: "od_probes d ! (i * subdivision_length) < length (od_data d)" if "i < k" for i
  proof -
    have "i * 10 < length (od_probes d)" using that k len(1) by simp
    then show ?thesis using ok by (simp add: opt_ok_def subdivision_length_def)
  qed
  show "opt_ok (d\<lparr>od_probes := map (\<lambda>i. od_probes d ! (i * subdivision_length)) [0..<k], od_num_probes := k\<rparr>)"
    using ok k n mem by (auto simp: opt_ok_def)
  assume i: "i < k" and num: "num = (if i \<noteq> 0 then subdivision_length else 0) + (if i \<noteq> k - 1 then subdivision_length else 0)"
    and pos: "0 < num"
  have "num \<le> 20" using num by (auto simp: subdivision_length_def)
  moreover have "(if 0 < i then (i - 1) * 10 else 0) + num \<le> k * 10"
    using i num k(2) by (auto simp: subdivision_length_def algebra_simps)
  ultimately show "opt_ok (d\<lparr>od_probes := drop (if 0 < i then (i - 1) * subdivision_length else 0) (od_probes d), od_num_probes := num\<rparr>)"
    using ok n k len pos by (auto simp: opt_ok_def subdivision_length_def dest: in_set_dropD)
qed

text \<open>
  The two rounds of the stratified search: every tenth probe first, then, unless no stratum has a
  distance below \<open>DBL_MAX\<close>, the probes from the stratum before the best one on, without the last
  of them. With fewer than fifty probes, or when the first round found nothing, all of them are
  scanned.
\<close>

definition strata_of :: "plfit_continuous_xmin_opt_data_t \<Rightarrow> plfit_continuous_xmin_opt_data_t" where
  "strata_of d = d\<lparr>od_probes := map (\<lambda>i. od_probes d ! (i * subdivision_length)) [0..<od_num_probes d div subdivision_length],
     od_num_probes := od_num_probes d div subdivision_length\<rparr>"

definition around_stratum :: "plfit_continuous_xmin_opt_data_t \<Rightarrow> nat \<Rightarrow> plfit_continuous_xmin_opt_data_t" where
  "around_stratum d i = d\<lparr>od_probes := drop (if 0 < i then (i - 1) * subdivision_length else 0) (od_probes d),
     od_num_probes := (if i \<noteq> 0 then subdivision_length else 0)
       + (if i \<noteq> od_num_probes d div subdivision_length - 1 then subdivision_length else 0)\<rparr>"

definition scanned :: "clib \<Rightarrow> plfit_continuous_xmin_opt_data_t \<Rightarrow> plfit_result_t \<Rightarrow> nat \<Rightarrow> bool" where
  \<comment> \<open>the outcome of a linear scan of all the probes\<close>
  "scanned L d best best_n \<longleftrightarrow> scan_found L d (od_num_probes d - 1) best best_n"

definition stratified_outcome :: "clib \<Rightarrow> plfit_continuous_xmin_opt_data_t \<Rightarrow> plfit_result_t \<Rightarrow> nat \<Rightarrow> bool" where
  "stratified_outcome L d best best_n \<longleftrightarrow>
     (if od_num_probes d < 50 then scanned L d best best_n
      else \<exists>best1 n1. scanned L (strata_of d) best1 n1 \<and>
        (if best1 = no_best then scanned L d best best_n
         else \<exists>i < od_num_probes (strata_of d). deq (od_data d ! (od_probes (strata_of d) ! i)) (res_xmin best1) \<and>
           (\<forall>j < i. \<not> deq (od_data d ! (od_probes (strata_of d) ! j)) (res_xmin best1)) \<and>
           scanned L (around_stratum d i) best best_n))"

lemma linear_scan_scanned:
  "opt_ok d \<Longrightarrow> \<exists>best best_n. plfit_i_continuous_xmin_opt_linear_scan L d = Inr (best, best_n) \<and> scanned L d best best_n"
  unfolding scanned_def by (rule linear_scan_found)

lemma stratified_found:
  assumes ok: "opt_ok d" and len: "length (od_probes d) = od_num_probes d" and alloc: "\<forall>b. c_alloc L b"
  shows "\<exists>best best_n. continuous_search L fuel PLFIT_STRATIFIED_SAMPLING d = Inr (best, best_n) \<and>
    stratified_outcome L d best best_n"
proof (cases "od_num_probes d < 50")
  case True
  with linear_scan_scanned [OF ok, of L] show ?thesis
    by (auto simp: continuous_search_def continuous_stratified_def stratified_outcome_def Let_def)
next
  case False
  define k where "k = od_num_probes d div subdivision_length"
  define strata where "strata = map (\<lambda>i. od_probes d ! (i * subdivision_length)) [0..<k]"
  have n: "50 \<le> od_num_probes d" using False by simp
  then have k: "5 \<le> k" by (simp add: k_def subdivision_length_def)
  note s = strata_ok [OF ok len n, folded k_def, folded strata_def]
  have d1: "strata_of d = d\<lparr>od_probes := strata, od_num_probes := k\<rparr>"
    by (simp add: strata_of_def strata_def k_def)
  obtain best1 n1 where b1: "plfit_i_continuous_xmin_opt_linear_scan L (strata_of d) = Inr (best1, n1)"
    "scanned L (strata_of d) best1 n1"
    using linear_scan_scanned [OF s(1)] unfolding d1 by blast
  let ?P = "\<lambda>i. deq (od_data d ! (strata ! i)) (res_xmin best1)"
  have inside: "od_data d ! (strata ! i) \<in> set (od_data d)" if "i < k" for i
    using that s(1) by (simp add: opt_ok_def strata_def)
  show ?thesis
  proof (cases "List.find ?P [0..<k]")
    case None
    have "best1 = no_best"
    proof (rule ccontr)
      assume "best1 \<noteq> no_best"
      with b1(2) obtain j where j: "j < k - 1" "best1 = probe_result L (od_data d) (strata ! j)"
        by (auto simp: scanned_def scan_found_def d1 Let_def)
      have "0 < od_data d ! (strata ! j)" using inside [of j] j(1) ok by (simp add: opt_ok_def positive_data_def)
      then have "od_data d ! (strata ! j) \<noteq> NaN" using dless_not_nan by fastforce
      then have "?P j" using j(2) by (simp add: probe_result_def deq_iff)
      with None j(1) show False by (auto simp: find_None_iff)
    qed
    with None False b1 alloc linear_scan_scanned [OF ok, of L] show ?thesis
      by (auto simp: continuous_search_def continuous_stratified_def Let_def k_def strata_def d1 stratified_outcome_def)
  next
    case (Some i)
    then have i: "i < k" "?P i" "\<forall>j < i. \<not> ?P j" by (auto simp: find_Some_iff)
    have "0 < od_data d ! (strata ! i)" using inside [OF i(1)] ok by (simp add: opt_ok_def positive_data_def)
    with i(2) have ne: "best1 \<noteq> no_best" by (auto simp: no_best_def deq_iff dless_iff)
    have pos: "0 < od_num_probes (around_stratum d i)" using i(1) k by (simp add: around_stratum_def k_def subdivision_length_def)
    have o: "opt_ok (around_stratum d i)"
      using s(2) [OF i(1) refl] pos by (simp add: around_stratum_def k_def)
    obtain best n2 where "plfit_i_continuous_xmin_opt_linear_scan L (around_stratum d i) = Inr (best, n2)"
      "scanned L (around_stratum d i) best n2"
      using linear_scan_scanned [OF o] by blast
    moreover have "continuous_stratified L d =
        plfit_check (plfit_i_continuous_xmin_opt_linear_scan L (around_stratum d i)) (\<lambda>r. Inr (Some r))"
      using False b1(1) alloc Some pos
      by (simp add: continuous_stratified_def Let_def k_def [symmetric] strata_def [symmetric] d1 around_stratum_def)
    moreover have "stratified_outcome L d best n2" if "scanned L (around_stratum d i) best n2"
      using that b1(2) ne i False unfolding stratified_outcome_def by (auto simp: d1)
    ultimately show ?thesis by (auto simp: continuous_search_def)
  qed
qed

lemma stratified_found_at:
  assumes ok: "opt_ok d" and len: "length (od_probes d) = od_num_probes d"
    and out: "stratified_outcome L d best best_n"
  shows "found_at L (od_data d) best best_n"
proof (cases "od_num_probes d < 50 \<or> scanned L d best best_n")
  case True
  with ok out show ?thesis by (auto simp: stratified_outcome_def scanned_def intro: scan_found_at)
next
  case False
  then have n: "50 \<le> od_num_probes d" by simp
  with False out obtain i where i: "i < od_num_probes (strata_of d)" "scanned L (around_stratum d i) best best_n"
    by (auto simp: stratified_outcome_def split: if_splits)
  have "5 \<le> od_num_probes d div subdivision_length" using n by (simp add: subdivision_length_def)
  with i(1) have "opt_ok (around_stratum d i)"
    using strata_ok(2) [OF ok len n, of i, OF _ refl] by (simp add: strata_of_def around_stratum_def subdivision_length_def)
  from scan_found_at [OF this] i(2) show ?thesis by (simp add: scanned_def around_stratum_def)
qed

text \<open>
  The contract of golden section search, for the evaluation of \<open>xmin\<close> candidates: the points lie
  between 0 and the number of probes less five, the caller's state holds the last evaluation, and
  no point at which the search evaluated has a smaller distance than its minimum. The search is
  run with a record of the points at which it evaluates.
\<close>

definition probe_at :: "plfit_continuous_xmin_opt_data_t \<Rightarrow> double \<Rightarrow> nat" where
  \<comment> \<open>the offset of the candidate for which a point of the search stands\<close>
  "probe_at d x = od_probes d ! nat \<lfloor>val x\<rfloor>"

definition gss_top :: "plfit_continuous_xmin_opt_data_t \<Rightarrow> double" where
  "gss_top d = double_of_nat (od_num_probes d - 5)"

definition gss_inside :: "plfit_continuous_xmin_opt_data_t \<Rightarrow> double \<Rightarrow> bool" where
  "gss_inside d x \<longleftrightarrow> opt_ok d \<and> 5 < od_num_probes d \<and> in_bracket 0 (gss_top d) x"

definition gss_agrees ::
  "clib \<Rightarrow> plfit_continuous_xmin_opt_data_t \<Rightarrow> plfit_continuous_xmin_opt_data_t \<times> double list \<Rightarrow>
   double \<Rightarrow> double \<Rightarrow> bool" where
  "gss_agrees L d i m fm \<longleftrightarrow> same_search d (fst i) \<and> fm = probe_D L (od_data d) (probe_at d m) \<and> m \<in> set (snd i) \<and>
     (\<forall>x \<in> set (snd i). gss_inside d x \<and> \<not> probe_D L (od_data d) (probe_at d x) < fm) \<and>
     last_result (fst i) = probe_result L (od_data d) (probe_at d (List.last (snd i)))"

definition recorded_search ::
  "clib \<Rightarrow> nat \<Rightarrow> plfit_continuous_xmin_opt_data_t \<Rightarrow> (plfit_continuous_xmin_opt_data_t \<times> double list) gss_result" where
  "recorded_search L fuel d =
     gss 0 (gss_top d) (recording (plfit_i_continuous_xmin_opt_evaluate L))
       (recording_progress (Some plfit_i_continuous_xmin_opt_progress)) (d, []) (Some gss_defparam) fuel"

lemma opt_ok_small: "opt_ok d \<Longrightarrow> od_num_probes d \<le> 2 ^ 31"
  unfolding opt_ok_def positive_data_def by linarith

lemma gss_bracket:
  assumes "opt_ok d"
  shows "bracket 0 (gss_top d)" "gss_top d = Fin (of_nat (od_num_probes d - 5))"
proof -
  have n: "od_num_probes d - 5 \<le> 2 ^ 31" using opt_ok_small [OF assms] by linarith
  then show e: "gss_top d = Fin (of_nat (od_num_probes d - 5))"
    unfolding gss_top_def by (intro double_of_nat_exact) simp
  have "rat_of_nat (od_num_probes d - 5) \<le> rat_of_nat (2 ^ 31)" using n by (simp only: of_nat_le_iff)
  also have "\<dots> \<le> 2 ^ 1000" by simp
  finally have "gss_top d \<le> Fin (2 ^ 1000)" by (simp only: e dle_simps)
  then show "bracket 0 (gss_top d)" by (simp add: bracket_def gss_top_def)
qed

lemma gss_inside_index:
  assumes "gss_inside d x"
  shows "isfinite x" "0 \<le> \<lfloor>val x\<rfloor>" "nat \<lfloor>val x\<rfloor> \<le> od_num_probes d - 5" "nat \<lfloor>val x\<rfloor> < length (od_probes d)"
    "cast_long x = Inr \<lfloor>val x\<rfloor>" "cast_int x = Inr \<lfloor>val x\<rfloor>"
proof -
  have ok: "opt_ok d" "5 < od_num_probes d" and x: "in_bracket 0 (gss_top d) x" using assms by (auto simp: gss_inside_def)
  note br = gss_bracket [OF ok(1)]
  show f: "isfinite x" using bracket_finite(1) [OF br(1) x] .
  have v: "0 \<le> val x" "val x \<le> of_nat (od_num_probes d - 5)"
    using x f by (auto simp: in_bracket_def br(2) dle_finite)
  then show "0 \<le> \<lfloor>val x\<rfloor>" by simp
  have "\<lfloor>val x\<rfloor> \<le> \<lfloor>rat_of_nat (od_num_probes d - 5)\<rfloor>" using v(2) by (rule floor_mono)
  then have le: "\<lfloor>val x\<rfloor> \<le> int (od_num_probes d - 5)" by simp
  then show n: "nat \<lfloor>val x\<rfloor> \<le> od_num_probes d - 5" by (simp add: nat_le_iff)
  show "nat \<lfloor>val x\<rfloor> < length (od_probes d)" using n ok by (auto simp: opt_ok_def)
  have "int (od_num_probes d) \<le> int (2 ^ 31)" using opt_ok_small [OF ok(1)] by (simp only: of_nat_le_iff)
  then have "int (od_num_probes d) \<le> 2 ^ 31" by simp
  moreover have "int (od_num_probes d - 5) = int (od_num_probes d) - 5" using ok(2) by simp
  ultimately have hi: "\<lfloor>val x\<rfloor> \<le> 2 ^ 31 - 1" using le by linarith
  then have hi': "\<lfloor>val x\<rfloor> \<le> 2 ^ 63 - 1" by (rule order_trans) simp
  show "cast_long x = Inr \<lfloor>val x\<rfloor>" "cast_int x = Inr \<lfloor>val x\<rfloor>"
    using f v hi hi' by (simp_all add: cast_long_def cast_int_def cast_range_def trunc_rat_nonneg)
qed

lemma gss_evaluate:
  assumes s: "same_search d d'" and x: "gss_inside d x"
  shows "\<exists>d2. plfit_i_continuous_xmin_opt_evaluate L d' x = Inr (probe_D L (od_data d) (probe_at d x), d2) \<and>
    same_search d d2 \<and> last_result d2 = probe_result L (od_data d) (probe_at d x)"
proof -
  note i = gss_inside_index [OF x]
  have off: "probe_at d x \<in> set (od_probes d)" using i(4) by (simp add: probe_at_def)
  moreover have "opt_ok d" using x by (simp add: gss_inside_def)
  ultimately have "probe_at d x < length (od_data d)" "positive_data (od_data d)" by (auto simp: opt_ok_def)
  then show ?thesis
    using s i off evaluate_at [of d' "\<lfloor>val x\<rfloor>" L]
    by (simp add: plfit_i_continuous_xmin_opt_evaluate_def same_search_def probe_at_def last_result_def probe_result_def)
qed

lemma recording_evaluate:
  assumes "same_search d (fst i)" "gss_inside d x"
  obtains d2 where "recording (plfit_i_continuous_xmin_opt_evaluate L) i x =
      Inr (probe_D L (od_data d) (probe_at d x), d2, snd i @ [x])"
    "same_search d d2" "last_result d2 = probe_result L (od_data d) (probe_at d x)"
  using gss_evaluate [OF assms, of L] by (auto simp: recording_def)

interpretation xmin_search: gss_client "recording (plfit_i_continuous_xmin_opt_evaluate L)"
    "recording_progress (Some plfit_i_continuous_xmin_opt_progress)" "gss_inside d" "gss_agrees L d" for L d
proof
  fix i m fm x
  assume J: "gss_agrees L d i m fm" and x: "gss_inside d x"
  let ?D = "\<lambda>x. probe_D L (od_data d) (probe_at d x)"
  from J have "same_search d (fst i)" by (simp add: gss_agrees_def)
  then obtain d2 where e: "recording (plfit_i_continuous_xmin_opt_evaluate L) i x = Inr (?D x, d2, snd i @ [x])"
    "same_search d d2" "last_result d2 = probe_result L (od_data d) (probe_at d x)"
    using x by (rule recording_evaluate)
  have "gss_agrees L d (d2, snd i @ [x]) x (?D x)" if less: "?D x < fm"
  proof -
    have "\<not> ?D y < ?D x" if "y \<in> set (snd i)" for y
      using J that less dless_trans [of "?D y" "?D x" fm] by (auto simp: gss_agrees_def)
    with J e x show ?thesis by (auto simp: gss_agrees_def)
  qed
  moreover have "gss_agrees L d (d2, snd i @ [x]) m fm" if "\<not> ?D x < fm"
    using J e x that by (auto simp: gss_agrees_def)
  ultimately show "\<exists>fx i'. recording (plfit_i_continuous_xmin_opt_evaluate L) i x = Inr (fx, i') \<and>
      (if fx < fm then gss_agrees L d i' x fx else gss_agrees L d i' m fm)"
    unfolding e(1) by auto
next
  fix p :: "(plfit_continuous_xmin_opt_data_t \<times> double list) gss_progress_t" and i m fm l r x fx and k :: nat
  assume "recording_progress (Some plfit_i_continuous_xmin_opt_progress) = Some p" and J: "gss_agrees L d i m fm"
    and "gss_inside d l" "gss_inside d r"
  then show "\<exists>b i'. p i x fx m fm l r k = Inr (b, i') \<and> gss_agrees L d i' m fm"
    by (cases i) (auto simp: recording_progress_def plfit_i_continuous_xmin_opt_progress_def gss_inside_index)
next
  fix a b
  assume "gss_inside d a" "gss_inside d b"
  then show "gss_inside d (a + RESPHI * (b - a))" "gss_inside d ((a + b) / lit 2)"
    using gss_bracket(1) step_in_bracket RESPHI_value midpoint_in_bracket by (auto simp: lit_2 gss_inside_def)
qed

lemma recorded_search_ok:
  assumes ok: "opt_ok d" "5 < od_num_probes d"
  shows "recorded_search L fuel d = Inl Out_of_fuel \<or>
    (\<exists>st s. recorded_search L fuel d = Inr (st, s) \<and> gss_agrees L d (g_instance s) (g_min s) (g_fmin s))"
proof -
  have ends: "gss_inside d 0" "gss_inside d (gss_top d)"
    using ok by (simp_all add: gss_inside_def in_bracket_def gss_top_def)
  have start: "\<exists>fx i. recording (plfit_i_continuous_xmin_opt_evaluate L) (d, []) x = Inr (fx, i) \<and> gss_agrees L d i x fx"
    if "gss_inside d x" for x
    by (rule recording_evaluate [of d "(d, [])" x L]) (use that in \<open>auto simp: gss_agrees_def same_search_def\<close>)
  have "xmin_search.outcome_ok L d (recorded_search L fuel d)"
    unfolding recorded_search_def using ends start by (intro xmin_search.gss_ok) auto
  then show ?thesis unfolding xmin_search.outcome_ok_def by blast
qed

text \<open>
  What the golden section search finds: the candidate of the last point evaluated, with one more
  than the number of points from the minimum on, where the minimum has the least distance of all
  the points evaluated; without enough probes, or when the function is not U-shaped, the outcome
  of a linear scan.
\<close>

definition gss_outcome ::
  "clib \<Rightarrow> nat \<Rightarrow> plfit_continuous_xmin_opt_data_t \<Rightarrow> plfit_result_t \<Rightarrow> nat \<Rightarrow> bool" where
  "gss_outcome L fuel d best best_n \<longleftrightarrow>
     (if od_num_probes d \<le> 5 then scanned L d best best_n
      else case recorded_search L fuel d of
        Inl _ \<Rightarrow> False
      | Inr (Gss_failure, s) \<Rightarrow> scanned L d best best_n
      | Inr (Gss_success, s) \<Rightarrow>
          g_min s \<in> set (snd (g_instance s)) \<and>
          (\<forall>x \<in> set (snd (g_instance s)). nat \<lfloor>val x\<rfloor> \<le> od_num_probes d - 5 \<and>
             \<not> probe_D L (od_data d) (probe_at d x) < probe_D L (od_data d) (probe_at d (g_min s))) \<and>
          best = probe_result L (od_data d) (probe_at d (List.last (snd (g_instance s)))) \<and>
          best_n = length (od_data d) - probe_at d (g_min s) + 1)"

lemma gss_found:
  assumes ok: "opt_ok d"
  shows "(5 < od_num_probes d \<and> recorded_search L fuel d = Inl Out_of_fuel \<and>
      continuous_search L fuel PLFIT_GSS_OR_LINEAR d = Inl Out_of_fuel) \<or>
    (\<exists>best best_n. continuous_search L fuel PLFIT_GSS_OR_LINEAR d = Inr (best, best_n) \<and>
      gss_outcome L fuel d best best_n)"
proof (cases "od_num_probes d \<le> 5")
  case True
  with linear_scan_scanned [OF ok, of L] show ?thesis
    by (auto simp: continuous_search_def continuous_gss_def gss_outcome_def)
next
  case False
  have scan: "\<exists>best best_n. plfit_i_continuous_xmin_opt_linear_scan L d' = Inr (best, best_n) \<and> scanned L d best best_n"
    if "same_search d d'" for d'
    using linear_scan_scanned [OF same_search_ok [OF that ok], of L] that
    by (simp add: scanned_def scan_found_def same_search_def)
  have run: "gss 0 (double_of_nat (od_num_probes d - 5)) (plfit_i_continuous_xmin_opt_evaluate L)
      (Some plfit_i_continuous_xmin_opt_progress) d (Some gss_defparam) fuel = forget_result (recorded_search L fuel d)"
    by (simp add: recorded_search_def forget_gss gss_top_def)
  have "5 < od_num_probes d" using False by simp
  from recorded_search_ok [OF ok this, of L fuel] show ?thesis
  proof (elim disjE exE conjE)
    assume "recorded_search L fuel d = Inl Out_of_fuel"
    with False show ?thesis by (simp add: continuous_search_def continuous_gss_def run)
  next
    fix st s
    assume r: "recorded_search L fuel d = Inr (st, s)" and J: "gss_agrees L d (g_instance s) (g_min s) (g_fmin s)"
    show ?thesis
    proof (cases st)
      case Gss_failure
      have "same_search d (fst (g_instance s))" using J by (simp add: gss_agrees_def)
      from scan [OF this] False r Gss_failure show ?thesis
        by (auto simp: continuous_search_def continuous_gss_def run gss_outcome_def)
    next
      case Gss_success
      have "gss_inside d (g_min s)" using J by (auto simp: gss_agrees_def)
      note i = gss_inside_index [OF this]
      have "continuous_search L fuel PLFIT_GSS_OR_LINEAR d =
          Inr (last_result (fst (g_instance s)), length (od_data d) - probe_at d (g_min s) + 1)"
        using J r False Gss_success i
        by (simp add: continuous_search_def continuous_gss_def run gss_agrees_def same_search_def probe_at_def)
      moreover have "gss_outcome L fuel d (last_result (fst (g_instance s))) (length (od_data d) - probe_at d (g_min s) + 1)"
        using J r False Gss_success gss_inside_index(3) by (auto simp: gss_outcome_def gss_agrees_def)
      ultimately show ?thesis by blast
    qed
  qed
qed

text \<open>
  C6. On at most 2^31 sorted positive data, with every allocation granted, the search for
  \<open>xmin\<close> never reads outside the data or the table of probes. The linear search returns the
  outcome of a scan: the first candidate with the least distance, with its estimate and the
  number of points from there on, or an empty result when no distance is below \<open>DBL_MAX\<close>. The
  stratified search returns the outcome of a scan around the best of every tenth probe, or of all
  the probes. Golden section search runs out of fuel, or is skipped with at most five probes, or
  gives up on a function that is not U-shaped, in both of which cases all the probes are scanned;
  or it succeeds, and then the result is the candidate of the last point at which it evaluated,
  although the points are counted from its minimum on, which has the least distance of the points
  at which it evaluated, and one point is counted more than there are.
\<close>

theorem continuous_search_outcome:
  assumes "opt_ok d" "length (od_probes d) = od_num_probes d" "\<forall>b. c_alloc L b"
  shows "case xmin_method of
      PLFIT_LINEAR_ONLY \<Rightarrow>
        \<exists>best best_n. continuous_search L fuel xmin_method d = Inr (best, best_n) \<and> scanned L d best best_n
    | PLFIT_STRATIFIED_SAMPLING \<Rightarrow>
        \<exists>best best_n. continuous_search L fuel xmin_method d = Inr (best, best_n) \<and> stratified_outcome L d best best_n
    | PLFIT_GSS_OR_LINEAR \<Rightarrow>
        (5 < od_num_probes d \<and> recorded_search L fuel d = Inl Out_of_fuel \<and>
          continuous_search L fuel xmin_method d = Inl Out_of_fuel) \<or>
        (\<exists>best best_n. continuous_search L fuel xmin_method d = Inr (best, best_n) \<and>
          gss_outcome L fuel d best best_n)"
  using linear_scan_scanned [OF assms(1), of L] stratified_found [OF assms, of fuel] gss_found [OF assms(1), of L fuel]
  by (cases xmin_method) (auto simp: continuous_search_def)

definition six_probes :: plfit_continuous_xmin_opt_data_t where
  "six_probes = \<lparr>od_data = [Fin 1, Fin 2, Fin 3, Fin 4, Fin 5, Fin 6], od_probes = [0, 1, 2, 3, 4, 5], od_num_probes = 6,
     last_alpha = None, last_xmin = NaN, last_D = NaN\<rparr>"

lemma six_probes_ok: "opt_ok six_probes" "length (od_probes six_probes) = od_num_probes six_probes"
  by (auto simp: six_probes_def opt_ok_def positive_data_def sorted_doubles_def no_nan_def)

theorem continuous_search_outcome_witness:
  "(recorded_search plain_clib 7 six_probes = Inl Out_of_fuel \<and>
      continuous_search plain_clib 7 PLFIT_GSS_OR_LINEAR six_probes = Inl Out_of_fuel) \<or>
    (\<exists>best best_n. continuous_search plain_clib 7 PLFIT_GSS_OR_LINEAR six_probes = Inr (best, best_n) \<and>
      gss_outcome plain_clib 7 six_probes best best_n)"
  using continuous_search_outcome [OF six_probes_ok, of plain_clib 7 PLFIT_GSS_OR_LINEAR]
  by (auto simp: plain_clib_def)

subsection \<open>The whole fit\<close>

definition positive_sample :: "double list \<Rightarrow> bool" where
  "positive_sample xs \<longleftrightarrow> xs \<noteq> [] \<and> (\<forall>x \<in> set xs. 0 < x) \<and> length xs \<le> 2 ^ 31"

lemma positive_sample_sorted:
  assumes "positive_sample xs"
  shows "positive_data (qsort double_comparator xs)"
proof -
  have "no_nan xs" using assms by (auto simp: positive_sample_def no_nan_def)
  from sorted_doubles_qsort [OF this] have "sorted_doubles (qsort double_comparator xs)" .
  moreover have "qsort double_comparator xs \<noteq> []"
    using assms length_qsort [of double_comparator xs] by (metis length_0_conv positive_sample_def)
  ultimately show ?thesis using assms by (simp add: positive_data_def positive_sample_def)
qed

lemma map_filter_Some: "List.map_filter id (map Some us) = us"
  by (induction us) (simp_all add: List.map_filter_def)

lemma unique_probes:
  assumes "positive_data data" "\<forall>b. c_alloc L b"
  obtains res us where "unique_element_pointers L data = Inr (res, length us)"
    "List.map_filter id (take (length us) res) = us"
    "opt_ok \<lparr>od_data = data, od_probes = us, od_num_probes = length us, last_alpha = None, last_xmin = NaN, last_D = NaN\<rparr>"
proof -
  have d: "sorted_doubles data" "data \<noteq> []" using assms(1) by (simp_all add: positive_data_def)
  from unique_pointers_ok [OF d assms(2)]
  obtain us res where u: "unique_element_pointers L data = Inr (res, length us)"
    "block_starts data (length data) us" "take (length us + 1) res = map Some us @ [None]"
    by (elim exE conjE)
  have t: "take (length us) res = map Some us"
    using arg_cong [OF u(3), of "take (length us)"] by simp
  have "sorted_wrt (<) us"
    by (rule sorted_wrt_mono_rel [where P = "\<lambda>u v. u < v \<and> data ! u < data ! v"])
      (use u(2) in \<open>simp_all add: block_starts_def\<close>)
  then have "distinct us" by (simp add: strict_sorted_iff)
  moreover have ne: "us \<noteq> []" "set us \<subseteq> {..<length data}" using u(2) unfolding block_starts_def by blast+
  ultimately have "length us \<le> length data"
    using card_mono [of "{..<length data}" "set us"] by (simp add: distinct_card)
  then have "opt_ok \<lparr>od_data = data, od_probes = us, od_num_probes = length us, last_alpha = None, last_xmin = NaN, last_D = NaN\<rparr>"
    using ne assms(1) by (auto simp: opt_ok_def)
  then show ?thesis using u(1) t by (intro that [of res us]) (simp_all add: map_filter_Some)
qed

lemma log_likelihood_cases:
  "plfit_log_likelihood_continuous L xs alpha xmin = plfit_fail PLFIT_EINVAL \<or>
   (\<exists>l. plfit_log_likelihood_continuous L xs alpha xmin = Inr l \<and> \<not> alpha \<le> 1 \<and> \<not> xmin \<le> 0)"
  by (auto simp: plfit_log_likelihood_continuous_def Let_def logsum_less_than_eq)

text \<open>The candidate at an offset, corrected for the size of its tail when the options ask for it.\<close>

definition tail_candidate ::
  "clib \<Rightarrow> plfit_continuous_options_t \<Rightarrow> double list \<Rightarrow> nat \<Rightarrow> plfit_result_t" where
  "tail_candidate L options data off =
     (if co_finite_size_correction options
      then plfit_i_perform_finite_size_correction (probe_result L data off) (length data - off)
      else probe_result L data off)"

definition fit_of ::
  "clib \<Rightarrow> plfit_continuous_options_t \<Rightarrow> double list \<Rightarrow> nat \<Rightarrow> plfit_result_t \<Rightarrow> bool" where
  \<comment> \<open>the candidate with the log-likelihood of its tail, which is not refused for the exponent\<close>
  "fit_of L options data off r \<longleftrightarrow>
     (\<exists>l. plfit_log_likelihood_continuous L (drop off data) (res_alpha r) (data ! off) = Inr l \<and>
       r = (tail_candidate L options data off)\<lparr>res_L := l\<rparr>)"

lemma tail_candidate_simps [simp]:
  "res_xmin (tail_candidate L options data off) = data ! off" "res_D (tail_candidate L options data off) = probe_D L data off"
  by (simp_all add: tail_candidate_def plfit_i_perform_finite_size_correction_def probe_result_def)

lemma fit_of_simps:
  assumes "fit_of L options data off r"
  shows "res_xmin r = data ! off" "res_D r = probe_D L data off"
    "res_alpha r = res_alpha (tail_candidate L options data off)" "\<not> res_alpha r \<le> 1" "r\<lparr>res_p := NaN\<rparr> = r"
  using assms
  by (auto simp: fit_of_def plfit_log_likelihood_continuous_def Let_def tail_candidate_def probe_result_def
      plfit_i_perform_finite_size_correction_def split: if_splits)

lemma search_found_at:
  assumes "opt_ok d" "length (od_probes d) = od_num_probes d" "\<forall>b. c_alloc L b" "xmin_method \<noteq> PLFIT_GSS_OR_LINEAR"
  obtains best best_n where "continuous_search L fuel xmin_method d = Inr (best, best_n)"
    "found_at L (od_data d) best best_n"
proof (cases xmin_method)
  case PLFIT_LINEAR_ONLY
  from linear_scan_found [OF assms(1), of L] scan_found_at [OF assms(1), of L] show ?thesis
    using that by (auto simp: continuous_search_def PLFIT_LINEAR_ONLY)
next
  case PLFIT_STRATIFIED_SAMPLING
  from stratified_found [OF assms(1-3), of fuel] stratified_found_at [OF assms(1,2), of L] show ?thesis
    using that by (auto simp: PLFIT_STRATIFIED_SAMPLING)
qed (use assms(4) in simp)

lemma core_outcome:
  assumes data: "positive_data data" and alloc: "\<forall>b. c_alloc L b"
    and linear: "co_xmin_method options \<noteq> PLFIT_GSS_OR_LINEAR"
  shows "(\<exists>r off. continuous_core L fuel options data = Inr (Fitted r) \<and> off < length data \<and> fit_of L options data off r) \<or>
    (\<exists>D. continuous_core L fuel options data = Inr (Failed PLFIT_EINVAL (Some D)) \<and>
      (D = DBL_MAX \<or> (\<exists>off < length data. D = probe_D L data off \<and> res_alpha (tail_candidate L options data off) \<le> 1)))"
proof -
  let ?d = "\<lambda>us. \<lparr>od_data = data, od_probes = us, od_num_probes = length us, last_alpha = None, last_xmin = NaN, last_D = NaN\<rparr>"
  obtain res us where u: "unique_element_pointers L data = Inr (res, length us)"
    "List.map_filter id (take (length us) res) = us" "opt_ok (?d us)"
    using unique_probes [OF data alloc] by blast
  have "length (od_probes (?d us)) = od_num_probes (?d us)" by simp
  from search_found_at [OF u(3) this alloc linear] obtain best best_n
    where b: "continuous_search L fuel (co_xmin_method options) (?d us) = Inr (best, best_n)"
    "found_at L data best best_n" by auto
  let ?r = "if co_finite_size_correction options then plfit_i_perform_finite_size_correction best best_n else best"
  have r: "res_xmin ?r = res_xmin best" "res_D ?r = res_D best"
    by (simp_all add: plfit_i_perform_finite_size_correction_def)
  let ?lik = "plfit_log_likelihood_continuous L (drop (length data - best_n) data) (res_alpha ?r) (res_xmin ?r)"
  have "best_n \<le> length data" using b(2) by (auto simp: found_at_def)
  then have core: "continuous_core L fuel options data =
      report_check ?lik (Some (res_D ?r)) (\<lambda>l. Inr (Fitted (?r\<lparr>res_L := l\<rparr>)))"
    unfolding continuous_core_def u(1) report_check_def sum.case prod.case u(2) b(1) Let_def log_likelihood_tail_def by simp
  show ?thesis
  proof (cases "best = no_best")
    case True
    then have "res_xmin ?r \<le> 0" "res_D ?r = DBL_MAX" using r by (simp_all add: no_best_def)
    then show ?thesis by (simp add: core plfit_log_likelihood_continuous_def report_check_def)
  next
    case False
    then obtain off where off: "off < length data" "best = probe_result L data off" "best_n = length data - off"
      using b(2) by (auto simp: found_at_def)
    then have c: "?r = tail_candidate L options data off" "length data - best_n = off" by (auto simp: tail_candidate_def)
    from log_likelihood_cases [of L "drop off data" "res_alpha (tail_candidate L options data off)" "data ! off"] show ?thesis
    proof (elim disjE exE conjE)
      fix l
      assume l: "plfit_log_likelihood_continuous L (drop off data) (res_alpha (tail_candidate L options data off)) (data ! off) = Inr l"
      then have "continuous_core L fuel options data = Inr (Fitted ((tail_candidate L options data off)\<lparr>res_L := l\<rparr>))"
        unfolding core c by (simp add: report_check_def)
      with l off(1) show ?thesis by (auto simp: fit_of_def)
    next
      assume f: "plfit_log_likelihood_continuous L (drop off data) (res_alpha (tail_candidate L options data off)) (data ! off) =
        plfit_fail PLFIT_EINVAL"
      have "0 < data ! off" using data off(1) by (simp add: positive_data_def)
      then have "\<not> data ! off \<le> 0" by (simp add: dless_iff)
      with f have "res_alpha (tail_candidate L options data off) \<le> 1"
        by (auto simp: plfit_log_likelihood_continuous_def Let_def split: if_splits prod.splits)
      with f off(1) show ?thesis unfolding core c by (auto simp: report_check_def)
    qed
  qed
qed



end
