(* ===== verification/Continuous_P.thy ===== *)
theory Continuous_P
  imports Continuous
begin

text \<open>
  The p-value of a continuous fit and the public functions that end with it, \<open>src/plfit.c\<close>.
  In the code the p-value and the fit call each other: the p-value of a fit repeats the fit on
  synthetic data with the p-value switched off. The fit without a p-value is
  \<open>fit_continuous\<close> (\<open>estimate_core\<close> for a given \<open>xmin\<close>); that it is what the public functions
  compute when the p-value is switched off is proved below. The code is the sequential one
  (without OpenMP).
\<close>

text \<open>
  One synthetic data set: the buffer \<open>ys\<close>, the distance left in \<open>result_synthetic\<close> (\<open>None\<close>
  while it is not initialised), the number of successes, and the cache and generator. The
  codes of the resampling and of the fit are ignored.
\<close>

type_synonym p_locals = "double list \<times> double option \<times> nat \<times> env"

fun synthetic_D :: "fit_report \<Rightarrow> double option \<Rightarrow> double option" where
  \<comment> \<open>\<open>result_synthetic.D\<close> after the fit\<close>
  "synthetic_D (Fitted r) d = Some (res_D r)"
| "synthetic_D (Failed err (Some x)) d = Some x"
| "synthetic_D (Failed err None) d = d"

definition p_value_trial ::
  "(env \<Rightarrow> resampled) \<Rightarrow> (double list \<Rightarrow> fit_report result) \<Rightarrow> double \<Rightarrow> p_locals \<Rightarrow> p_locals result" where
  "p_value_trial resample refit D s =
     (case s of (ys, d, successes, e) \<Rightarrow>
        plfit_check (resample e) (\<lambda>(code, written, e').
        let ys' = written @ drop (length written) ys in
        plfit_check (refit ys') (\<lambda>report.
        case synthetic_D report d of
          None \<Rightarrow> Inl Undefined
        | Some d' \<Rightarrow> Inr (ys', Some d', (if D < d' then successes + 1 else successes), e'))))"

fun p_value_trials ::
  "(env \<Rightarrow> resampled) \<Rightarrow> (double list \<Rightarrow> fit_report result) \<Rightarrow> double \<Rightarrow> nat \<Rightarrow> p_locals \<Rightarrow> p_locals result" where
  "p_value_trials resample refit D 0 s = Inr s"
| "p_value_trials resample refit D (Suc k) s =
     plfit_check (p_value_trial resample refit D s) (p_value_trials resample refit D k)"

definition exact_p_value ::
  "clib \<Rightarrow> double \<Rightarrow> double list \<Rightarrow> plfit_result_t \<Rightarrow> (double list \<Rightarrow> nat \<Rightarrow> env \<Rightarrow> resampled) \<Rightarrow>
   (double list \<Rightarrow> fit_report result) \<Rightarrow> env \<Rightarrow> (double \<times> env) result" where
  \<comment> \<open>what the continuous and the discrete function share\<close>
  "exact_p_value L precision xs result resample refit e =
     plfit_check (cast_long (lit 0.25 / precision / precision)) (\<lambda>num_trials.
     if num_trials \<le> 0 then plfit_fail PLFIT_EINVAL
     else plfit_check (extract_smaller L xs (res_xmin result)) (\<lambda>(xs_head, num_smaller).
       let n = length xs in
       with_alloc L ((if 0 < n then n else 1) * sizeof_double) (plfit_fail PLFIT_ENOMEM)
         (plfit_check (p_value_trials (resample xs_head num_smaller) refit (res_D result) (nat num_trials)
            (replicate n 0, None, 0, e)) (\<lambda>(ys, d, successes, e').
          Inr (double_of_nat successes / double_of_int num_trials, e')))))"

definition plfit_i_calculate_p_value_continuous ::
  "clib \<Rightarrow> nat \<Rightarrow> double list \<Rightarrow> plfit_continuous_options_t \<Rightarrow> bool \<Rightarrow> plfit_result_t \<Rightarrow> env \<Rightarrow>
   (plfit_result_t \<times> env) result" where
  "plfit_i_calculate_p_value_continuous L fuel xs options xmin_fixed result e =
     (case co_p_value_method options of
        PLFIT_P_VALUE_SKIP \<Rightarrow> Inr (result\<lparr>res_p := NaN\<rparr>, e)
      | PLFIT_P_VALUE_APPROXIMATE \<Rightarrow>
          plfit_check (plfit_ks_test_one_sample_p L (res_D result)
            (length xs - count_smaller xs (res_xmin result))) (\<lambda>p. Inr (result\<lparr>res_p := p\<rparr>, e))
      | PLFIT_P_VALUE_EXACT \<Rightarrow>
          (let options_no_p_value = options\<lparr>co_p_value_method := PLFIT_P_VALUE_SKIP\<rparr> in
           plfit_check (exact_p_value L (co_p_value_precision options) xs result
             (\<lambda>xs_head num_smaller. plfit_i_resample_continuous L fuel xs_head num_smaller (length xs)
                (res_alpha result) (res_xmin result) (length xs))
             (\<lambda>ys. if xmin_fixed then estimate_core L options_no_p_value ys (res_xmin result)
                   else fit_continuous L fuel options_no_p_value ys) e)
             (\<lambda>(p, e'). Inr (result\<lparr>res_p := p\<rparr>, e'))))"

text \<open>The public functions: a fit, and then its p-value on the sorted data.\<close>

definition with_p_value ::
  "clib \<Rightarrow> nat \<Rightarrow> plfit_continuous_options_t \<Rightarrow> bool \<Rightarrow> double list \<Rightarrow> env \<Rightarrow> fit_report result \<Rightarrow>
   (plfit_result_t \<times> env) result" where
  "with_p_value L fuel options xmin_fixed xs e fit =
     plfit_check fit (\<lambda>report.
       case report of
         Failed err D \<Rightarrow> plfit_fail err
       | Fitted r \<Rightarrow> plfit_i_calculate_p_value_continuous L fuel xs options xmin_fixed r e)"

definition plfit_estimate_alpha_continuous_sorted ::
  "clib \<Rightarrow> nat \<Rightarrow> double list \<Rightarrow> double \<Rightarrow> plfit_continuous_options_t option \<Rightarrow> env \<Rightarrow>
   (plfit_result_t \<times> env) result" where
  "plfit_estimate_alpha_continuous_sorted L fuel xs xmin options e =
     (let opts = (case options of None \<Rightarrow> plfit_continuous_default_options | Some opts \<Rightarrow> opts) in
      with_p_value L fuel opts True xs e (estimate_sorted_core L opts xs xmin))"

definition plfit_estimate_alpha_continuous ::
  "clib \<Rightarrow> nat \<Rightarrow> double list \<Rightarrow> double \<Rightarrow> plfit_continuous_options_t option \<Rightarrow> env \<Rightarrow>
   (plfit_result_t \<times> env) result" where
  "plfit_estimate_alpha_continuous L fuel xs xmin options e =
     plfit_check (plfit_i_copy_and_sort L xs) (\<lambda>xs_copy.
       plfit_estimate_alpha_continuous_sorted L fuel xs_copy xmin options e)"

definition plfit_continuous ::
  "clib \<Rightarrow> nat \<Rightarrow> double list \<Rightarrow> plfit_continuous_options_t option \<Rightarrow> env \<Rightarrow> (plfit_result_t \<times> env) result" where
  "plfit_continuous L fuel xs options e =
     (let opts = (case options of None \<Rightarrow> plfit_continuous_default_options | Some opts \<Rightarrow> opts) in
      if xs = [] then plfit_fail PLFIT_EINVAL
      else plfit_check (plfit_i_copy_and_sort L xs) (\<lambda>data.
        with_p_value L fuel opts False data e (continuous_core L fuel opts data)))"

definition plfit_calculate_p_value_continuous ::
  "clib \<Rightarrow> nat \<Rightarrow> double list \<Rightarrow> plfit_continuous_options_t \<Rightarrow> bool \<Rightarrow> plfit_result_t \<Rightarrow> env \<Rightarrow>
   (plfit_result_t \<times> env) result" where
  "plfit_calculate_p_value_continuous L fuel xs options xmin_fixed result e =
     plfit_check (plfit_i_copy_and_sort L xs) (\<lambda>xs_copy.
       plfit_i_calculate_p_value_continuous L fuel xs_copy options xmin_fixed result e)"

subsection \<open>Switching the p-value off\<close>

lemma skip_p_value:
  "co_p_value_method options = PLFIT_P_VALUE_SKIP \<Longrightarrow>
   plfit_i_calculate_p_value_continuous L fuel xs options xmin_fixed r e = Inr (r\<lparr>res_p := NaN\<rparr>, e)"
  by (simp add: plfit_i_calculate_p_value_continuous_def)

definition report_result :: "env \<Rightarrow> fit_report result \<Rightarrow> (plfit_result_t \<times> env) result" where
  \<comment> \<open>what the caller of a public function sees of a fit without p-value\<close>
  "report_result e fit =
     plfit_check fit (\<lambda>report. case report of Failed err D \<Rightarrow> plfit_fail err | Fitted r \<Rightarrow> Inr (r\<lparr>res_p := NaN\<rparr>, e))"

lemma report_check_plfit_check:
  "report_result e (report_check r None k) = plfit_check r (\<lambda>x. report_result e (k x))"
  by (auto simp: report_result_def report_check_def split: sum.splits stop.splits)

text \<open>
  The fits that the p-value repeats on synthetic data are the public functions with the
  p-value switched off: with that option \<open>plfit_continuous\<close> and
  \<open>plfit_estimate_alpha_continuous\<close> draw no random number, keep the cache, and return exactly the
  result or the error code of \<open>fit_continuous\<close> and \<open>estimate_core\<close>, with NaN for the p-value.
\<close>

theorem refit_is_public_function:
  assumes "co_p_value_method options = PLFIT_P_VALUE_SKIP"
  shows "plfit_continuous L fuel xs (Some options) e = report_result e (fit_continuous L fuel options xs) \<and>
    plfit_estimate_alpha_continuous L fuel xs xmin (Some options) e = report_result e (estimate_core L options xs xmin)"
proof -
  have p: "with_p_value L fuel options fixed data e fit = report_result e fit" for fixed data fit
    unfolding with_p_value_def report_result_def
    by (rule plfit_check_cong) (simp_all add: skip_p_value [OF assms] split: fit_report.split)
  have "plfit_continuous L fuel xs (Some options) e = report_result e (fit_continuous L fuel options xs)"
  proof (cases "xs = []")
    case True
    then show ?thesis by (simp add: plfit_continuous_def fit_continuous_def report_result_def)
  next
    case False
    then show ?thesis by (simp add: plfit_continuous_def fit_continuous_def p report_check_plfit_check)
  qed
  moreover have "plfit_estimate_alpha_continuous L fuel xs xmin (Some options) e = report_result e (estimate_core L options xs xmin)"
    by (simp add: plfit_estimate_alpha_continuous_def plfit_estimate_alpha_continuous_sorted_def estimate_core_def p
        report_check_plfit_check)
  ultimately show ?thesis ..
qed

theorem refit_is_public_function_witness:
  "plfit_continuous zero_clib 3 [Fin 1, Fin 2] (Some (plfit_continuous_default_options\<lparr>co_p_value_method := PLFIT_P_VALUE_SKIP\<rparr>))
      (rbinom_initial, Builtin 0) =
    report_result (rbinom_initial, Builtin 0) (fit_continuous zero_clib 3
      (plfit_continuous_default_options\<lparr>co_p_value_method := PLFIT_P_VALUE_SKIP\<rparr>) [Fin 1, Fin 2]) \<and>
   plfit_estimate_alpha_continuous zero_clib 3 [Fin 1, Fin 2] (Fin 1)
      (Some (plfit_continuous_default_options\<lparr>co_p_value_method := PLFIT_P_VALUE_SKIP\<rparr>)) (rbinom_initial, Builtin 0) =
    report_result (rbinom_initial, Builtin 0) (estimate_core zero_clib
      (plfit_continuous_default_options\<lparr>co_p_value_method := PLFIT_P_VALUE_SKIP\<rparr>) [Fin 1, Fin 2] (Fin 1))"
  by (rule refit_is_public_function) simp

subsection \<open>The exact p-value\<close>

lemma count_not_smaller: "length xs - count_smaller xs xmin = length (filter (\<lambda>x. \<not> x < xmin) xs)"
  using sum_length_filter_compl [of "\<lambda>x. x < xmin" xs] by (simp add: count_smaller_eq)

lemma kolmogorov_of_zero: "plfit_kolmogorov zero_clib (Fin 0 * c_sqrt zero_clib (double_of_nat 2)) = Inr 1"
proof -
  have "\<bar>Fin 0 * double_of_nat 2\<bar> < lit 0.2" by code_simp
  then show ?thesis by (simp add: plfit_kolmogorov_def Let_def zero_clib_def plain_clib_def)
qed

lemma p_value_trials_count:
  "p_value_trials resample refit D k (ys, d, s, e) = Inr (ys', d', s', e') \<Longrightarrow> s \<le> s' \<and> s' \<le> s + k"
proof (induction k arbitrary: ys d s e)
  case (Suc k)
  then obtain ys1 d1 s1 e1 where t: "p_value_trial resample refit D (ys, d, s, e) = Inr (ys1, d1, s1, e1)"
    and r: "p_value_trials resample refit D k (ys1, d1, s1, e1) = Inr (ys', d', s', e')"
    by (auto simp: plfit_check_eq_Inr)
  from t obtain d2 where "s1 = (if D < d2 then s + 1 else s)"
    by (auto simp: p_value_trial_def plfit_check_eq_Inr Let_def split: option.splits)
  then have "s \<le> s1" "s1 \<le> s + 1" by auto
  with Suc.IH [OF r] show ?case by simp
qed simp

lemma quotient_in_unit:
  assumes "int k \<le> n" "0 < n"
  shows "0 \<le> double_of_nat k / double_of_int n \<and> double_of_nat k / double_of_int n \<le> 1 \<or>
    \<not> isfinite (double_of_int n)"
proof (cases "isfinite (double_of_int n)")
  case True
  have m: "double_of_nat k \<le> double_of_int n"
    using assms(1) double_of_int_mono [of "int k" n] by (simp add: double_of_nat_def)
  have one: "1 \<le> double_of_int n" using assms(2) double_of_int_mono [of 1 n] by simp
  then have pos: "0 < double_of_int n" by (rule dless_le_trans [rotated]) simp
  have f: "isfinite (double_of_nat k)" using isfinite_between [of 0 _ "double_of_int n"] m True by simp
  have v: "0 \<le> val (double_of_nat k)" "val (double_of_nat k) \<le> val (double_of_int n)" "0 < val (double_of_int n)"
    using f True m pos double_of_nat_nonneg [of k] by (simp_all only: dle_finite dless_finite zero_simps(13,14))
  then have q: "val (double_of_nat k) / val (double_of_int n) \<le> 1" by simp
  have e: "double_of_nat k / double_of_int n =
      to_double (sign_bit (double_of_nat k) \<noteq> sign_bit (double_of_int n)) (val (double_of_nat k) / val (double_of_int n))"
    using f True v(3) by (intro ddiv_finite) auto
  have "0 \<le> double_of_nat k / double_of_int n" unfolding e using v by (intro to_double_nonneg) simp
  moreover have "double_of_nat k / double_of_int n \<le> Fin 1"
    unfolding e using q by (intro to_double_le_Fin) (simp_all add: is_double_Fin)
  ultimately show ?thesis by (simp add: one_double_def)
qed simp

lemma double_of_long_finite: "\<bar>n\<bar> \<le> 2 ^ 63 \<Longrightarrow> isfinite (double_of_int n)"
proof -
  assume n: "\<bar>n\<bar> \<le> 2 ^ 63"
  have "\<bar>rat_of_int n\<bar> = of_int \<bar>n\<bar>" by simp
  also have "\<dots> \<le> of_int (2 ^ 63)" using n by (simp only: of_int_le_iff)
  finally have "\<bar>rat_of_int n\<bar> \<le> 2 ^ 63" by simp
  from to_double_small(1) [OF this] show ?thesis by (simp add: double_of_int_def)
qed

lemma exact_p_value_result:
  assumes "exact_p_value L precision xs result resample refit e = Inr (p, e')"
  shows "\<exists>successes trials. int successes \<le> trials \<and> 0 < trials \<and>
    p = double_of_nat successes / double_of_int trials \<and> 0 \<le> p \<and> p \<le> 1"
proof -
  obtain trials h m ys d s where t: "cast_long (lit 0.25 / precision / precision) = Inr trials" "0 < trials"
    and r: "p_value_trials (resample h m) refit (res_D result) (nat trials) (replicate (length xs) 0, None, 0, e) = Inr (ys, d, s, e')"
    and p: "p = double_of_nat s / double_of_int trials"
    using assms unfolding exact_p_value_def
    by (auto simp: plfit_check_eq_Inr Let_def with_alloc_def not_le simp del: replicate_empty split: if_splits)
  have k: "int s \<le> trials" using p_value_trials_count [OF r] t(2) by simp
  have "trials \<le> 2 ^ 63" using t(1) by (simp add: cast_long_def cast_range_def split: if_splits)
  then have "isfinite (double_of_int trials)" using t(2) by (intro double_of_long_finite) simp
  with quotient_in_unit [OF k t(2)] k t(2) p show ?thesis by auto
qed

text \<open>
  C24. When the calculation of the p-value returns, it changes only the p-value of the result.
  The exact p-value is a number of successes divided by a positive number of trials that is at
  least as large, and lies between 0 and 1; the approximate one is the Kolmogorov probability of
  the distance for as many points as are not below \<open>xmin\<close>; a skipped one is NaN.
\<close>

theorem p_value_continuous_range:
  assumes "plfit_i_calculate_p_value_continuous L fuel xs options xmin_fixed result e = Inr (result', e')"
  shows "result' = result\<lparr>res_p := res_p result'\<rparr> \<and>
    (case co_p_value_method options of
       PLFIT_P_VALUE_SKIP \<Rightarrow> res_p result' = NaN
     | PLFIT_P_VALUE_APPROXIMATE \<Rightarrow>
         plfit_kolmogorov L (res_D result * c_sqrt L (double_of_nat (length (filter (\<lambda>x. \<not> x < res_xmin result) xs)))) =
           Inr (res_p result')
     | PLFIT_P_VALUE_EXACT \<Rightarrow> (\<exists>successes trials. int successes \<le> trials \<and> 0 < trials \<and>
         res_p result' = double_of_nat successes / double_of_int trials \<and> 0 \<le> res_p result' \<and> res_p result' \<le> 1))"
proof (cases "co_p_value_method options")
  case PLFIT_P_VALUE_SKIP
  with assms show ?thesis by (auto simp: plfit_i_calculate_p_value_continuous_def)
next
  case PLFIT_P_VALUE_APPROXIMATE
  with assms show ?thesis
    by (auto simp: count_not_smaller plfit_i_calculate_p_value_continuous_def plfit_ks_test_one_sample_p_def plfit_check_eq_Inr)
next
  case PLFIT_P_VALUE_EXACT
  then obtain p resample refit where p: "result' = result\<lparr>res_p := p\<rparr>"
    and x: "exact_p_value L (co_p_value_precision options) xs result resample refit e = Inr (p, e')"
    using assms by (auto simp: plfit_i_calculate_p_value_continuous_def plfit_check_eq_Inr Let_def)
  from exact_p_value_result [OF x] p PLFIT_P_VALUE_EXACT show ?thesis by simp
qed

lemma p_value_example:
  "plfit_i_calculate_p_value_continuous zero_clib 1 [Fin 1, Fin 2]
     (plfit_continuous_default_options\<lparr>co_p_value_method := PLFIT_P_VALUE_APPROXIMATE\<rparr>) True
     \<lparr>res_alpha = Fin 3, res_xmin = Fin 1, res_L = Fin 0, res_D = Fin 0, res_p = NaN\<rparr> (rbinom_initial, Builtin 0) =
   Inr (\<lparr>res_alpha = Fin 3, res_xmin = Fin 1, res_L = Fin 0, res_D = Fin 0, res_p = 1\<rparr>, (rbinom_initial, Builtin 0))"
  using kolmogorov_of_zero
  by (simp add: plfit_i_calculate_p_value_continuous_def plfit_ks_test_one_sample_p_def count_smaller_def numeral_2_eq_2)

theorem p_value_continuous_range_witness:
  "\<lparr>res_alpha = Fin 3, res_xmin = Fin 1, res_L = Fin 0, res_D = Fin 0, res_p = 1\<rparr> =
    \<lparr>res_alpha = Fin 3, res_xmin = Fin 1, res_L = Fin 0, res_D = Fin 0, res_p = NaN\<rparr>\<lparr>res_p := 1\<rparr> \<and>
   plfit_kolmogorov zero_clib (Fin 0 * c_sqrt zero_clib (double_of_nat (length (filter (\<lambda>x. \<not> x < Fin 1) [Fin 1, Fin 2])))) = Inr 1"
  using p_value_continuous_range [OF p_value_example] by simp

end
