(* ===== verification/Hzeta.thy ===== *)
theory Hzeta
  imports Clib
begin

text \<open>
  \<open>src/hzeta.c\<close>: the Hurwitz zeta function, its first two derivatives, and its logarithm with the
  logarithmic derivative, by Euler-Maclaurin summation. The terms of a series are stored in a
  local array of fixed length and added up from the last to the first; a store past the end of
  the array is \<open>Undefined\<close>. A function that returns an error code leaves its results as they
  were.
\<close>

definition GSL_LOG_DBL_MIN :: double where "GSL_LOG_DBL_MIN = lit (- (70839641853226408 / 10 ^ 14))"
definition GSL_LOG_DBL_MAX :: double where "GSL_LOG_DBL_MAX = lit (70978271289338397 / 10 ^ 14)"
definition GSL_DBL_EPSILON :: double where "GSL_DBL_EPSILON = lit (22204460492503131 / 10 ^ 32)"
definition M_LOG2E :: double where "M_LOG2E = lit (144269504088896340735992468100189214 / 10 ^ 35)"
definition M_LN2 :: double where "M_LN2 = lit (693147180559945309417232121458176568 / 10 ^ 36)"

record gsl_sf_result =
  sf_val :: double
  sf_err :: double

definition SERIES_SHIFT :: nat where "SERIES_SHIFT = 10"
definition SERIES_ORDER :: nat where "SERIES_ORDER = 32"
definition SHIFT_MAX :: nat where "SHIFT_MAX = 256"

definition series_coeffs :: "double list" where
  "series_coeffs =
    [lit (1),
     lit (1 / 12),
     lit (-1 / 720),
     lit (1 / 30240),
     lit (-1 / 1209600),
     lit (1 / 47900160),
     lit (-691 / 1307674368000),
     lit (1 / 74724249600),
     lit (-338968029632258286683019539125 / 10 ^ 42),
     lit (858606205627784456413590545043 / 10 ^ 44),
     lit (-217486869855806187304151642387 / 10 ^ 45),
     lit (550900282836022951520265260890 / 10 ^ 47),
     lit (-139544646858125233407076862641 / 10 ^ 48),
     lit (353470703962946747169322997780 / 10 ^ 50),
     lit (-895351742703754685040261131811 / 10 ^ 52),
     lit (226795245233768306031095073887 / 10 ^ 53),
     lit (-574479066887220244526388198761 / 10 ^ 55),
     lit (145517247561486490186626486727 / 10 ^ 56),
     lit (-368599494066531017818178247991 / 10 ^ 58),
     lit (933673425709504467203255515279 / 10 ^ 60),
     lit (-236502241570062993455963519637 / 10 ^ 61),
     lit (599067176248213430465991239682 / 10 ^ 63),
     lit (-151745488446829026171081313586 / 10 ^ 64),
     lit (384375812545418823222944529099 / 10 ^ 66),
     lit (-973635307264669103526762127925 / 10 ^ 68),
     lit (246624704420068095710640028029 / 10 ^ 69),
     lit (-624707674182074369314875679472 / 10 ^ 71),
     lit (158240302446449142975108170683 / 10 ^ 72),
     lit (-400827368594893596853001219052 / 10 ^ 74),
     lit (101530758555695563116307139454 / 10 ^ 75),
     lit (-257180415824187174992481940976 / 10 ^ 77),
     lit (651445603523381493155843485864 / 10 ^ 79),
     lit (-165013099068965245550609878048 / 10 ^ 80),
     NaN]"

definition series_majorantratios :: "double list" where
  "series_majorantratios =
    [lit (-2),
     lit (1 / 6),
     lit (1 / 360),
     lit (1 / 15120),
     lit (1 / 604800),
     lit (1 / 23950080),
     lit (691 / 653837184000),
     lit (1 / 37362124800),
     lit (3617 / 5335311421440000),
     lit (171721241125556891282718109009 / 10 ^ 43),
     lit (434973739711612374608303284773 / 10 ^ 45),
     lit (110180056567204590304053052178 / 10 ^ 46),
     lit (279089293716250466814153725281 / 10 ^ 48),
     lit (706941407925893494338645995561 / 10 ^ 50),
     lit (179070348540750937008052226362 / 10 ^ 51),
     lit (453590490467536612062190147774 / 10 ^ 53),
     lit (114895813377444048905277639752 / 10 ^ 54),
     lit (291034495122972980373252973454 / 10 ^ 56),
     lit (737198988133062035636356495982 / 10 ^ 58),
     lit (186734685141900893440651103056 / 10 ^ 59),
     lit (473004483140125986911927039274 / 10 ^ 61),
     lit (119813435249642686093198247936 / 10 ^ 62),
     lit (303490976893658052342162627173 / 10 ^ 64),
     lit (768751625090837646445889058198 / 10 ^ 66),
     lit (194727061452933820705352425585 / 10 ^ 67),
     lit (493249408840136191421280056051 / 10 ^ 69),
     lit (124941534836414873862975135893 / 10 ^ 70),
     lit (316480604892898285950216341362 / 10 ^ 72),
     lit (801654737189787193706002438098 / 10 ^ 74),
     lit (203061517111391126232614278906 / 10 ^ 75),
     lit (514360831648374349984963881946 / 10 ^ 77),
     lit (130289120704676298631168697172 / 10 ^ 78),
     lit (330026198137930491101219756091 / 10 ^ 80),
     NaN]"

subsection \<open>The series\<close>

text \<open>
  The array \<open>terms\<close> with its fill count, and the running sum \<open>ans\<close>. The statement
  \<open>ans += (terms[n++] = x)\<close>, for an array of \<open>cap\<close> entries:
\<close>

type_synonym series = "double list \<times> double"

definition add_term :: "nat \<Rightarrow> double \<Rightarrow> series \<Rightarrow> series result" where
  "add_term cap x s =
     (if length (fst s) < cap then Inr (fst s @ [x], snd s + x) else Inl Undefined)"

definition no_terms :: series where "no_terms = ([], 0)"

text \<open>
  The variables of the correction series: \<open>tscp\<close>, \<open>scp\<close> the rising factorial of \<open>s\<close>, \<open>pcp\<close> the
  power of the shifted argument, \<open>lcp\<close> and \<open>sqr_lcp\<close> the logarithmic factors of the derivatives
  (unused by the function itself), and \<open>ratio\<close> their product.
\<close>

record em_vars =
  tscp :: double
  scp :: double
  pcp :: double
  lcp :: double
  sqr_lcp :: double
  ratio :: double

text \<open>
  The correction loop from \<open>j\<close> to \<open>SERIES_ORDER\<close>, with \<open>k\<close> iterations left; \<open>update\<close> is what the
  body does to the variables. It breaks when a correction no longer changes the sum by half a
  rounding error, and is an error when it never does.
\<close>

fun em_loop :: "nat \<Rightarrow> (em_vars \<Rightarrow> em_vars) \<Rightarrow> nat \<Rightarrow> nat \<Rightarrow> em_vars \<Rightarrow> series \<Rightarrow>
    (nat \<times> em_vars \<times> series) result" where
  "em_loop cap update 0 j v ser = plfit_fail PLFIT_EMAXITER"
| "em_loop cap update (Suc k) j v ser =
     (let delta = series_coeffs ! j * ratio v in
      plfit_check (add_term cap delta ser) (\<lambda>ser.
        let v = update v in
        if \<bar>delta / snd ser\<bar> < lit 0.5 * GSL_DBL_EPSILON then Inr (j, v, ser)
        else em_loop cap update k (Suc j) v ser))"

text \<open>The last sum, from the smallest term to the largest, and the remainder's bound \<open>mjr\<close>.\<close>

definition em_sum :: "nat \<times> em_vars \<times> series \<Rightarrow> double \<times> double" where
  "em_sum r = (case r of (j, v, ser) \<Rightarrow>
     (foldl (+) 0 (rev (fst ser)), series_majorantratios ! j * ratio v))"

subsection \<open>The function and its derivatives\<close>

text \<open>The checks of the arguments that the three functions share, with \<open>ln_term0\<close>.\<close>

definition hzeta_guard :: "clib \<Rightarrow> double \<Rightarrow> double \<Rightarrow> 'a result \<Rightarrow> 'a result" where
  "hzeta_guard L s q body =
     (if s \<le> 1 \<or> q \<le> 0 then plfit_fail PLFIT_EINVAL
      else if - s * c_log L q < GSL_LOG_DBL_MIN + 1 then plfit_fail PLFIT_UNDRFLOW
      else if GSL_LOG_DBL_MAX - 1 < - s * c_log L q then plfit_fail PLFIT_OVERFLOW
      else body)"

definition hzeta_cap :: nat where "hzeta_cap = SERIES_SHIFT + SERIES_ORDER + 1"

definition hzeta_err :: "double \<Rightarrow> double \<Rightarrow> double" where
  "hzeta_err ans mjr =
     lit 2 * ((double_of_nat SERIES_SHIFT + 1) * GSL_DBL_EPSILON * \<bar>ans\<bar> + mjr)"

definition hzeta_update :: "double \<Rightarrow> em_vars \<Rightarrow> em_vars" where
  "hzeta_update sqr_inv_qshift v =
     (let t1 = tscp v + 1; t2 = t1 + 1; c = scp v * t1 * t2; p = pcp v * sqr_inv_qshift
      in v\<lparr>tscp := t2, scp := c, pcp := p, ratio := c * p\<rparr>)"

definition hzeta_series :: "clib \<Rightarrow> double \<Rightarrow> double \<Rightarrow> gsl_sf_result result" where
  "hzeta_series L s q =
     (let qshift = double_of_nat SERIES_SHIFT + q;
          inv_qshift = 1 / qshift;
          sqr_inv_qshift = inv_qshift * inv_qshift;
          inv_sm1 = 1 / (s - 1);
          pmax = c_pow L qshift (- s);
          pcp = pmax * inv_qshift;
          head = map (\<lambda>j. c_pow L (double_of_nat j + q) (- s)) [0..<SERIES_SHIFT]
      in plfit_check (loop_res (add_term hzeta_cap)
           (head @ [lit 0.5 * pmax, pmax * qshift * inv_sm1]) no_terms) (\<lambda>ser.
         plfit_check (em_loop hzeta_cap (hzeta_update sqr_inv_qshift) SERIES_ORDER 1
           \<lparr>tscp = s, scp = s, pcp = pcp, lcp = NaN, sqr_lcp = NaN, ratio = s * pcp\<rparr> ser) (\<lambda>r.
         case em_sum r of (ans, mjr) \<Rightarrow> Inr \<lparr>sf_val = ans, sf_err = hzeta_err ans mjr\<rparr>)))"

definition hsl_sf_hzeta_e :: "clib \<Rightarrow> double \<Rightarrow> double \<Rightarrow> gsl_sf_result result" where
  "hsl_sf_hzeta_e L s q =
     hzeta_guard L s q
       (let max_bits = lit 54 in
        if max_bits < s \<and> q < 1 \<or> lit 0.5 * max_bits < s \<and> q < lit 0.25 then
          let v = c_pow L q (- s) in
          Inr \<lparr>sf_val = v, sf_err = lit 2 * GSL_DBL_EPSILON * \<bar>v\<bar>\<rparr>
        else if lit 0.5 * max_bits < s \<and> q < 1 then
          let a0 = c_pow L q (- s);
              p1 = c_pow L (q / (1 + q)) s;
              p2 = c_pow L (q / (lit 2 + q)) s;
              ans = a0 * (1 + p1 + p2)
          in Inr \<lparr>sf_val = ans, sf_err = GSL_DBL_EPSILON * (lit 2 + lit 0.5 * s) * \<bar>ans\<bar>\<rparr>
        else hzeta_series L s q)"

text \<open>
  The wrappers return the value of a local result that the called function leaves unset when
  it fails.
\<close>

definition sf_eval :: "gsl_sf_result result \<Rightarrow> double result" where
  "sf_eval r = (case r of Inr g \<Rightarrow> Inr (sf_val g) | Inl (Err _) \<Rightarrow> Inl Undefined | Inl e \<Rightarrow> Inl e)"

definition hsl_sf_hzeta :: "clib \<Rightarrow> double \<Rightarrow> double \<Rightarrow> double result" where
  "hsl_sf_hzeta L s q = sf_eval (hsl_sf_hzeta_e L s q)"

text \<open>The values that \<open>qs\<close> takes in a loop that starts at \<open>q\<close> and adds one \<open>n\<close> times.\<close>

fun counted_up :: "nat \<Rightarrow> double \<Rightarrow> double list" where
  "counted_up 0 q = []"
| "counted_up (Suc n) q = q # counted_up n (q + 1)"

definition deriv_update :: "double \<Rightarrow> em_vars \<Rightarrow> em_vars" where
  "deriv_update sqr_inv_qshift v =
     (let t1 = tscp v + 1; l1 = lcp v - 1 / t1; t2 = t1 + 1; l2 = l1 - 1 / t2;
          c = scp v * t1 * t2; p = pcp v * sqr_inv_qshift
      in v\<lparr>tscp := t2, scp := c, lcp := l2, pcp := p, ratio := c * p * l2\<rparr>)"

definition hsl_sf_hzeta_deriv_e :: "clib \<Rightarrow> double \<Rightarrow> double \<Rightarrow> gsl_sf_result result" where
  "hsl_sf_hzeta_deriv_e L s q =
     hzeta_guard L s q
       (let qshift = double_of_nat SERIES_SHIFT + q;
            inv_qshift = 1 / qshift;
            sqr_inv_qshift = inv_qshift * inv_qshift;
            inv_sm1 = 1 / (s - 1);
            pmax = c_pow L qshift (- s);
            lmax = c_log L qshift;
            pcp = pmax * inv_qshift;
            lcp = lmax - 1 / s;
            head = map (\<lambda>qs. c_log L qs * c_pow L qs (- s)) (counted_up SERIES_SHIFT q)
        in plfit_check (loop_res (add_term hzeta_cap)
             (head @ [lit 0.5 * lmax * pmax, pmax * qshift * inv_sm1 * (lmax + inv_sm1)]) no_terms)
             (\<lambda>ser.
           plfit_check (em_loop hzeta_cap (deriv_update sqr_inv_qshift) SERIES_ORDER 1
             \<lparr>tscp = s, scp = s, pcp = pcp, lcp = lcp, sqr_lcp = NaN, ratio = s * pcp * lcp\<rparr> ser)
             (\<lambda>r. case em_sum r of (ans, mjr) \<Rightarrow>
               Inr \<lparr>sf_val = - ans, sf_err = hzeta_err ans mjr\<rparr>)))"

definition hsl_sf_hzeta_deriv :: "clib \<Rightarrow> double \<Rightarrow> double \<Rightarrow> double result" where
  "hsl_sf_hzeta_deriv L s q = sf_eval (hsl_sf_hzeta_deriv_e L s q)"

text \<open>
  The body of the second derivative's loop; \<open>lcp\<close> is increased after the test that may leave the
  loop, where nothing reads it any more.
\<close>

definition deriv2_update :: "double \<Rightarrow> em_vars \<Rightarrow> em_vars" where
  "deriv2_update sqr_inv_qshift v =
     (let t1 = tscp v + 1; t2 = t1 + 1; c = scp v * t1 * t2;
          slcp = 1 / t1 + 1 / t2; plcp = 1 / t1 / t2;
          p = pcp v * sqr_inv_qshift;
          sl = sqr_lcp v + lit 2 * (plcp + slcp * lcp v)
      in v\<lparr>tscp := t2, scp := c, pcp := p, sqr_lcp := sl, ratio := c * p * sl, lcp := lcp v + slcp\<rparr>)"

definition hsl_sf_hzeta_deriv2_e :: "clib \<Rightarrow> double \<Rightarrow> double \<Rightarrow> gsl_sf_result result" where
  "hsl_sf_hzeta_deriv2_e L s q =
     hzeta_guard L s q
       (let qshift = double_of_nat SERIES_SHIFT + q;
            inv_qshift = 1 / qshift;
            sqr_inv_qshift = inv_qshift * inv_qshift;
            inv_sm1 = 1 / (s - 1);
            pmax = c_pow L qshift (- s);
            lmax = c_log L qshift;
            lmax_p_inv_sm1 = lmax + inv_sm1;
            sqr_inv_sm1 = inv_sm1 * inv_sm1;
            sqr_lmax = lmax * lmax;
            sqr_lmax_p_inv_sm1 = lmax_p_inv_sm1 * lmax_p_inv_sm1;
            pcp = pmax * inv_qshift;
            lcp = 1 / s - lmax;
            sqr_lcp = lmax * (lmax - lit 2 / s);
            head = map (\<lambda>qs. let lqs = c_log L qs in lqs * lqs * c_pow L qs (- s))
              (counted_up SERIES_SHIFT q)
        in plfit_check (loop_res (add_term hzeta_cap)
             (head @ [lit 0.5 * sqr_lmax * pmax,
                      pmax * qshift * inv_sm1 * (sqr_lmax_p_inv_sm1 + sqr_inv_sm1)]) no_terms)
             (\<lambda>ser.
           plfit_check (em_loop hzeta_cap (deriv2_update sqr_inv_qshift) SERIES_ORDER 1
             \<lparr>tscp = s, scp = s, pcp = pcp, lcp = lcp, sqr_lcp = sqr_lcp, ratio = s * pcp * sqr_lcp\<rparr> ser)
             (\<lambda>r. case em_sum r of (ans, mjr) \<Rightarrow>
               Inr \<lparr>sf_val = ans, sf_err = hzeta_err ans mjr\<rparr>)))"

definition hsl_sf_hzeta_deriv2 :: "clib \<Rightarrow> double \<Rightarrow> double \<Rightarrow> double result" where
  "hsl_sf_hzeta_deriv2 L s q = sf_eval (hsl_sf_hzeta_deriv2_e L s q)"

subsection \<open>The logarithm of the function\<close>

definition hsl_sf_hZeta0_zed :: "clib \<Rightarrow> double \<Rightarrow> double \<Rightarrow> double" where
  "hsl_sf_hZeta0_zed L s q =
     (let ld_q = long_of_double q;
          ld_s = long_of_double s;
          half = long_of_double (lit 0.5);
          ld_log1prq = c_log1pl L (ldiv 1 ld_q);
          ld_epsilon = c_expm1l L (lmul (lneg ld_s) ld_log1prq);
          ld_z = ladd ld_s (lmul (ladd (ladd ld_q (lmul half ld_s)) half) ld_epsilon)
      in double_of_long ld_z)"

definition hsl_sf_hZeta1_zed :: "clib \<Rightarrow> double \<Rightarrow> double \<Rightarrow> double" where
  "hsl_sf_hZeta1_zed L s q =
     (let ld_q = long_of_double q;
          ld_s = long_of_double s;
          half = long_of_double (lit 0.5);
          ld_sm1 = ladd ld_s (lneg 1);
          ld_logq = c_logl L ld_q;
          ld_log1prq = c_log1pl L (ldiv 1 ld_q);
          ld_inv_logq = ldiv 1 ld_logq;
          ld_logratiom1 = lmul ld_log1prq ld_inv_logq;
          ld_powratiom1 = c_expm1l L (lmul (lneg ld_s) ld_log1prq);
          ld_varepsilon = c_expm1l L (lmul (lneg ld_sm1) ld_log1prq);
          ld_epsilon = ladd (ladd ld_logratiom1 ld_powratiom1) (lmul ld_logratiom1 ld_powratiom1);
          ld_z = ladd
            (ladd ld_s (lmul (ladd (ladd ld_q (lmul half ld_s)) half) ld_epsilon))
            (lmul (lmul (ldiv ld_q ld_sm1) ld_inv_logq) ld_varepsilon)
      in double_of_long ld_z)"

definition lnhzeta_cap :: nat where "lnhzeta_cap = SHIFT_MAX + SERIES_ORDER + 1"

text \<open>How many terms are summed directly: \<open>ceil (10 s - q)\<close>, kept between 0 and \<open>SHIFT_MAX\<close>.\<close>

definition lnhzeta_shift :: "double \<Rightarrow> double \<Rightarrow> nat" where
  "lnhzeta_shift s q =
     (let criterion = dceil (lit 10 * s - q)
      in if criterion < 0 then 0
         else if criterion < double_of_nat SHIFT_MAX then nat (trunc_rat (val criterion))
         else SHIFT_MAX)"

text \<open>
  The loop over the terms that are summed directly: \<open>zed\<close> is the term at \<open>qs\<close> and \<open>weight j qs\<close>
  its factor \<open>a\<close> once \<open>j\<close> and \<open>qs\<close> have been increased. Returns the last \<open>a\<close>.
\<close>

fun shift_loop :: "(double \<Rightarrow> double) \<Rightarrow> (nat \<Rightarrow> double \<Rightarrow> double) \<Rightarrow> double \<Rightarrow> nat \<Rightarrow> nat \<Rightarrow> double \<Rightarrow>
    double \<Rightarrow> series \<Rightarrow> (double \<times> series) result" where
  "shift_loop zed weight scale 0 j qs a ser = Inr (a, ser)"
| "shift_loop zed weight scale (Suc k) j qs a ser =
     plfit_check (add_term lnhzeta_cap (a * zed qs * scale) ser) (\<lambda>ser.
       shift_loop zed weight scale k (Suc j) (qs + 1) (weight (Suc j) (qs + 1)) ser)"

definition lnhzeta_err :: "nat \<Rightarrow> double \<Rightarrow> double \<Rightarrow> double" where
  "lnhzeta_err shift ans mjr =
     lit 2 * (double_of_nat (shift + 1) * GSL_DBL_EPSILON * \<bar>ans\<bar> + mjr)"

definition hsl_sf_hZeta0 :: "clib \<Rightarrow> double \<Rightarrow> double \<Rightarrow> (double \<times> double) result" where
  "hsl_sf_hZeta0 L s q =
     (let shift = lnhzeta_shift s q;
          qshift = double_of_nat shift + q;
          inv_qshift = 1 / qshift;
          sqr_inv_qshift = inv_qshift * inv_qshift;
          sm1 = s - 1;
          pcp0 = inv_qshift / (lit 2 * qshift + sm1);
          hsm1 = lit 0.5 * sm1;
          inv_q = 1 / q;
          inv_qphsm1 = 1 / (q + hsm1);
          qshiftphsm1 = qshift + hsm1;
          weight = (\<lambda>j qs. c_exp L (- s * c_log1p L (double_of_nat j * inv_q)))
      in plfit_check (shift_loop (hsl_sf_hZeta0_zed L s) weight inv_qphsm1 shift 0 q 1 no_terms)
           (\<lambda>(a, ser).
         let pcp1 = (if shift = 0 then pcp0 else pcp0 * (a * qshiftphsm1 * inv_qphsm1));
             scp1 = s * sm1
         in plfit_check (add_term lnhzeta_cap (scp1 * pcp1 / lit 6) ser) (\<lambda>ser.
         let t1 = s + 1; t2 = t1 + 1; scp2 = scp1 * t1 * t2; pcp2 = pcp1 * (lit 2 * sqr_inv_qshift)
         in plfit_check (em_loop lnhzeta_cap (hzeta_update sqr_inv_qshift) (SERIES_ORDER - 1) 2
              \<lparr>tscp = t2, scp = scp2, pcp = pcp2, lcp = NaN, sqr_lcp = NaN, ratio = scp2 * pcp2\<rparr> ser)
              (\<lambda>r. case em_sum r of (ans, mjr) \<Rightarrow> Inr (ans, lnhzeta_err shift ans mjr)))))"

text \<open>The body of the loop of \<open>hZeta1\<close>, which also prepares its first round.\<close>

definition hZeta1_update :: "double \<Rightarrow> double \<Rightarrow> em_vars \<Rightarrow> em_vars" where
  "hZeta1_update inv_ln_qshift sqr_inv_qshift v =
     (let t1 = tscp v + 1; l1 = lcp v - inv_ln_qshift / t1;
          t2 = t1 + 1; l2 = l1 - inv_ln_qshift / t2;
          c = scp v * t1 * t2; p = pcp v * sqr_inv_qshift
      in v\<lparr>tscp := t2, scp := c, lcp := l2, pcp := p, ratio := c * p * l2\<rparr>)"

text \<open>
  \<open>hsl_sf_hZeta1\<close> returns the value, its error and, through the pointer \<open>coeff1\<close> when the caller
  passes one, the coefficient.
\<close>

definition hsl_sf_hZeta1 ::
  "clib \<Rightarrow> double \<Rightarrow> double \<Rightarrow> double \<Rightarrow> (double \<times> double \<times> double) result" where
  "hsl_sf_hZeta1 L s q ln_q =
     (let shift = lnhzeta_shift s q;
          qshift = double_of_nat shift + q;
          ln_qshift = c_log L qshift;
          inv_qshift = 1 / qshift;
          inv_ln_q = 1 / ln_q;
          inv_ln_qshift = 1 / ln_qshift;
          sqr_inv_qshift = inv_qshift * inv_qshift;
          sm1 = s - 1;
          hsm1 = lit 0.5 * sm1;
          q_over_ln_q = q * inv_ln_q;
          qshift_over_ln_qshift = qshift * inv_ln_qshift;
          qphsm1 = q + hsm1;
          qshiftphsm1 = qshift + hsm1;
          pcp0 = inv_qshift * sm1 / (qshift_over_ln_qshift + sm1 * qshiftphsm1);
          inv_q = 1 / q;
          inv_sm1 = 1 / sm1;
          w = 1 + inv_sm1 * inv_ln_q;
          wshift = 1 + inv_sm1 * inv_ln_qshift;
          inv_qwphsm1 = 1 / (q * w + hsm1);
          qshiftwshiftphsm1 = qshift * wshift + hsm1;
          weight = (\<lambda>j qs. c_log L qs * inv_ln_q * c_exp L (- s * c_log1p L (double_of_nat j * inv_q)))
      in plfit_check (shift_loop (hsl_sf_hZeta1_zed L s) weight inv_qwphsm1 shift 0 q 1 no_terms)
           (\<lambda>(a, ser).
         let pcp1 = (if shift = 0 then pcp0 else pcp0 * (a * qshiftwshiftphsm1 * inv_qwphsm1));
             scp1 = s * sm1;
             lcp1 = 1 - inv_ln_qshift / s
         in plfit_check (add_term lnhzeta_cap (scp1 * pcp1 * lcp1 / lit 12) ser) (\<lambda>ser.
         plfit_check (em_loop lnhzeta_cap (hZeta1_update inv_ln_qshift sqr_inv_qshift)
              (SERIES_ORDER - 1) 2
              (hZeta1_update inv_ln_qshift sqr_inv_qshift
                \<lparr>tscp = s, scp = scp1, pcp = pcp1, lcp = lcp1, sqr_lcp = NaN, ratio = NaN\<rparr>) ser)
              (\<lambda>r. case em_sum r of (ans, mjr) \<Rightarrow>
                Inr (ans, lnhzeta_err shift ans mjr, 1 + q_over_ln_q / qphsm1 / sm1)))))"

text \<open>
  The callers ignore the error codes of these two functions; the variables that they were to set
  then still hold their initial NaN.
\<close>

definition or_unset :: "'a \<Rightarrow> 'a result \<Rightarrow> 'a result" where
  "or_unset initial r = (case r of Inl (Err _) \<Rightarrow> Inr initial | _ \<Rightarrow> r)"

text \<open>
  \<open>hsl_sf_lnhzeta_deriv_tuple_e\<close>, in its two cases. \<open>wants\<close> and \<open>wants_deriv\<close> tell whether the
  pointers for the two results are not null.
\<close>

definition lnhzeta_at_one :: "clib \<Rightarrow> double \<Rightarrow> bool \<Rightarrow> bool \<Rightarrow>
    (gsl_sf_result option \<times> gsl_sf_result option) result" where
  "lnhzeta_at_one L s wants wants_deriv =
     (let inv_sm1 = 1 / (s - 1);
          inv_qsm1 = lit 4 * inv_sm1;
          hz_coeff0 = c_exp2 L (s + 1);
          hz_coeff1 = 1 + inv_qsm1
      in plfit_check (or_unset (NaN, NaN) (hsl_sf_hZeta0 L s (lit 2))) (\<lambda>(z0, hZeta0_abserror).
         let hZeta0_value = z0 + 1;
             ln_hz_coeff = hz_coeff1 / hz_coeff0;
             ln_hZeta0_value = ln_hz_coeff * hZeta0_value;
             result = \<lparr>sf_val = c_log1p L ln_hZeta0_value,
               sf_err = (lit 2 * GSL_DBL_EPSILON * ln_hz_coeff + hZeta0_abserror) / (1 + ln_hZeta0_value)\<rparr>
         in if \<not> wants_deriv then Inr (if wants then Some result else None, None)
            else plfit_check (or_unset (NaN, NaN, NaN) (hsl_sf_hZeta1 L s (lit 2) M_LN2))
              (\<lambda>(z1, hZeta1_abserror, _).
              let ld_hz_coeff2 = 1 + inv_sm1 * M_LOG2E;
                  ld_hz_coeff1 = 1 + inv_qsm1 * ld_hz_coeff2;
                  v0 = hZeta0_value * hz_coeff1 + hz_coeff0;
                  v1 = (z1 + 1) * (- M_LN2 * ld_hz_coeff1)
              in Inr (if wants then Some result else None,
                Some \<lparr>sf_val = v1 / v0,
                  sf_err = lit 2 * GSL_DBL_EPSILON * \<bar>v1 / v0\<bar> + (hZeta0_abserror + hZeta1_abserror)\<rparr>))))"

definition lnhzeta_elsewhere :: "clib \<Rightarrow> double \<Rightarrow> double \<Rightarrow> bool \<Rightarrow> bool \<Rightarrow>
    (gsl_sf_result option \<times> gsl_sf_result option) result" where
  "lnhzeta_elsewhere L s q wants wants_deriv =
     (let ln_q = c_log L q
      in plfit_check (or_unset (NaN, NaN) (hsl_sf_hZeta0 L s q)) (\<lambda>(hZeta0_value, hZeta0_abserror).
         let ln_hz_term0 = - s * ln_q;
             ln_hz_term1 = c_log L (lit 0.5 + q / (s - 1));
             result = \<lparr>sf_val = ln_hz_term0 + ln_hz_term1 + c_log1p L hZeta0_value,
               sf_err = lit 2 * GSL_DBL_EPSILON * (\<bar>ln_hz_term0\<bar> + \<bar>ln_hz_term1\<bar>)
                 + hZeta0_abserror / (1 + hZeta0_value)\<rparr>
         in if \<not> wants_deriv then Inr (if wants then Some result else None, None)
            else plfit_check (or_unset (NaN, NaN, NaN) (hsl_sf_hZeta1 L s q ln_q))
              (\<lambda>(hZeta1_value, hZeta1_abserror, ld_hz_coeff1).
              let v = - ln_q * ld_hz_coeff1 * (1 + hZeta1_value) / (1 + hZeta0_value)
              in Inr (if wants then Some result else None,
                Some \<lparr>sf_val = v,
                  sf_err = lit 2 * GSL_DBL_EPSILON * \<bar>v\<bar> + (hZeta0_abserror + hZeta1_abserror)\<rparr>))))"

definition hsl_sf_lnhzeta_deriv_tuple_e :: "clib \<Rightarrow> double \<Rightarrow> double \<Rightarrow> bool \<Rightarrow> bool \<Rightarrow>
    (gsl_sf_result option \<times> gsl_sf_result option) result" where
  "hsl_sf_lnhzeta_deriv_tuple_e L s q wants wants_deriv =
     (if s \<le> 1 \<or> q \<le> 0 then plfit_fail PLFIT_EINVAL
      else if deq q 1 then lnhzeta_at_one L s wants wants_deriv
      else lnhzeta_elsewhere L s q wants wants_deriv)"

definition hsl_sf_lnhzeta_e :: "clib \<Rightarrow> double \<Rightarrow> double \<Rightarrow> gsl_sf_result result" where
  "hsl_sf_lnhzeta_e L s q =
     plfit_check (hsl_sf_lnhzeta_deriv_tuple_e L s q True False) (\<lambda>(r, _). Inr (the r))"

definition hsl_sf_lnhzeta_deriv_e :: "clib \<Rightarrow> double \<Rightarrow> double \<Rightarrow> gsl_sf_result result" where
  "hsl_sf_lnhzeta_deriv_e L s q =
     plfit_check (hsl_sf_lnhzeta_deriv_tuple_e L s q False True) (\<lambda>(_, r). Inr (the r))"

definition hsl_sf_lnhzeta :: "clib \<Rightarrow> double \<Rightarrow> double \<Rightarrow> double result" where
  "hsl_sf_lnhzeta L s q = sf_eval (hsl_sf_lnhzeta_e L s q)"

definition hsl_sf_lnhzeta_deriv :: "clib \<Rightarrow> double \<Rightarrow> double \<Rightarrow> double result" where
  "hsl_sf_lnhzeta_deriv L s q = sf_eval (hsl_sf_lnhzeta_deriv_e L s q)"

text \<open>What it writes to \<open>tuple0\<close> and \<open>tuple1\<close>; it returns the first.\<close>

definition hsl_sf_lnhzeta_deriv_tuple :: "clib \<Rightarrow> double \<Rightarrow> double \<Rightarrow> (double \<times> double) result" where
  "hsl_sf_lnhzeta_deriv_tuple L s q =
     (case hsl_sf_lnhzeta_deriv_tuple_e L s q True True of
        Inr (r0, r1) \<Rightarrow> Inr (sf_val (the r0), sf_val (the r1))
      | Inl (Err _) \<Rightarrow> Inl Undefined
      | Inl e \<Rightarrow> Inl e)"

subsection \<open>The loop against a reference\<close>

text \<open>
  The first \<open>n\<close> corrections from index \<open>j\<close> on, the test that ends the series after its last
  term, and the series without the loop: the least number of corrections after which the test
  holds, if the array has room for them.
\<close>

definition corrections :: "(em_vars \<Rightarrow> em_vars) \<Rightarrow> nat \<Rightarrow> em_vars \<Rightarrow> nat \<Rightarrow> double list" where
  "corrections update j v n = map (\<lambda>i. series_coeffs ! (j + i) * ratio ((update ^^ i) v)) [0..<n]"

definition settled :: "double list \<Rightarrow> bool" where
  "settled ts \<longleftrightarrow> \<bar>last ts / foldl (+) 0 ts\<bar> < lit 0.5 * GSL_DBL_EPSILON"

definition series_reference ::
  "(em_vars \<Rightarrow> em_vars) \<Rightarrow> nat \<Rightarrow> nat \<Rightarrow> em_vars \<Rightarrow> double list \<Rightarrow> (double \<times> double) option" where
  "series_reference update room j v head =
     map_option (\<lambda>n. (foldl (+) 0 (rev (head @ corrections update j v n)),
         series_majorantratios ! (j + n - 1) * ratio ((update ^^ n) v)))
       (find (\<lambda>n. settled (head @ corrections update j v n)) [1..<Suc room])"

lemma corrections_Suc:
  "corrections update j v (Suc n) = series_coeffs ! j * ratio v # corrections update (Suc j) (update v) n"
  by (simp add: corrections_def upt_conv_Cons map_Suc_upt [symmetric] funpow_swap1 o_def del: upt_Suc)

lemma corrections_0 [simp]: "corrections update j v 0 = []"
  by (simp add: corrections_def)

lemma find_from_1:
  "find P [1..<Suc (Suc m)] = (if P 1 then Some 1 else map_option Suc (find (\<lambda>n. P (Suc n)) [1..<Suc m]))"
proof -
  have f: "find P (map Suc xs) = map_option Suc (find (\<lambda>n. P (Suc n)) xs)" for xs
    by (induction xs) auto
  have "[1..<Suc (Suc m)] = 1 # map Suc [1..<Suc m]"
    by (simp add: upt_conv_Cons map_Suc_upt del: upt_Suc)
  then show ?thesis by (simp only: find.simps f)
qed

lemma find_none_from_1 [simp]: "find P [1..<Suc 0] = None"
  by simp

lemma em_loop_reference:
  assumes "snd ser = foldl (+) 0 (fst ser)" "length (fst ser) \<le> cap"
  shows "em_loop cap update k j v ser =
    (case find (\<lambda>n. settled (fst ser @ corrections update j v n)) [1..<Suc (min k (cap - length (fst ser)))] of
       Some n \<Rightarrow> Inr (j + n - 1, (update ^^ n) v, fst ser @ corrections update j v n,
                   foldl (+) 0 (fst ser @ corrections update j v n))
     | None \<Rightarrow> if k \<le> cap - length (fst ser) then plfit_fail PLFIT_EMAXITER else Inl Undefined)"
  using assms
proof (induction k arbitrary: j v ser)
  case 0
  then show ?case by simp
next
  case (Suc k)
  let ?d = "series_coeffs ! j * ratio v" and ?r = "cap - length (fst ser)"
  show ?case
  proof (cases "length (fst ser) < cap")
    case False
    then have "?r = 0" by simp
    with False show ?thesis by (simp add: add_term_def Let_def)
  next
    case True
    let ?ser = "(fst ser @ [?d], snd ser + ?d)"
    have eqs: "snd ?ser = foldl (+) 0 (fst ?ser)" "length (fst ?ser) \<le> cap" using True Suc.prems by simp_all
    have m: "min (Suc k) ?r = Suc (min k (cap - length (fst ?ser)))" using True by simp
    have last: "settled (fst ?ser) \<longleftrightarrow> \<bar>?d / snd ?ser\<bar> < lit 0.5 * GSL_DBL_EPSILON"
      using Suc.prems(1) by (simp add: settled_def)
    have app: "fst ser @ corrections update j v (Suc n) = fst ?ser @ corrections update (Suc j) (update v) n" for n
      by (simp add: corrections_Suc)
    show ?thesis
    proof (cases "settled (fst ?ser)")
      case True': True
      then show ?thesis using True last app [of 0] Suc.prems(1) unfolding m find_from_1
        by (simp add: add_term_def Let_def)
    next
      case False
      have "em_loop cap update (Suc k) j v ser = em_loop cap update k (Suc j) (update v) ?ser"
        using True False last by (simp add: add_term_def Let_def)
      also have "\<dots> = (case find (\<lambda>n. settled (fst ?ser @ corrections update (Suc j) (update v) n))
          [1..<Suc (min k (cap - length (fst ?ser)))] of
         Some n \<Rightarrow> Inr (Suc j + n - 1, (update ^^ n) (update v), fst ?ser @ corrections update (Suc j) (update v) n,
           foldl (+) 0 (fst ?ser @ corrections update (Suc j) (update v) n))
       | None \<Rightarrow> if k \<le> cap - length (fst ?ser) then plfit_fail PLFIT_EMAXITER else Inl Undefined)"
        by (rule Suc.IH [OF eqs])
      finally have e: "em_loop cap update (Suc k) j v ser = \<dots>" .
      have p1: "settled (fst ser @ corrections update j v 1) = settled (fst ?ser)" using app [of 0] by simp
      have f: "find (\<lambda>n. settled (fst ser @ corrections update j v n)) [1..<Suc (min (Suc k) ?r)] =
          map_option Suc (find (\<lambda>n. settled (fst ?ser @ corrections update (Suc j) (update v) n))
            [1..<Suc (min k (cap - length (fst ?ser)))])"
        unfolding m by (subst find_from_1) (simp only: p1 False if_False app)
      have c: "Suc k \<le> ?r \<longleftrightarrow> k \<le> cap - length (fst ?ser)" using True by simp arith
      show ?thesis
        unfolding e f c
        by (cases "find (\<lambda>n. settled (fst ?ser @ corrections update (Suc j) (update v) n))
            [1..<Suc (min k (cap - length (fst ?ser)))]")
          (simp_all only: option.map option.case app add_Suc_right add_Suc funpow_Suc_right o_apply)
    qed
  qed
qed

lemma loop_res_add_term:
  "length (fst ser) + length xs \<le> cap \<Longrightarrow>
   loop_res (add_term cap) xs ser = Inr (fst ser @ xs, foldl (+) (snd ser) xs)"
  by (induction xs arbitrary: ser) (auto simp: add_term_def)

subsection \<open>The array of the zeta function and its derivatives\<close>

text \<open>
  Twelve terms are stored before the first correction, so the array has room for 31 corrections
  while the loop would compute 32: it never gets as far as \<open>PLFIT_EMAXITER\<close>.
\<close>

lemma hzeta_sum_reference:
  assumes "length head = 12"
  shows "plfit_check (loop_res (add_term hzeta_cap) head no_terms) (\<lambda>ser.
      plfit_check (em_loop hzeta_cap update SERIES_ORDER 1 v ser) (\<lambda>r. case em_sum r of (ans, mjr) \<Rightarrow> Inr (g ans mjr))) =
    (case series_reference update (SERIES_ORDER - 1) 1 v head of
       None \<Rightarrow> Inl Undefined | Some (ans, mjr) \<Rightarrow> Inr (g ans mjr))"
proof -
  have cap: "hzeta_cap = 43" "SERIES_ORDER = 32"
    by (simp_all add: hzeta_cap_def SERIES_SHIFT_def SERIES_ORDER_def)
  have l: "loop_res (add_term hzeta_cap) head no_terms = Inr (head, foldl (+) 0 head)"
    using assms by (subst loop_res_add_term) (simp_all add: no_terms_def cap)
  have e: "em_loop hzeta_cap update SERIES_ORDER 1 v (head, foldl (+) 0 head) =
    (case find (\<lambda>n. settled (head @ corrections update 1 v n)) [1..<Suc 31] of
       Some n \<Rightarrow> Inr (1 + n - 1, (update ^^ n) v, head @ corrections update 1 v n,
                   foldl (+) 0 (head @ corrections update 1 v n))
     | None \<Rightarrow> Inl Undefined)"
    using assms by (subst em_loop_reference) (simp_all add: cap cong: option.case_cong)
  show ?thesis
    unfolding l [unfolded cap] plfit_check_simps e [unfolded cap] series_reference_def cap
    by (cases "find (\<lambda>n. settled (head @ corrections update 1 v n)) [1..<Suc 31]")
      (simp_all add: em_sum_def del: upt_Suc)
qed

lemma length_counted_up [simp]: "length (counted_up n q) = n"
  by (induction n arbitrary: q) simp_all

text \<open>
  C13. The Euler-Maclaurin branch of the zeta function computes what the reference does: ten powers,
  the two closing terms and the least number of corrections after which the last one is below
  half a rounding error of the sum, added up from the last to the first. When that takes more
  than 31 corrections it stores a 44th term in its array of 43.
\<close>

theorem hzeta_series_reference:
  "hzeta_series L s q =
     (let qshift = Fin 10 + q;
          pmax = c_pow L qshift (- s);
          pcp = pmax * (1 / qshift);
          head = map (\<lambda>j. c_pow L (double_of_nat j + q) (- s)) [0..<10] @
            [lit 0.5 * pmax, pmax * qshift * (1 / (s - 1))]
      in case series_reference (hzeta_update (1 / qshift * (1 / qshift))) 31 1
           \<lparr>tscp = s, scp = s, pcp = pcp, lcp = NaN, sqr_lcp = NaN, ratio = s * pcp\<rparr> head of
         None \<Rightarrow> Inl Undefined
       | Some (ans, mjr) \<Rightarrow> Inr \<lparr>sf_val = ans, sf_err = hzeta_err ans mjr\<rparr>)"
proof -
  have c: "double_of_nat 10 = Fin 10" "SERIES_SHIFT = 10" "SERIES_ORDER = 32"
    by (simp_all add: SERIES_SHIFT_def SERIES_ORDER_def double_of_nat_exact)
  show ?thesis
    unfolding hzeta_series_def Let_def
    by (subst hzeta_sum_reference) (simp_all add: c del: upt_Suc)
qed

lemma hzeta_sum_cases:
  assumes "length head = 12"
  shows "plfit_check (loop_res (add_term hzeta_cap) head no_terms) (\<lambda>ser.
      plfit_check (em_loop hzeta_cap update SERIES_ORDER 1 v ser) (\<lambda>r. case em_sum r of (ans, mjr) \<Rightarrow> Inr (g ans mjr)))
     \<noteq> Inl (Err e)"
  unfolding hzeta_sum_reference [OF assms] by (simp split: option.split)

text \<open>
  The error codes of the zeta function and its two derivatives are decided by their arguments
  alone, before any summation: \<open>PLFIT_EINVAL\<close> for \<open>s\<close> up to 1 or \<open>q\<close> up to 0, else
  \<open>PLFIT_UNDRFLOW\<close> or \<open>PLFIT_OVERFLOW\<close> by the logarithm of the first term. \<open>PLFIT_EMAXITER\<close> is
  never returned.
\<close>

theorem hsl_sf_hzeta_errors:
  assumes "f \<in> {hsl_sf_hzeta_e, hsl_sf_hzeta_deriv_e, hsl_sf_hzeta_deriv2_e}"
  shows "f L s q = plfit_fail e \<longleftrightarrow>
     (if s \<le> 1 \<or> q \<le> 0 then e = PLFIT_EINVAL
      else if - s * c_log L q < GSL_LOG_DBL_MIN + 1 then e = PLFIT_UNDRFLOW
      else if GSL_LOG_DBL_MAX - 1 < - s * c_log L q then e = PLFIT_OVERFLOW
      else False)"
proof -
  have g: "hzeta_guard L s q body = plfit_fail e \<longleftrightarrow>
     (if s \<le> 1 \<or> q \<le> 0 then e = PLFIT_EINVAL
      else if - s * c_log L q < GSL_LOG_DBL_MIN + 1 then e = PLFIT_UNDRFLOW
      else if GSL_LOG_DBL_MAX - 1 < - s * c_log L q then e = PLFIT_OVERFLOW
      else False)"
    if "body \<noteq> plfit_fail e" for body :: "gsl_sf_result result"
    using that by (auto simp: hzeta_guard_def)
  have h: "length (head @ [x, y]) = 12" if "length head = SERIES_SHIFT" for head and x y :: double
    using that by (simp add: SERIES_SHIFT_def)
  have series: "hzeta_series L s q \<noteq> plfit_fail e"
    unfolding hzeta_series_def Let_def by (rule hzeta_sum_cases, rule h) simp
  from assms consider "f = hsl_sf_hzeta_e" | "f = hsl_sf_hzeta_deriv_e" | "f = hsl_sf_hzeta_deriv2_e" by blast
  then show ?thesis
  proof cases
    case 1
    show ?thesis unfolding 1 hsl_sf_hzeta_e_def
      by (rule g) (simp add: Let_def series)
  next
    case 2
    show ?thesis unfolding 2 hsl_sf_hzeta_deriv_e_def Let_def
      by (rule g, rule hzeta_sum_cases, rule h) simp
  next
    case 3
    show ?thesis unfolding 3 hsl_sf_hzeta_deriv2_e_def Let_def
      by (rule g, rule hzeta_sum_cases, rule h) simp
  qed
qed

theorem hsl_sf_hzeta_errors_witness:
  "hsl_sf_hzeta_deriv_e plain_clib (Fin 1) (Fin 2) = plfit_fail PLFIT_EINVAL \<longleftrightarrow>
     (if Fin 1 \<le> 1 \<or> Fin 2 \<le> 0 then PLFIT_EINVAL = PLFIT_EINVAL
      else if - Fin 1 * c_log plain_clib (Fin 2) < GSL_LOG_DBL_MIN + 1 then PLFIT_EINVAL = PLFIT_UNDRFLOW
      else if GSL_LOG_DBL_MAX - 1 < - Fin 1 * c_log plain_clib (Fin 2) then PLFIT_EINVAL = PLFIT_OVERFLOW
      else False)"
  by (rule hsl_sf_hzeta_errors) simp

text \<open>
  With a NaN among the terms no sum ever settles.
\<close>

lemma nan_corrections:
  assumes "ratio v = NaN" "\<And>w. ratio w = NaN \<Longrightarrow> tscp w = NaN \<Longrightarrow> ratio (update w) = NaN \<and> tscp (update w) = NaN"
    "tscp v = NaN" "0 < n"
  shows "\<not> settled (head @ corrections update j v n)"
proof -
  have p: "ratio ((update ^^ i) v) = NaN \<and> tscp ((update ^^ i) v) = NaN" for i
    using assms(1-3) by (induction i) auto
  from assms(4) obtain m where n: "n = Suc m" using gr0_implies_Suc by blast
  have "last (head @ corrections update j v n) = NaN"
    by (simp add: n corrections_def p)
  then show ?thesis by (simp add: settled_def divide_double_def ddiv_def abs_double_def)
qed

lemma nan_reference:
  assumes "\<And>n. 0 < n \<Longrightarrow> \<not> settled (head @ corrections update j v n)"
  shows "series_reference update room j v head = None"
  using assms by (auto simp: series_reference_def find_None_iff)

lemma nan_double_ops [simp]:
  "NaN + x = NaN" "x + NaN = NaN" "NaN - x = NaN" "x - NaN = NaN" "NaN * x = NaN" "x * NaN = NaN"
  "NaN / x = NaN" "x / NaN = NaN" "- NaN = NaN" for x :: double
  by (simp_all add: double_ops_defs dadd_def dmul_def ddiv_def)

text \<open>
  C11. For an exponent that is NaN and a shift that is not at most 0 (there the call is refused), the
  zeta function and its two derivatives write past the end of their array of terms, with every C
  library: the checks of the arguments let a NaN pass, no correction is ever found small enough,
  and the loop of 32 corrections starts at the 13th of 43 places.
\<close>

theorem hsl_sf_hzeta_nan_overrun:
  assumes "f \<in> {hsl_sf_hzeta_e, hsl_sf_hzeta_deriv_e, hsl_sf_hzeta_deriv2_e}" "\<not> q \<le> 0"
  shows "f L NaN q = Inl Undefined"
proof -
  have guard: "hzeta_guard L NaN q body = body" for body :: "gsl_sf_result result"
    using assms(2) by (simp add: hzeta_guard_def)
  have h: "length (head @ [x, y]) = 12" if "length head = SERIES_SHIFT" for head and x y :: double
    using that by (simp add: SERIES_SHIFT_def)
  note none = nan_reference [OF nan_corrections]
  from assms(1) consider "f = hsl_sf_hzeta_e" | "f = hsl_sf_hzeta_deriv_e" | "f = hsl_sf_hzeta_deriv2_e" by blast
  then show ?thesis
  proof cases
    case 1
    show ?thesis unfolding 1 hsl_sf_hzeta_e_def guard Let_def hzeta_series_def
      by (subst hzeta_sum_reference, simp add: SERIES_SHIFT_def, subst none)
        (simp_all add: hzeta_update_def Let_def)
  next
    case 2
    show ?thesis unfolding 2 hsl_sf_hzeta_deriv_e_def guard Let_def
      by (subst hzeta_sum_reference, simp add: SERIES_SHIFT_def, subst none)
        (simp_all add: deriv_update_def Let_def)
  next
    case 3
    show ?thesis unfolding 3 hsl_sf_hzeta_deriv2_e_def guard Let_def
      by (subst hzeta_sum_reference, simp add: SERIES_SHIFT_def, subst none)
        (simp_all add: deriv2_update_def Let_def)
  qed
qed

theorem hsl_sf_hzeta_nan_overrun_witness: "hsl_sf_hzeta_e plain_clib NaN (Fin 2) = Inl Undefined"
  by (rule hsl_sf_hzeta_nan_overrun) simp_all

subsection \<open>The array of the logarithm\<close>

lemma lnhzeta_shift_le: "lnhzeta_shift s q \<le> SHIFT_MAX"
proof -
  let ?c = "dceil (lit 10 * s - q)"
  have "nat (trunc_rat (val ?c)) \<le> SHIFT_MAX" if "?c < double_of_nat SHIFT_MAX" "\<not> ?c < 0"
  proof -
    have "?c \<noteq> NaN" using that(1) by auto
    with that have b: "0 \<le> ?c" "?c < Fin 256"
      by (simp_all add: dnot_less SHIFT_MAX_def double_of_nat_exact)
    then have "isfinite ?c" by (cases ?c) (auto simp: zero_double_def)
    with b have "0 \<le> val ?c" "val ?c < 256" by (auto simp: dle_finite dless_finite zero_double_def)
    then have "\<lfloor>val ?c\<rfloor> \<le> 256" by linarith
    then have "nat \<lfloor>val ?c\<rfloor> \<le> 256" by linarith
    with \<open>0 \<le> val ?c\<close> show ?thesis by (simp only: trunc_rat_nonneg SHIFT_MAX_def)
  qed
  then show ?thesis by (simp add: lnhzeta_shift_def Let_def)
qed

lemma shift_loop_ok:
  assumes "length (fst ser) + k \<le> lnhzeta_cap"
  shows "\<exists>a' ts. shift_loop zed weight scale k j qs a ser = Inr (a', ts) \<and>
    length (fst ts) = length (fst ser) + k \<and> (snd ser = foldl (+) 0 (fst ser) \<longrightarrow> snd ts = foldl (+) 0 (fst ts))"
  using assms
proof (induction k arbitrary: j qs a ser)
  case (Suc k)
  let ?ser = "(fst ser @ [a * zed qs * scale], snd ser + a * zed qs * scale)"
  have "length (fst ?ser) + k \<le> lnhzeta_cap" using Suc.prems by simp
  from Suc.IH [OF this, of "Suc j" "qs + 1" "weight (Suc j) (qs + 1)"] Suc.prems show ?case
    by (auto simp: add_term_def)
qed simp

text \<open>
  The sum of a logarithm: with room for all its terms, the loop of corrections ends with a result
  or with \<open>PLFIT_EMAXITER\<close>.
\<close>

lemma lnhzeta_sum_ok:
  assumes "k \<le> SHIFT_MAX"
  shows "\<exists>r. plfit_check (shift_loop zed weight scale k 0 qs a no_terms) (\<lambda>(a, ser).
      plfit_check (add_term lnhzeta_cap (x a) ser) (\<lambda>ser.
      plfit_check (em_loop lnhzeta_cap update (SERIES_ORDER - 1) 2 (v a) ser) (\<lambda>r. Inr (g r)))) \<in>
    {Inr r, plfit_fail PLFIT_EMAXITER}"
proof -
  have cap: "lnhzeta_cap = 289" "SERIES_ORDER = 32" "SHIFT_MAX = 256"
    by (simp_all add: lnhzeta_cap_def SHIFT_MAX_def SERIES_ORDER_def)
  have "length (fst no_terms) + k \<le> lnhzeta_cap" using assms by (simp add: no_terms_def cap)
  from shift_loop_ok [OF this, of zed weight scale 0 qs a] obtain a' ts where
    l: "shift_loop zed weight scale k 0 qs a no_terms = Inr (a', ts)"
    "length (fst ts) = k" "snd ts = foldl (+) 0 (fst ts)"
    by (auto simp: no_terms_def)
  let ?ser = "(fst ts @ [x a'], snd ts + x a')"
  have e: "em_loop lnhzeta_cap update (SERIES_ORDER - 1) 2 (v a') ?ser \<noteq> Inl Undefined \<and>
      (\<forall>e. em_loop lnhzeta_cap update (SERIES_ORDER - 1) 2 (v a') ?ser = Inl e \<longrightarrow> e = Err PLFIT_EMAXITER)"
    using l(2,3) assms by (subst (1 2) em_loop_reference) (auto simp: cap split: option.split)
  have "add_term lnhzeta_cap (x a') ts = Inr ?ser" using l(2) assms by (simp add: add_term_def cap)
  with l(1) e show ?thesis
    by (cases "em_loop lnhzeta_cap update (SERIES_ORDER - 1) 2 (v a') ?ser") auto
qed

lemma hsl_sf_hZeta0_ok: "\<exists>r. hsl_sf_hZeta0 L s q \<in> {Inr r, plfit_fail PLFIT_EMAXITER}"
proof -
  note e = prod.case_distrib [where h = Inr, symmetric]
  show ?thesis unfolding hsl_sf_hZeta0_def Let_def e by (rule lnhzeta_sum_ok [OF lnhzeta_shift_le])
qed

lemma hsl_sf_hZeta1_ok: "\<exists>r. hsl_sf_hZeta1 L s q ln_q \<in> {Inr r, plfit_fail PLFIT_EMAXITER}"
proof -
  note e = prod.case_distrib [where h = Inr, symmetric]
  show ?thesis unfolding hsl_sf_hZeta1_def Let_def e by (rule lnhzeta_sum_ok [OF lnhzeta_shift_le])
qed

lemma or_unset_ok: "\<exists>r. f \<in> {Inr r, plfit_fail PLFIT_EMAXITER} \<Longrightarrow> \<exists>r. or_unset i f = Inr r"
  by (auto simp: or_unset_def)

text \<open>Where they are defined, both values and their common computation exist and agree.\<close>

lemma lnhzeta_values:
  assumes "\<not> (s \<le> 1 \<or> q \<le> 0)"
  shows "\<exists>r d. hsl_sf_lnhzeta_e L s q = Inr r \<and> hsl_sf_lnhzeta_deriv_e L s q = Inr d \<and>
    hsl_sf_lnhzeta_deriv_tuple L s q = Inr (sf_val r, sf_val d)"
proof -
  note defs = hsl_sf_lnhzeta_e_def hsl_sf_lnhzeta_deriv_e_def hsl_sf_lnhzeta_deriv_tuple_def hsl_sf_lnhzeta_deriv_tuple_e_def
  show ?thesis
  proof (cases "deq q 1")
    case True
    obtain z where "or_unset (NaN, NaN) (hsl_sf_hZeta0 L s (lit 2)) = Inr z"
      using or_unset_ok [OF hsl_sf_hZeta0_ok] by blast
    moreover obtain y where "or_unset (NaN, NaN, NaN) (hsl_sf_hZeta1 L s (lit 2) M_LN2) = Inr y"
      using or_unset_ok [OF hsl_sf_hZeta1_ok] by blast
    ultimately show ?thesis
      using True assms by (simp add: defs lnhzeta_at_one_def Let_def split: prod.split)
  next
    case False
    obtain z where "or_unset (NaN, NaN) (hsl_sf_hZeta0 L s q) = Inr z"
      using or_unset_ok [OF hsl_sf_hZeta0_ok] by blast
    moreover obtain y where "or_unset (NaN, NaN, NaN) (hsl_sf_hZeta1 L s q (c_log L q)) = Inr y"
      using or_unset_ok [OF hsl_sf_hZeta1_ok] by blast
    ultimately show ?thesis
      using False assms by (simp add: defs lnhzeta_elsewhere_def Let_def split: prod.split)
  qed
qed

lemma lnhzeta_defined:
  assumes "\<not> s \<le> 1" "\<not> q \<le> 0"
  shows "\<exists>l d. hsl_sf_lnhzeta L s q = Inr l \<and> hsl_sf_lnhzeta_deriv_tuple L s q = Inr (l, d)"
  using lnhzeta_values [of s q L] assms by (auto simp: hsl_sf_lnhzeta_def sf_eval_def)

text \<open>
  C10. The logarithm of the zeta function and its derivative are always within their arrays, for
  every argument, infinities and NaN included: both are computed unless \<open>s\<close> is at most 1 or \<open>q\<close>
  at most 0, which is \<open>PLFIT_EINVAL\<close>; and computing them together gives the same two numbers as
  computing each alone.
\<close>

theorem hsl_sf_lnhzeta_total:
  "if s \<le> 1 \<or> q \<le> 0
   then hsl_sf_lnhzeta_e L s q = plfit_fail PLFIT_EINVAL \<and> hsl_sf_lnhzeta_deriv_e L s q = plfit_fail PLFIT_EINVAL
   else \<exists>r d. hsl_sf_lnhzeta_e L s q = Inr r \<and> hsl_sf_lnhzeta_deriv_e L s q = Inr d \<and>
     hsl_sf_lnhzeta_deriv_tuple L s q = Inr (sf_val r, sf_val d)"
  using lnhzeta_values [of s q L]
  by (simp add: hsl_sf_lnhzeta_e_def hsl_sf_lnhzeta_deriv_e_def hsl_sf_lnhzeta_deriv_tuple_e_def)

end
