(* ===== verification/Hzeta_Tables.thy ===== *)
theory Hzeta_Tables
  imports Hzeta
begin

text \<open>
  The two tables of constants of \<open>src/hzeta.c\<close> against the Bernoulli numbers. The numbers are
  defined by their recurrence; the 65 that the tables need are given as integers over a common
  denominator, and that they satisfy the recurrence is checked by evaluation.
\<close>

fun bernoulli :: "nat \<Rightarrow> rat" where
  "bernoulli n =
     (if n = 0 then 1 else - (\<Sum>k<n. of_nat (Suc n choose k) * bernoulli k) / of_nat (Suc n))"

declare bernoulli.simps [simp del]

definition bernoulli_denominator :: int where
  "bernoulli_denominator = 117288381359406970983270"

definition bernoulli_numerators :: "int list" where
  "bernoulli_numerators =
    [117288381359406970983270,
     -58644190679703485491635,
     19548063559901161830545,
     0,
     -3909612711980232366109,
     0,
     2792580508557308832935,
     0,
     -3909612711980232366109,
     0,
     8885483436318709922975,
     0,
     -29687278944816929285509,
     0,
     136836444919308132813815,
     0,
     -831827598778382380483309,
     0,
     6447480482572814030229455,
     0,
     -62060125931961850334423509,
     0,
     726264105946166152143673895,
     0,
     -10154857745376400364660802109,
     0,
     167196601078381306956319931135,
     0,
     -3201765335919225172319660547109,
     0,
     70558446956583857937898967065175,
     0,
     -1772968208439921418506649377818509,
     0,
     50388806092943619857172626414420015,
     0,
     -1608217844763097977263566777424008309,
     0,
     57275707257898363866531649321536619655,
     0,
     -2263264556789521123807814394864273740509,
     0,
     98720815151383560847395902019358601568095,
     0,
     -4731187154922086023514472442331162912871109,
     0,
     248073707230031824271815688716185260902449335,
     0,
     -14176208608958377565787153081487291535638488109,
     0,
     879764519439969048939855863579482941685333727375,
     0,
     -59099012755194024999880431893589136769594730911509,
     0,
     4284401066943885675566805652970005387196639671146215,
     0,
     -334257452221961966008565390215914584966870907637693309,
     0,
     27991373618881717075294980054448641465401013587915729855,
     0,
     -2509965409553402879582773192133475171882497240453229617509,
     0,
     240452625889524333991296968009976560258893352643316661782295,
     0,
     -24557848222355115368429335144982705526693616830854229608700109]"

text \<open>The rows of Pascal's triangle, and the recurrence at the row of \<open>n + 1\<close>.\<close>

definition next_row :: "int list \<Rightarrow> int list" where
  "next_row r = map2 (+) (0 # r) (r @ [0])"

definition row_sum :: "int list \<Rightarrow> int list \<Rightarrow> int" where
  "row_sum r bs = foldr (\<lambda>(c, b) s. c * b + s) (zip r bs) 0"

fun recurrence_holds :: "nat \<Rightarrow> nat \<Rightarrow> int list \<Rightarrow> int list \<Rightarrow> bool" where
  "recurrence_holds 0 n r bs = True"
| "recurrence_holds (Suc m) n r bs \<longleftrightarrow>
     row_sum (butlast r) bs = 0 \<and> recurrence_holds m (Suc n) (next_row r) bs"

lemma recurrence_checked: "recurrence_holds 64 1 [1, 2, 1] bernoulli_numerators"
  by code_simp

definition pascal_row :: "nat \<Rightarrow> int list" where
  "pascal_row n = map (\<lambda>k. int (n choose k)) [0..<Suc n]"

lemma length_pascal_row [simp]: "length (pascal_row n) = Suc n"
  by (simp add: pascal_row_def)

lemma next_row_pascal: "next_row (pascal_row n) = pascal_row (Suc n)"
proof (rule nth_equalityI)
  show "length (next_row (pascal_row n)) = length (pascal_row (Suc n))" by (simp add: next_row_def)
  fix i assume "i < length (next_row (pascal_row n))"
  then have i: "i < n + 2" by (simp add: next_row_def)
  then show "next_row (pascal_row n) ! i = pascal_row (Suc n) ! i"
  proof (cases i)
    case 0
    then show ?thesis by (simp add: next_row_def pascal_row_def nth_append del: upt_Suc)
  next
    case (Suc k)
    then show ?thesis using i
      by (cases "k < n") (auto simp: next_row_def pascal_row_def nth_append binomial_eq_0 less_Suc_eq simp del: upt_Suc)
  qed
qed

lemma row_sum_eq: "length r \<le> length bs \<Longrightarrow> row_sum r bs = (\<Sum>i<length r. r ! i * bs ! i)"
proof (induction r arbitrary: bs)
  case (Cons c r)
  then obtain b bs' where bs: "bs = b # bs'" by (cases bs) auto
  then show ?case using Cons by (simp add: row_sum_def sum.lessThan_Suc_shift del: sum.lessThan_Suc)
qed (simp add: row_sum_def)

lemma recurrence_holds_nth:
  "recurrence_holds m n (pascal_row (Suc n)) bs \<Longrightarrow> i < m \<Longrightarrow> n + i < length bs \<Longrightarrow>
    (\<Sum>k<Suc (n + i). int (Suc (n + i) choose k) * bs ! k) = 0"
proof (induction m arbitrary: n i)
  case (Suc m)
  show ?case
  proof (cases i)
    case 0
    then show ?thesis using Suc.prems
      by (simp add: row_sum_eq nth_butlast pascal_row_def del: upt_Suc sum.lessThan_Suc)
  next
    case (Suc i')
    then show ?thesis using Suc.prems Suc.IH [of "Suc n" i'] by (simp add: next_row_pascal del: sum.lessThan_Suc)
  qed
qed simp

lemma bernoulli_table:
  "n \<le> 64 \<Longrightarrow> bernoulli n = of_int (bernoulli_numerators ! n) / of_int bernoulli_denominator"
proof (induction n rule: less_induct)
  case (less n)
  let ?b = "\<lambda>k. bernoulli_numerators ! k" and ?D = "rat_of_int bernoulli_denominator"
  have D: "?D \<noteq> 0" by (simp add: bernoulli_denominator_def)
  have l: "length bernoulli_numerators = 65" by (simp add: bernoulli_numerators_def)
  show ?case
  proof (cases n)
    case 0
    then show ?thesis by (simp add: bernoulli.simps bernoulli_numerators_def bernoulli_denominator_def)
  next
    case (Suc m)
    have "pascal_row (Suc 1) = [1, 2, 1]" by (simp add: pascal_row_def eval_nat_numeral)
    then have "(\<Sum>k<Suc n. int (Suc n choose k) * ?b k) = 0"
      using recurrence_holds_nth [of 64 1 bernoulli_numerators m] recurrence_checked less.prems Suc l
      by (simp del: sum.lessThan_Suc)
    then have "int (Suc n) * ?b n = - (\<Sum>k<n. int (Suc n choose k) * ?b k)" by simp
    then have "rat_of_int (int (Suc n) * ?b n) = rat_of_int (- (\<Sum>k<n. int (Suc n choose k) * ?b k))" by (rule arg_cong)
    then have *: "- (\<Sum>k<n. rat_of_nat (Suc n choose k) * of_int (?b k)) = rat_of_nat (Suc n) * of_int (?b n)"
      by (simp only: of_int_mult of_int_minus of_int_sum of_int_of_nat_eq)
    have "bernoulli n = - (\<Sum>k<n. rat_of_nat (Suc n choose k) * (of_int (?b k) / ?D)) / of_nat (Suc n)"
      using Suc less by (subst bernoulli.simps) (simp del: binomial_Suc_Suc of_nat_Suc)
    also have "\<dots> = - (\<Sum>k<n. rat_of_nat (Suc n choose k) * of_int (?b k)) / ?D / of_nat (Suc n)"
      by (simp only: times_divide_eq_right sum_divide_distrib [symmetric] minus_divide_left)
    also have "\<dots> = of_int (?b n) / ?D" using D unfolding * by (simp add: field_simps del: of_nat_Suc)
    finally show ?thesis .
  qed
qed

subsection \<open>Certified rounding\<close>

text \<open>
  \<open>nearest a b (m, n)\<close>: the double nearest to \<open>a / b\<close> is \<open>m / 2 ^ n\<close>, by integer comparisons only.
\<close>

fun nearest :: "int \<times> int \<Rightarrow> int \<times> nat \<Rightarrow> bool" where
  "nearest (a, b) (m, n) \<longleftrightarrow>
     0 < b \<and> 2 ^ 52 < \<bar>m\<bar> \<and> \<bar>m\<bar> < 2 ^ 53 \<and> n \<le> 1074 \<and> 2 * \<bar>a * 2 ^ n - m * b\<bar> < b"

lemma rnd_nearest:
  assumes "2 ^ 52 < m" "m < 2 ^ 53" "n \<le> 1074" "\<bar>q * 2 ^ n - of_int m\<bar> < 1 / 2"
  shows "rnd q = of_int m / 2 ^ n"
proof -
  have "2 ^ 52 + 1 \<le> m" "m \<le> 2 ^ 53 - 1" using assms(1,2) by simp_all
  then have "rat_of_int (2 ^ 52 + 1) \<le> of_int m" "rat_of_int m \<le> of_int (2 ^ 53 - 1)"
    by (simp_all only: of_int_le_iff)
  then have m: "(2 ^ 52 :: rat) + 1 \<le> of_int m" "rat_of_int m \<le> 2 ^ 53 - 1" by simp_all
  have qn: "2 ^ 52 \<le> q * 2 ^ n" "q * 2 ^ n < 2 ^ 53" using assms(4) m by linarith+
  have p: "(2 :: rat) powi (int a - int n) = 2 ^ a / 2 ^ n" for a by (simp add: powi_diff2)
  have l: "ilog2 q = int 52 - int n"
  proof (rule ilog2_eqI)
    show "2 powi (int 52 - int n) \<le> q" using qn(1) unfolding p by (simp add: pos_divide_le_eq)
    have "int 52 - int n + 1 = int 53 - int n" by simp
    then show "q < 2 powi (int 52 - int n + 1)" using qn(2) by (simp only: p) (simp add: pos_less_divide_eq)
  qed
  have "0 < q * 2 ^ n" using qn(1) by (rule less_le_trans [rotated]) simp
  then have q: "0 < q" by (simp add: zero_less_mult_iff)
  have u: "ulp_exp 53 (-1074) q = - int n" using assms(3) by (simp add: ulp_exp_def l)
  have s: "q / 2 powi (- int n) = q * 2 ^ n" by (simp add: power_int_minus divide_inverse)
  have "round_half_even (q * 2 ^ n) = m"
  proof -
    consider "of_int m \<le> q * 2 ^ n" | "q * 2 ^ n < of_int m" by linarith
    then show ?thesis
    proof cases
      case 1
      then have "\<lfloor>q * 2 ^ n\<rfloor> = m" using assms(4) by linarith
      with assms(4) show ?thesis by (auto simp: round_half_even_def Let_def)
    next
      case 2
      then have f: "\<lfloor>q * 2 ^ n\<rfloor> = m - 1" using assms(4) by linarith
      have "- (1 / 2) < q * 2 ^ n - of_int m" using assms(4) by linarith
      then have "1 / 2 < q * 2 ^ n - of_int (m - 1)" by simp
      then show ?thesis by (simp add: round_half_even_def Let_def f)
    qed
  qed
  then show ?thesis using q unfolding rnd_def round_fmt_def round_mag_def u Let_def
    by (simp add: s) (simp add: power_int_minus divide_inverse)
qed

lemma to_double_nearest:
  assumes "nearest (a, b) (m, n)"
  shows "to_double neg (of_int a / of_int b) = Fin (of_int m / 2 ^ n)"
proof -
  let ?q = "rat_of_int a / of_int b"
  have b: "0 < b" "n \<le> 1074" and m: "2 ^ 52 < \<bar>m\<bar>" "\<bar>m\<bar> < 2 ^ 53" using assms by auto
  have "rat_of_int (2 * \<bar>a * 2 ^ n - m * b\<bar>) < of_int b" using assms by (simp only: of_int_less_iff nearest.simps)
  then have "\<bar>rat_of_int a * 2 ^ n - of_int m * of_int b\<bar> < of_int b / 2" by simp
  moreover have "?q * 2 ^ n - of_int m = (of_int a * 2 ^ n - of_int m * of_int b) / of_int b"
    using b by (simp add: field_simps)
  ultimately have c: "\<bar>?q * 2 ^ n - of_int m\<bar> < 1 / 2" using b by (simp add: abs_div_pos [symmetric] pos_divide_less_eq)
  have r: "rnd ?q = of_int m / 2 ^ n"
  proof (cases "0 \<le> m")
    case True
    then show ?thesis using m b c by (intro rnd_nearest) auto
  next
    case False
    have "rnd (- ?q) = of_int (- m) / 2 ^ n" using m b c False by (intro rnd_nearest) (auto simp: abs_minus_commute)
    then show ?thesis by simp
  qed
  have "rat_of_int \<bar>m\<bar> < of_int (2 ^ 53)" using m(2) by (simp only: of_int_less_iff)
  then have "rat_of_int \<bar>m\<bar> < 2 ^ 53" by simp
  moreover have "\<bar>rat_of_int m / 2 ^ n\<bar> \<le> of_int \<bar>m\<bar>" by (simp add: divide_le_eq mult_le_cancel_left1)
  moreover have "(2 ^ 53 :: rat) \<le> 2 ^ 1024" by (rule power_increasing) simp_all
  ultimately have "\<bar>rat_of_int m / 2 ^ n\<bar> < 2 ^ 1024" by linarith
  then have "\<not> 2 ^ 1024 \<le> rat_of_int m / 2 ^ n" "\<not> rat_of_int m / 2 ^ n \<le> - (2 ^ 1024)"
    by (simp_all only: abs_less_iff not_le) linarith+
  moreover have "m \<noteq> 0" using m(1) by auto
  ultimately show ?thesis by (simp add: to_double_def Let_def r)
qed

lemma nearest_list:
  "list_all2 nearest qs cs \<Longrightarrow>
   map (\<lambda>(a, b). lit (of_int a / of_int b)) qs = map (\<lambda>(m, n). Fin (of_int m / 2 ^ n)) cs"
  by (induction rule: list_all2_induct) (auto simp: lit_def to_double_nearest simp del: nearest.simps)

subsection \<open>The tables\<close>

definition coeff_quotients :: "(int \<times> int) list" where
  "coeff_quotients =
    [(1, 12),
     (-1, 720),
     (1, 30240),
     (-1, 1209600),
     (1, 47900160),
     (-691, 1307674368000),
     (1, 74724249600),
     (-338968029632258286683019539125, 1000000000000000000000000000000000000000000),
     (858606205627784456413590545043, 100000000000000000000000000000000000000000000),
     (-217486869855806187304151642387, 1000000000000000000000000000000000000000000000),
     (550900282836022951520265260890, 100000000000000000000000000000000000000000000000),
     (-139544646858125233407076862641, 1000000000000000000000000000000000000000000000000),
     (353470703962946747169322997780, 100000000000000000000000000000000000000000000000000),
     (-895351742703754685040261131811, 10000000000000000000000000000000000000000000000000000),
     (226795245233768306031095073887, 100000000000000000000000000000000000000000000000000000),
     (-574479066887220244526388198761, 10000000000000000000000000000000000000000000000000000000),
     (145517247561486490186626486727, 100000000000000000000000000000000000000000000000000000000),
     (-368599494066531017818178247991, 10000000000000000000000000000000000000000000000000000000000),
     (933673425709504467203255515279, 1000000000000000000000000000000000000000000000000000000000000),
     (-236502241570062993455963519637, 10000000000000000000000000000000000000000000000000000000000000),
     (599067176248213430465991239682, 1000000000000000000000000000000000000000000000000000000000000000),
     (-151745488446829026171081313586, 10000000000000000000000000000000000000000000000000000000000000000),
     (384375812545418823222944529099, 1000000000000000000000000000000000000000000000000000000000000000000),
     (-973635307264669103526762127925, 100000000000000000000000000000000000000000000000000000000000000000000),
     (246624704420068095710640028029, 1000000000000000000000000000000000000000000000000000000000000000000000),
     (-624707674182074369314875679472, 100000000000000000000000000000000000000000000000000000000000000000000000),
     (158240302446449142975108170683, 1000000000000000000000000000000000000000000000000000000000000000000000000),
     (-400827368594893596853001219052, 100000000000000000000000000000000000000000000000000000000000000000000000000),
     (101530758555695563116307139454, 1000000000000000000000000000000000000000000000000000000000000000000000000000),
     (-257180415824187174992481940976, 100000000000000000000000000000000000000000000000000000000000000000000000000000),
     (651445603523381493155843485864, 10000000000000000000000000000000000000000000000000000000000000000000000000000000),
     (-165013099068965245550609878048, 100000000000000000000000000000000000000000000000000000000000000000000000000000000)]"

definition ratio_quotients :: "(int \<times> int) list" where
  "ratio_quotients =
    [(1, 6),
     (1, 360),
     (1, 15120),
     (1, 604800),
     (1, 23950080),
     (691, 653837184000),
     (1, 37362124800),
     (3617, 5335311421440000),
     (171721241125556891282718109009, 10000000000000000000000000000000000000000000),
     (434973739711612374608303284773, 1000000000000000000000000000000000000000000000),
     (110180056567204590304053052178, 10000000000000000000000000000000000000000000000),
     (279089293716250466814153725281, 1000000000000000000000000000000000000000000000000),
     (706941407925893494338645995561, 100000000000000000000000000000000000000000000000000),
     (179070348540750937008052226362, 1000000000000000000000000000000000000000000000000000),
     (453590490467536612062190147774, 100000000000000000000000000000000000000000000000000000),
     (114895813377444048905277639752, 1000000000000000000000000000000000000000000000000000000),
     (291034495122972980373252973454, 100000000000000000000000000000000000000000000000000000000),
     (737198988133062035636356495982, 10000000000000000000000000000000000000000000000000000000000),
     (186734685141900893440651103056, 100000000000000000000000000000000000000000000000000000000000),
     (473004483140125986911927039274, 10000000000000000000000000000000000000000000000000000000000000),
     (119813435249642686093198247936, 100000000000000000000000000000000000000000000000000000000000000),
     (303490976893658052342162627173, 10000000000000000000000000000000000000000000000000000000000000000),
     (768751625090837646445889058198, 1000000000000000000000000000000000000000000000000000000000000000000),
     (194727061452933820705352425585, 10000000000000000000000000000000000000000000000000000000000000000000),
     (493249408840136191421280056051, 1000000000000000000000000000000000000000000000000000000000000000000000),
     (124941534836414873862975135893, 10000000000000000000000000000000000000000000000000000000000000000000000),
     (316480604892898285950216341362, 1000000000000000000000000000000000000000000000000000000000000000000000000),
     (801654737189787193706002438098, 100000000000000000000000000000000000000000000000000000000000000000000000000),
     (203061517111391126232614278906, 1000000000000000000000000000000000000000000000000000000000000000000000000000),
     (514360831648374349984963881946, 100000000000000000000000000000000000000000000000000000000000000000000000000000),
     (130289120704676298631168697172, 1000000000000000000000000000000000000000000000000000000000000000000000000000000),
     (330026198137930491101219756091, 100000000000000000000000000000000000000000000000000000000000000000000000000000000)]"

definition coeff_nearest :: "(int \<times> nat) list" where
  "coeff_nearest =
    [(6004799503160661, 56),
     (-6405119470038039, 62),
     (4880091024790887, 67),
     (-7808145639665419, 73),
     (6309612638113470, 78),
     (-5110555115529855, 83),
     (8283388899266914, 89),
     (-6713953534711132, 94),
     (5442063359618718, 99),
     (-8822315555663089, 105),
     (7151094519838575, 110),
     (-5796457852054364, 115),
     (4698431553973510, 120),
     (-7616810255850518, 126),
     (6173953828364909, 131),
     (-5004418473649035, 136),
     (8112857649650530, 142),
     (-6576034717988007, 147),
     (5330332970339039, 152),
     (-8641210332176895, 158),
     (7004301271663716, 163),
     (-5677472763459027, 168),
     (4601986083926228, 173),
     (-7460458834063475, 179),
     (6047220156657956, 184),
     (-4901692032147095, 189),
     (7946323816757753, 195),
     (-6441047477753557, 200),
     (5220916434739878, 205),
     (-8463830925849256, 211),
     (6860522940445362, 216),
     (-5560930437850685, 221)]"

definition ratio_nearest :: "(int \<times> nat) list" where
  "ratio_nearest =
    [(6004799503160661, 55),
     (6405119470038039, 61),
     (4880091024790887, 66),
     (7808145639665419, 72),
     (6309612638113470, 77),
     (5110555115529855, 82),
     (8283388899266914, 88),
     (6713953534711132, 93),
     (5442063359618718, 98),
     (8822315555663089, 104),
     (7151094519838575, 109),
     (5796457852054364, 114),
     (4698431553973510, 119),
     (7616810255850518, 125),
     (6173953828364909, 130),
     (5004418473649035, 135),
     (8112857649650530, 141),
     (6576034717988007, 146),
     (5330332970339039, 151),
     (8641210332176895, 157),
     (7004301271663716, 162),
     (5677472763459027, 167),
     (4601986083926228, 172),
     (7460458834063475, 178),
     (6047220156657956, 183),
     (4901692032147095, 188),
     (7946323816757753, 194),
     (6441047477753557, 199),
     (5220916434739878, 204),
     (8463830925849256, 210),
     (6860522940445362, 215),
     (5560930437850685, 220)]"

text \<open>
  The quotients \<open>a (2 j) / (bernoulli_denominator * (2 j)!)\<close> for the even entries after the
  first; \<open>f\<close> is the factorial of \<open>n\<close>.
\<close>

fun factorial_quotients :: "(int \<Rightarrow> int) \<Rightarrow> int \<Rightarrow> int \<Rightarrow> int list \<Rightarrow> (int \<times> int) list" where
  "factorial_quotients g n f (a # b # bs) =
     (g b, bernoulli_denominator * (f * (n + 1) * (n + 2))) #
     factorial_quotients g (n + 2) (f * (n + 1) * (n + 2)) bs"
| "factorial_quotients g n f bs = []"

lemma coeffs_checked:
  "list_all2 nearest coeff_quotients coeff_nearest"
  "list_all2 nearest (factorial_quotients (\<lambda>b. b) 0 1 (tl bernoulli_numerators)) coeff_nearest"
  by code_simp+

lemma ratios_checked:
  "list_all2 nearest ratio_quotients ratio_nearest"
  "list_all2 nearest (factorial_quotients (\<lambda>b. 2 * \<bar>b\<bar>) 0 1 (tl bernoulli_numerators)) ratio_nearest"
  by code_simp+

lemma factorial_quotients_map:
  assumes "m \<le> 32" "bs = map ((!) bernoulli_numerators) [2 * m + 1..<65]"
  shows "factorial_quotients g (2 * int m) (fact (2 * m)) bs =
    map (\<lambda>j. (g (bernoulli_numerators ! (2 * j)), bernoulli_denominator * fact (2 * j))) [Suc m..<33]"
  using assms
proof (induction "32 - m" arbitrary: m bs)
  case 0
  then show ?case by simp
next
  case (Suc d)
  let ?b = "(!) bernoulli_numerators"
  have u: "[2 * m + 1..<65] = (2 * m + 1) # (2 * m + 2) # [2 * Suc m + 1..<65]"
    using Suc.hyps(2) by (simp add: upt_conv_Cons)
  have f: "fact (Suc (Suc (2 * m))) = (fact (2 * m) * (2 * int m + 1) * (2 * int m + 2) :: int)"
    by (simp add: fact_Suc algebra_simps)
  have "factorial_quotients g (2 * int (Suc m)) (fact (2 * Suc m)) (map ?b [2 * Suc m + 1..<65]) =
      map (\<lambda>j. (g (?b (2 * j)), bernoulli_denominator * fact (2 * j))) [Suc (Suc m)..<33]"
    using Suc.hyps(2) by (intro Suc.hyps(1)) auto
  moreover have "[Suc m..<33] = Suc m # [Suc (Suc m)..<33]" using Suc.hyps(2) by (simp add: upt_conv_Cons)
  moreover have "2 * int m + 2 = 2 * int (Suc m)" by simp
  ultimately show ?case unfolding Suc.prems(2) u by (simp add: f add.commute del: fact_Suc upt_Suc)
qed

lemma bernoulli_quotients:
  "factorial_quotients g 0 1 (tl bernoulli_numerators) =
    map (\<lambda>j. (g (bernoulli_numerators ! (2 * j)), bernoulli_denominator * fact (2 * j))) [1..<33]"
proof -
  have "length bernoulli_numerators = 65" by (simp add: bernoulli_numerators_def)
  then have "tl bernoulli_numerators = map ((!) bernoulli_numerators) [1..<65]"
    by (intro nth_equalityI) (simp_all add: nth_tl)
  then show ?thesis using factorial_quotients_map [of 0 "tl bernoulli_numerators" g] by simp
qed

lemma table_quotients:
  "butlast (tl series_coeffs) = map (\<lambda>(a, b). lit (of_int a / of_int b)) coeff_quotients"
  "butlast (tl series_majorantratios) = map (\<lambda>(a, b). lit (of_int a / of_int b)) ratio_quotients"
  by (simp_all add: series_coeffs_def series_majorantratios_def coeff_quotients_def ratio_quotients_def)

text \<open>
  C12. Every entry of the two tables is the double nearest to its exact value: the coefficients are
  the Bernoulli numbers \<open>B(2 j) / (2 j)!\<close> and the ratios twice their absolute values, for \<open>j\<close>
  from 1 to the order 32 of the series.
\<close>

theorem hzeta_tables_correct:
  "butlast (tl series_coeffs) = map (\<lambda>j. lit (bernoulli (2 * j) / fact (2 * j))) [1..<Suc SERIES_ORDER] \<and>
   butlast (tl series_majorantratios) =
     map (\<lambda>j. lit (2 * \<bar>bernoulli (2 * j)\<bar> / fact (2 * j))) [1..<Suc SERIES_ORDER]"
proof -
  have n: "Suc SERIES_ORDER = 33" by (simp add: SERIES_ORDER_def)
  have b: "bernoulli (2 * j) = of_int (bernoulli_numerators ! (2 * j)) / of_int bernoulli_denominator"
    if "j \<in> set [1..<33]" for j using that by (intro bernoulli_table) simp
  have q: "map (\<lambda>(a, b). lit (of_int a / of_int b)) (factorial_quotients g 0 1 (tl bernoulli_numerators)) =
      map (\<lambda>j. lit (of_int (g (bernoulli_numerators ! (2 * j))) / of_int (bernoulli_denominator * fact (2 * j)))) [1..<33]"
    for g unfolding bernoulli_quotients by (simp only: map_map o_def prod.case)
  have d: "(0 :: int) < bernoulli_denominator" by (simp add: bernoulli_denominator_def)
  have "butlast (tl series_coeffs) =
      map (\<lambda>j. lit (of_int (bernoulli_numerators ! (2 * j)) / of_int (bernoulli_denominator * fact (2 * j)))) [1..<33]"
    unfolding table_quotients nearest_list [OF coeffs_checked(1)] nearest_list [OF coeffs_checked(2), symmetric] q ..
  also have "\<dots> = map (\<lambda>j. lit (bernoulli (2 * j) / fact (2 * j))) [1..<33]"
    by (intro map_cong refl arg_cong [where f = lit]) (simp add: b)
  finally have c: "butlast (tl series_coeffs) = \<dots>" .
  have "butlast (tl series_majorantratios) =
      map (\<lambda>j. lit (of_int (2 * \<bar>bernoulli_numerators ! (2 * j)\<bar>) / of_int (bernoulli_denominator * fact (2 * j)))) [1..<33]"
    unfolding table_quotients nearest_list [OF ratios_checked(1)] nearest_list [OF ratios_checked(2), symmetric] q ..
  also have "\<dots> = map (\<lambda>j. lit (2 * \<bar>bernoulli (2 * j)\<bar> / fact (2 * j))) [1..<33]"
    using d by (intro map_cong refl arg_cong [where f = lit]) (simp add: b abs_divide)
  finally show ?thesis unfolding n using c by (intro conjI)
qed

end
