(* ===== verification/Vec.thy ===== *)
theory Vec
  imports Clib
begin

text \<open>
  \<open>src/arithmetic_ansi.h\<close>: the vector arithmetic of the L-BFGS optimiser, on arrays of \<open>n\<close>
  doubles. All arrays an operation gets have the same length.
\<close>

definition vecalloc :: "clib \<Rightarrow> int \<Rightarrow> nat \<Rightarrow> bool" where
  \<comment> \<open>whether an array of \<open>n\<close> elements is granted; the size is computed in \<open>size_t\<close>\<close>
  "vecalloc L n bytes = c_alloc L (nat (n * int bytes mod 2 ^ 64))"

definition vecset :: "double list \<Rightarrow> double \<Rightarrow> double list" where
  "vecset x c = map (\<lambda>_. c) x"

definition veccpy :: "double list \<Rightarrow> double list \<Rightarrow> double list" where
  "veccpy y x = x"

definition vecncpy :: "double list \<Rightarrow> double list \<Rightarrow> double list" where
  "vecncpy y x = map uminus x"

definition vecadd :: "double list \<Rightarrow> double list \<Rightarrow> double \<Rightarrow> double list" where
  "vecadd y x c = map2 (\<lambda>a b. a + c * b) y x"

definition vecdiff :: "double list \<Rightarrow> double list \<Rightarrow> double list" where
  "vecdiff x y = map2 (-) x y"

definition vecscale :: "double list \<Rightarrow> double \<Rightarrow> double list" where
  "vecscale y c = map (\<lambda>a. a * c) y"

definition vecmul :: "double list \<Rightarrow> double list \<Rightarrow> double list" where
  "vecmul y x = map2 (*) y x"

definition vecdot :: "double list \<Rightarrow> double list \<Rightarrow> double" where
  "vecdot x y = foldl (\<lambda>s (a, b). s + a * b) 0 (zip x y)"

definition vec2norm :: "clib \<Rightarrow> double list \<Rightarrow> double" where
  "vec2norm L x = c_sqrt L (vecdot x x)"

definition vec2norminv :: "clib \<Rightarrow> double list \<Rightarrow> double" where
  "vec2norminv L x = 1 / vec2norm L x"

text \<open>Do \<open>x\<close> and \<open>y\<close> have opposite signs?\<close>

definition fsigndiff :: "double \<Rightarrow> double \<Rightarrow> bool" where
  "fsigndiff x y \<longleftrightarrow> x * (y / \<bar>y\<bar>) < 0"

lemma length_vec [simp]:
  "length (vecncpy y x) = length x" "length (vecscale y c) = length y" "length (veccpy y x) = length x"
  "length (vecadd y x c) = min (length y) (length x)" "length (vecdiff x z) = min (length x) (length z)"
  by (simp_all add: vecncpy_def vecscale_def vecadd_def vecdiff_def veccpy_def)

end
