(* ===== verification/Lbfgs.thy ===== *)
theory Lbfgs
  imports Vec
begin

text \<open>
  \<open>src/lbfgs.c\<close>: the L-BFGS optimiser with its three line searches. The objective function and
  the progress callback work on the caller's instance, of type \<open>'s\<close>. The evaluation callback
  gets the point and the step and yields the value, the contents of the gradient's array and the
  instance. The line searches count their evaluations and are bounded by \<open>max_linesearch\<close>; the
  main loop is only bounded when \<open>max_iterations\<close> is not zero, so its model takes fuel.
\<close>

subsection \<open>Codes and parameters\<close>

datatype lbfgs_code =
  LBFGS_SUCCESS | LBFGS_STOP | LBFGS_ALREADY_MINIMIZED
| LBFGSERR_UNKNOWNERROR | LBFGSERR_LOGICERROR | LBFGSERR_OUTOFMEMORY | LBFGSERR_CANCELED
| LBFGSERR_INVALID_N | LBFGSERR_INVALID_N_SSE | LBFGSERR_INVALID_X_SSE | LBFGSERR_INVALID_EPSILON
| LBFGSERR_INVALID_TESTPERIOD | LBFGSERR_INVALID_DELTA | LBFGSERR_INVALID_LINESEARCH
| LBFGSERR_INVALID_MINSTEP | LBFGSERR_INVALID_MAXSTEP | LBFGSERR_INVALID_FTOL
| LBFGSERR_INVALID_WOLFE | LBFGSERR_INVALID_GTOL | LBFGSERR_INVALID_XTOL
| LBFGSERR_INVALID_MAXLINESEARCH | LBFGSERR_INVALID_ORTHANTWISE
| LBFGSERR_INVALID_ORTHANTWISE_START | LBFGSERR_INVALID_ORTHANTWISE_END
| LBFGSERR_OUTOFINTERVAL | LBFGSERR_INCORRECT_TMINMAX | LBFGSERR_ROUNDING_ERROR
| LBFGSERR_MINIMUMSTEP | LBFGSERR_MAXIMUMSTEP | LBFGSERR_MAXIMUMLINESEARCH
| LBFGSERR_MAXIMUMITERATION | LBFGSERR_WIDTHTOOSMALL | LBFGSERR_INVALIDPARAMETERS
| LBFGSERR_INCREASEGRADIENT

text \<open>The values of the enumeration: the successes count up from 0, the errors from -1024.\<close>

fun lbfgs_value :: "lbfgs_code \<Rightarrow> int" where
  "lbfgs_value LBFGS_SUCCESS = 0"
| "lbfgs_value LBFGS_STOP = 1"
| "lbfgs_value LBFGS_ALREADY_MINIMIZED = 2"
| "lbfgs_value LBFGSERR_UNKNOWNERROR = -1024"
| "lbfgs_value LBFGSERR_LOGICERROR = -1023"
| "lbfgs_value LBFGSERR_OUTOFMEMORY = -1022"
| "lbfgs_value LBFGSERR_CANCELED = -1021"
| "lbfgs_value LBFGSERR_INVALID_N = -1020"
| "lbfgs_value LBFGSERR_INVALID_N_SSE = -1019"
| "lbfgs_value LBFGSERR_INVALID_X_SSE = -1018"
| "lbfgs_value LBFGSERR_INVALID_EPSILON = -1017"
| "lbfgs_value LBFGSERR_INVALID_TESTPERIOD = -1016"
| "lbfgs_value LBFGSERR_INVALID_DELTA = -1015"
| "lbfgs_value LBFGSERR_INVALID_LINESEARCH = -1014"
| "lbfgs_value LBFGSERR_INVALID_MINSTEP = -1013"
| "lbfgs_value LBFGSERR_INVALID_MAXSTEP = -1012"
| "lbfgs_value LBFGSERR_INVALID_FTOL = -1011"
| "lbfgs_value LBFGSERR_INVALID_WOLFE = -1010"
| "lbfgs_value LBFGSERR_INVALID_GTOL = -1009"
| "lbfgs_value LBFGSERR_INVALID_XTOL = -1008"
| "lbfgs_value LBFGSERR_INVALID_MAXLINESEARCH = -1007"
| "lbfgs_value LBFGSERR_INVALID_ORTHANTWISE = -1006"
| "lbfgs_value LBFGSERR_INVALID_ORTHANTWISE_START = -1005"
| "lbfgs_value LBFGSERR_INVALID_ORTHANTWISE_END = -1004"
| "lbfgs_value LBFGSERR_OUTOFINTERVAL = -1003"
| "lbfgs_value LBFGSERR_INCORRECT_TMINMAX = -1002"
| "lbfgs_value LBFGSERR_ROUNDING_ERROR = -1001"
| "lbfgs_value LBFGSERR_MINIMUMSTEP = -1000"
| "lbfgs_value LBFGSERR_MAXIMUMSTEP = -999"
| "lbfgs_value LBFGSERR_MAXIMUMLINESEARCH = -998"
| "lbfgs_value LBFGSERR_MAXIMUMITERATION = -997"
| "lbfgs_value LBFGSERR_WIDTHTOOSMALL = -996"
| "lbfgs_value LBFGSERR_INVALIDPARAMETERS = -995"
| "lbfgs_value LBFGSERR_INCREASEGRADIENT = -994"

text \<open>The values of the field \<open>linesearch\<close>.\<close>

definition LBFGS_LINESEARCH_MORETHUENTE :: int where "LBFGS_LINESEARCH_MORETHUENTE = 0"
definition LBFGS_LINESEARCH_BACKTRACKING_ARMIJO :: int where "LBFGS_LINESEARCH_BACKTRACKING_ARMIJO = 1"
definition LBFGS_LINESEARCH_BACKTRACKING_WOLFE :: int where "LBFGS_LINESEARCH_BACKTRACKING_WOLFE = 2"
definition LBFGS_LINESEARCH_BACKTRACKING_STRONG_WOLFE :: int where
  "LBFGS_LINESEARCH_BACKTRACKING_STRONG_WOLFE = 3"

lemmas linesearch_values =
  LBFGS_LINESEARCH_MORETHUENTE_def LBFGS_LINESEARCH_BACKTRACKING_ARMIJO_def
  LBFGS_LINESEARCH_BACKTRACKING_WOLFE_def LBFGS_LINESEARCH_BACKTRACKING_STRONG_WOLFE_def

record lbfgs_parameter_t =
  lb_m :: int
  lb_epsilon :: double
  lb_past :: int
  lb_delta :: double
  lb_max_iterations :: int
  lb_linesearch :: int
  lb_max_linesearch :: int
  lb_min_step :: double
  lb_max_step :: double
  lb_ftol :: double
  lb_wolfe :: double
  lb_gtol :: double
  lb_xtol :: double
  lb_orthantwise_c :: double
  lb_orthantwise_start :: int
  lb_orthantwise_end :: int

definition lbfgs_defparam :: lbfgs_parameter_t where
  "lbfgs_defparam =
     \<lparr>lb_m = 6, lb_epsilon = lit (1 / 10 ^ 5), lb_past = 0, lb_delta = lit (1 / 10 ^ 5),
      lb_max_iterations = 0, lb_linesearch = LBFGS_LINESEARCH_MORETHUENTE, lb_max_linesearch = 40,
      lb_min_step = lit (1 / 10 ^ 20), lb_max_step = lit (10 ^ 20), lb_ftol = lit (1 / 10 ^ 4),
      lb_wolfe = lit 0.9, lb_gtol = lit 0.9, lb_xtol = lit (1 / 10 ^ 16),
      lb_orthantwise_c = 0, lb_orthantwise_start = 0, lb_orthantwise_end = -1\<rparr>"

definition lbfgs_parameter_init :: "lbfgs_parameter_t \<Rightarrow> lbfgs_parameter_t" where
  "lbfgs_parameter_init param = lbfgs_defparam"

text \<open>\<open>lbfgs_malloc\<close>: whether the array is granted.\<close>

definition lbfgs_malloc :: "clib \<Rightarrow> int \<Rightarrow> bool" where
  "lbfgs_malloc L n \<longleftrightarrow> 0 \<le> n \<and> vecalloc L n sizeof_double"

text \<open>\<open>lbfgs_strerror\<close>, by code and by value.\<close>

fun lbfgs_message :: "lbfgs_code \<Rightarrow> string" where
  "lbfgs_message LBFGS_SUCCESS =
    ''Success: reached convergence (gtol).''"
| "lbfgs_message LBFGS_STOP =
    ''Success: met stopping criteria (ftol).''"
| "lbfgs_message LBFGS_ALREADY_MINIMIZED =
    ''The initial variables already minimize the objective function.''"
| "lbfgs_message LBFGSERR_UNKNOWNERROR =
    ''Unknown error.''"
| "lbfgs_message LBFGSERR_LOGICERROR =
    ''Logic error.''"
| "lbfgs_message LBFGSERR_OUTOFMEMORY =
    ''Insufficient memory.''"
| "lbfgs_message LBFGSERR_CANCELED =
    ''The minimization process has been canceled.''"
| "lbfgs_message LBFGSERR_INVALID_N =
    ''Invalid number of variables specified.''"
| "lbfgs_message LBFGSERR_INVALID_N_SSE =
    ''Invalid number of variables (for SSE) specified.''"
| "lbfgs_message LBFGSERR_INVALID_X_SSE =
    ''The array x must be aligned to 16 (for SSE).''"
| "lbfgs_message LBFGSERR_INVALID_EPSILON =
    ''Invalid parameter lbfgs_parameter_t::epsilon specified.''"
| "lbfgs_message LBFGSERR_INVALID_TESTPERIOD =
    ''Invalid parameter lbfgs_parameter_t::past specified.''"
| "lbfgs_message LBFGSERR_INVALID_DELTA =
    ''Invalid parameter lbfgs_parameter_t::delta specified.''"
| "lbfgs_message LBFGSERR_INVALID_LINESEARCH =
    ''Invalid parameter lbfgs_parameter_t::linesearch specified.''"
| "lbfgs_message LBFGSERR_INVALID_MINSTEP =
    ''Invalid parameter lbfgs_parameter_t::max_step specified.''"
| "lbfgs_message LBFGSERR_INVALID_MAXSTEP =
    ''Invalid parameter lbfgs_parameter_t::max_step specified.''"
| "lbfgs_message LBFGSERR_INVALID_FTOL =
    ''Invalid parameter lbfgs_parameter_t::ftol specified.''"
| "lbfgs_message LBFGSERR_INVALID_WOLFE =
    ''Invalid parameter lbfgs_parameter_t::wolfe specified.''"
| "lbfgs_message LBFGSERR_INVALID_GTOL =
    ''Invalid parameter lbfgs_parameter_t::gtol specified.''"
| "lbfgs_message LBFGSERR_INVALID_XTOL =
    ''Invalid parameter lbfgs_parameter_t::xtol specified.''"
| "lbfgs_message LBFGSERR_INVALID_MAXLINESEARCH =
    ''Invalid parameter lbfgs_parameter_t::max_linesearch specified.''"
| "lbfgs_message LBFGSERR_INVALID_ORTHANTWISE =
    ''Invalid parameter lbfgs_parameter_t::orthantwise_c specified.''"
| "lbfgs_message LBFGSERR_INVALID_ORTHANTWISE_START =
    ''Invalid parameter lbfgs_parameter_t::orthantwise_start specified.''"
| "lbfgs_message LBFGSERR_INVALID_ORTHANTWISE_END =
    ''Invalid parameter lbfgs_parameter_t::orthantwise_end specified.''"
| "lbfgs_message LBFGSERR_OUTOFINTERVAL =
    ''The line-search step went out of the interval of uncertainty.''"
| "lbfgs_message LBFGSERR_INCORRECT_TMINMAX =
    ''A logic error occurred; alternatively, the interval of uncertainty became too small.''"
| "lbfgs_message LBFGSERR_ROUNDING_ERROR =
    ''A rounding error occurred; alternatively, no line-search step satisfies the sufficient decrease and curvature conditions.''"
| "lbfgs_message LBFGSERR_MINIMUMSTEP =
    ''The line-search step became smaller than lbfgs_parameter_t::min_step.''"
| "lbfgs_message LBFGSERR_MAXIMUMSTEP =
    ''The line-search step became larger than lbfgs_parameter_t::max_step.''"
| "lbfgs_message LBFGSERR_MAXIMUMLINESEARCH =
    ''The line-search routine reaches the maximum number of evaluations.''"
| "lbfgs_message LBFGSERR_MAXIMUMITERATION =
    ''The algorithm routine reaches the maximum number of iterations.''"
| "lbfgs_message LBFGSERR_WIDTHTOOSMALL =
    ''Relative width of the interval of uncertainty is at most lbfgs_parameter_t::xtol.''"
| "lbfgs_message LBFGSERR_INVALIDPARAMETERS =
    ''A logic error (negative line-search step) occurred.''"
| "lbfgs_message LBFGSERR_INCREASEGRADIENT =
    ''The current search direction increases the objective function value.''"

definition lbfgs_codes :: "lbfgs_code list" where
  "lbfgs_codes =
    [LBFGS_SUCCESS, LBFGS_STOP, LBFGS_ALREADY_MINIMIZED,
     LBFGSERR_UNKNOWNERROR, LBFGSERR_LOGICERROR, LBFGSERR_OUTOFMEMORY,
     LBFGSERR_CANCELED, LBFGSERR_INVALID_N, LBFGSERR_INVALID_N_SSE,
     LBFGSERR_INVALID_X_SSE, LBFGSERR_INVALID_EPSILON, LBFGSERR_INVALID_TESTPERIOD,
     LBFGSERR_INVALID_DELTA, LBFGSERR_INVALID_LINESEARCH, LBFGSERR_INVALID_MINSTEP,
     LBFGSERR_INVALID_MAXSTEP, LBFGSERR_INVALID_FTOL, LBFGSERR_INVALID_WOLFE,
     LBFGSERR_INVALID_GTOL, LBFGSERR_INVALID_XTOL, LBFGSERR_INVALID_MAXLINESEARCH,
     LBFGSERR_INVALID_ORTHANTWISE, LBFGSERR_INVALID_ORTHANTWISE_START, LBFGSERR_INVALID_ORTHANTWISE_END,
     LBFGSERR_OUTOFINTERVAL, LBFGSERR_INCORRECT_TMINMAX, LBFGSERR_ROUNDING_ERROR,
     LBFGSERR_MINIMUMSTEP, LBFGSERR_MAXIMUMSTEP, LBFGSERR_MAXIMUMLINESEARCH,
     LBFGSERR_MAXIMUMITERATION, LBFGSERR_WIDTHTOOSMALL, LBFGSERR_INVALIDPARAMETERS,
     LBFGSERR_INCREASEGRADIENT]"

definition lbfgs_strerror :: "int \<Rightarrow> string" where
  "lbfgs_strerror err =
     (case List.find (\<lambda>c. lbfgs_value c = err) lbfgs_codes of
        Some c \<Rightarrow> lbfgs_message c | None \<Rightarrow> ''(unknown)'')"

subsection \<open>The step of the line search of More and Thuente\<close>

definition min2 :: "double \<Rightarrow> double \<Rightarrow> double" where
  "min2 a b = (if a \<le> b then a else b)"

definition max2 :: "double \<Rightarrow> double \<Rightarrow> double" where
  "max2 a b = (if b \<le> a then a else b)"

definition max3 :: "double \<Rightarrow> double \<Rightarrow> double \<Rightarrow> double" where
  "max3 a b c = max2 (max2 a b) c"

definition cubic_minimizer ::
  "clib \<Rightarrow> double \<Rightarrow> double \<Rightarrow> double \<Rightarrow> double \<Rightarrow> double \<Rightarrow> double \<Rightarrow> double" where
  "cubic_minimizer L u fu du v fv dv =
     (let d = v - u;
          theta = (fu - fv) * lit 3 / d + du + dv;
          s = max3 \<bar>theta\<bar> \<bar>du\<bar> \<bar>dv\<bar>;
          a = theta / s;
          gamma0 = s * c_sqrt L (a * a - (du / s) * (dv / s));
          gamma = (if v < u then - gamma0 else gamma0);
          p = gamma - du + theta;
          q = gamma - du + gamma + dv;
          r = p / q
      in u + r * d)"

definition cubic_minimizer2 ::
  "clib \<Rightarrow> double \<Rightarrow> double \<Rightarrow> double \<Rightarrow> double \<Rightarrow> double \<Rightarrow> double \<Rightarrow> double \<Rightarrow> double \<Rightarrow> double" where
  "cubic_minimizer2 L u fu du v fv dv xmin xmax =
     (let d = v - u;
          theta = (fu - fv) * lit 3 / d + du + dv;
          s = max3 \<bar>theta\<bar> \<bar>du\<bar> \<bar>dv\<bar>;
          a = theta / s;
          gamma0 = s * c_sqrt L (max2 0 (a * a - (du / s) * (dv / s)));
          gamma = (if u < v then - gamma0 else gamma0);
          p = gamma - dv + theta;
          q = gamma - dv + gamma + du;
          r = p / q
      in if r < 0 \<and> \<not> deq gamma 0 then v - r * d else if 0 < d then xmax else xmin)"

definition quad_minimizer :: "double \<Rightarrow> double \<Rightarrow> double \<Rightarrow> double \<Rightarrow> double \<Rightarrow> double" where
  "quad_minimizer u fu du v fv = (let a = v - u in u + du / ((fu - fv) / a + du) / lit 2 * a)"

definition quad_minimizer2 :: "double \<Rightarrow> double \<Rightarrow> double \<Rightarrow> double \<Rightarrow> double" where
  "quad_minimizer2 u du v dv = (let a = u - v in v + dv / (dv - du) * a)"

text \<open>
  The interval of uncertainty: its endpoint \<open>x\<close> with the least function value, its other endpoint
  \<open>y\<close>, and the trial value \<open>t\<close>, each with the function's value and derivative.
\<close>

record trial =
  t_x :: double
  t_fx :: double
  t_dx :: double
  t_y :: double
  t_fy :: double
  t_dy :: double
  t_t :: double
  t_ft :: double
  t_dt :: double
  t_brackt :: bool

text \<open>The choice of the new trial value: whether the minimum is bracketed, \<open>bound\<close>, the value.\<close>

definition trial_value :: "clib \<Rightarrow> double \<Rightarrow> double \<Rightarrow> trial \<Rightarrow> bool \<times> bool \<times> double" where
  "trial_value L tmin tmax v =
     (let cubic = cubic_minimizer L (t_x v) (t_fx v) (t_dx v) (t_t v) (t_ft v) (t_dt v);
          secant = quad_minimizer2 (t_x v) (t_dx v) (t_t v) (t_dt v) in
      if t_fx v < t_ft v then
        let mq = quad_minimizer (t_x v) (t_fx v) (t_dx v) (t_t v) (t_ft v) in
        (True, True, if \<bar>cubic - t_x v\<bar> < \<bar>mq - t_x v\<bar> then cubic else cubic + lit 0.5 * (mq - cubic))
      else if fsigndiff (t_dt v) (t_dx v) then
        (True, False, if \<bar>secant - t_t v\<bar> < \<bar>cubic - t_t v\<bar> then cubic else secant)
      else if \<bar>t_dt v\<bar> < \<bar>t_dx v\<bar> then
        let mc = cubic_minimizer2 L (t_x v) (t_fx v) (t_dx v) (t_t v) (t_ft v) (t_dt v) tmin tmax in
        (t_brackt v, True,
         if t_brackt v
         then (if \<bar>t_t v - mc\<bar> < \<bar>t_t v - secant\<bar> then mc else secant)
         else (if \<bar>t_t v - secant\<bar> < \<bar>t_t v - mc\<bar> then mc else secant))
      else
        (t_brackt v, False,
         if t_brackt v then cubic_minimizer L (t_t v) (t_ft v) (t_dt v) (t_y v) (t_fy v) (t_dy v)
         else if t_x v < t_t v then tmax else tmin))"

text \<open>The update of the interval, which does not depend on the new trial value.\<close>

definition update_interval :: "trial \<Rightarrow> trial" where
  "update_interval v =
     (if t_fx v < t_ft v then v\<lparr>t_y := t_t v, t_fy := t_ft v, t_dy := t_dt v\<rparr>
      else
        (if fsigndiff (t_dt v) (t_dx v) then v\<lparr>t_y := t_x v, t_fy := t_fx v, t_dy := t_dx v\<rparr> else v)
          \<lparr>t_x := t_t v, t_fx := t_ft v, t_dx := t_dt v\<rparr>)"

definition update_trial_interval :: "clib \<Rightarrow> double \<Rightarrow> double \<Rightarrow> trial \<Rightarrow> lbfgs_code option \<times> trial" where
  "update_trial_interval L tmin tmax v =
     (if t_brackt v \<and> (t_t v \<le> min2 (t_x v) (t_y v) \<or> max2 (t_x v) (t_y v) \<le> t_t v)
      then (Some LBFGSERR_OUTOFINTERVAL, v)
      else if t_brackt v \<and> 0 \<le> t_dx v * (t_t v - t_x v) then (Some LBFGSERR_INCREASEGRADIENT, v)
      else if t_brackt v \<and> tmax < tmin then (Some LBFGSERR_INCORRECT_TMINMAX, v)
      else case trial_value L tmin tmax v of (brackt, bound, newt) \<Rightarrow>
        let w = (update_interval v)\<lparr>t_brackt := brackt\<rparr>;
            newt = (if tmax < newt then tmax else newt);
            newt = (if newt < tmin then tmin else newt);
            mq = t_x w + lit 0.66 * (t_y w - t_x w);
            newt = (if brackt \<and> bound
                    then (if t_x w < t_y w then (if mq < newt then mq else newt)
                          else (if newt < mq then mq else newt))
                    else newt)
        in (None, w\<lparr>t_t := newt\<rparr>))"

subsection \<open>The line searches\<close>

type_synonym 's lbfgs_evaluate_t = "'s \<Rightarrow> double list \<Rightarrow> double \<Rightarrow> (double \<times> double list \<times> 's) result"

type_synonym 's lbfgs_progress_t =
  "'s \<Rightarrow> double list \<Rightarrow> double list \<Rightarrow> double \<Rightarrow> double \<Rightarrow> double \<Rightarrow> double \<Rightarrow> nat \<Rightarrow> nat \<Rightarrow> (int \<times> 's) result"

text \<open>What a line search changes: the point, the value, the gradient, the step, the instance.\<close>

record 's search =
  ls_x :: "double list"
  ls_f :: double
  ls_g :: "double list"
  ls_stp :: double
  ls_instance :: 's

text \<open>A line search returns the number of its evaluations or an error.\<close>

type_synonym 's searched = "((lbfgs_code + nat) \<times> 's search) result"

definition ls_evaluate :: "'s lbfgs_evaluate_t \<Rightarrow> double list \<Rightarrow> 's search \<Rightarrow> 's search result" where
  "ls_evaluate ev x st =
     plfit_check (ev (ls_instance st) x (ls_stp st)) (\<lambda>(f, g, i).
       Inr (st\<lparr>ls_x := x, ls_f := f, ls_g := g, ls_instance := i\<rparr>))"

definition step_error :: "lbfgs_parameter_t \<Rightarrow> double \<Rightarrow> nat \<Rightarrow> lbfgs_code option" where
  "step_error param stp count =
     (if stp < lb_min_step param then Some LBFGSERR_MINIMUMSTEP
      else if lb_max_step param < stp then Some LBFGSERR_MAXIMUMSTEP
      else if lb_max_linesearch param \<le> int count then Some LBFGSERR_MAXIMUMLINESEARCH
      else None)"

text \<open>The conditions of Armijo and Wolfe: \<open>None\<close> when the search ends, else the factor \<open>width\<close>.\<close>

definition backtracking_width ::
  "lbfgs_parameter_t \<Rightarrow> double list \<Rightarrow> double \<Rightarrow> double \<Rightarrow> double \<Rightarrow> 's search \<Rightarrow> double option" where
  "backtracking_width param s finit dginit dgtest st =
     (let dec = lit 0.5; inc = lit 2.1 in
      if finit + ls_stp st * dgtest < ls_f st then Some dec
      else if lb_linesearch param = LBFGS_LINESEARCH_BACKTRACKING_ARMIJO then None
      else let dg = vecdot (ls_g st) s in
        if dg < lb_wolfe param * dginit then Some inc
        else if lb_linesearch param = LBFGS_LINESEARCH_BACKTRACKING_WOLFE then None
        else if - lb_wolfe param * dginit < dg then Some dec
        else None)"

lemma step_error_count: "step_error param stp count = None \<Longrightarrow> int count < lb_max_linesearch param"
  by (simp add: step_error_def split: if_splits)

function backtracking_loop ::
  "lbfgs_parameter_t \<Rightarrow> 's lbfgs_evaluate_t \<Rightarrow> double list \<Rightarrow> double list \<Rightarrow> double \<Rightarrow> double \<Rightarrow> double \<Rightarrow>
   nat \<Rightarrow> 's search \<Rightarrow> 's searched" where
  "backtracking_loop param ev xp s finit dginit dgtest count st =
     plfit_check (ls_evaluate ev (vecadd xp s (ls_stp st)) st) (\<lambda>st.
       let count = Suc count in
       case backtracking_width param s finit dginit dgtest st of
         None \<Rightarrow> Inr (Inr count, st)
       | Some width \<Rightarrow>
           (case step_error param (ls_stp st) count of
              Some e \<Rightarrow> Inr (Inl e, st)
            | None \<Rightarrow> backtracking_loop param ev xp s finit dginit dgtest count
                        (st\<lparr>ls_stp := ls_stp st * width\<rparr>)))"
  by pat_completeness auto
termination
  by (relation "measure (\<lambda>(param, ev, xp, s, finit, dginit, dgtest, count, st). nat (lb_max_linesearch param - int count))")
    (auto dest: step_error_count)

declare backtracking_loop.simps [simp del]

definition line_search_backtracking ::
  "lbfgs_parameter_t \<Rightarrow> 's lbfgs_evaluate_t \<Rightarrow> double list \<Rightarrow> double list \<Rightarrow> 's search \<Rightarrow> 's searched" where
  "line_search_backtracking param ev xp s st =
     (if ls_stp st \<le> 0 then Inr (Inl LBFGSERR_INVALIDPARAMETERS, st)
      else let dginit = vecdot (ls_g st) s in
        if 0 < dginit then Inr (Inl LBFGSERR_INCREASEGRADIENT, st)
        else backtracking_loop param ev xp s (ls_f st) dginit (lb_ftol param * dginit) 0 st)"

text \<open>The helpers of the orthant-wise method, on the variables from \<open>start\<close> to \<open>end\<close>.\<close>

definition in_orthant :: "lbfgs_parameter_t \<Rightarrow> nat \<Rightarrow> bool" where
  "in_orthant param i \<longleftrightarrow> lb_orthantwise_start param \<le> int i \<and> int i < lb_orthantwise_end param"

definition owlqn_x1norm :: "lbfgs_parameter_t \<Rightarrow> double list \<Rightarrow> double" where
  "owlqn_x1norm param x =
     foldl (\<lambda>s (i, a). if in_orthant param i then s + \<bar>a\<bar> else s) 0 (enumerate 0 x)"

definition owlqn_pseudo_gradient :: "lbfgs_parameter_t \<Rightarrow> double list \<Rightarrow> double list \<Rightarrow> double list" where
  "owlqn_pseudo_gradient param x g =
     (let c = lb_orthantwise_c param in
      map (\<lambda>(i, a, b).
        if \<not> in_orthant param i then b
        else if a < 0 then b - c
        else if 0 < a then b + c
        else if b < - c then b + c
        else if c < b then b - c
        else 0) (enumerate 0 (zip x g)))"

definition owlqn_project :: "lbfgs_parameter_t \<Rightarrow> double list \<Rightarrow> double list \<Rightarrow> double list" where
  "owlqn_project param d sign =
     map (\<lambda>(i, a, b). if in_orthant param i \<and> a * b \<le> 0 then 0 else a) (enumerate 0 (zip d sign))"

function owlqn_loop ::
  "lbfgs_parameter_t \<Rightarrow> 's lbfgs_evaluate_t \<Rightarrow> double list \<Rightarrow> double list \<Rightarrow> double list \<Rightarrow> double list \<Rightarrow>
   double \<Rightarrow> nat \<Rightarrow> 's search \<Rightarrow> 's searched" where
  "owlqn_loop param ev xp gp wp s finit count st =
     plfit_check (ls_evaluate ev (owlqn_project param (vecadd xp s (ls_stp st)) wp) st) (\<lambda>st.
       let st = st\<lparr>ls_f := ls_f st + owlqn_x1norm param (ls_x st) * lb_orthantwise_c param\<rparr>;
           count = Suc count;
           dgtest = foldl (\<lambda>t (x, xp, gp). t + (x - xp) * gp) 0 (zip (ls_x st) (zip xp gp)) in
       if ls_f st \<le> finit + lb_ftol param * dgtest then Inr (Inr count, st)
       else case step_error param (ls_stp st) count of
         Some e \<Rightarrow> Inr (Inl e, st)
       | None \<Rightarrow> owlqn_loop param ev xp gp wp s finit count (st\<lparr>ls_stp := ls_stp st * lit 0.5\<rparr>))"
  by pat_completeness auto
termination
  by (relation "measure (\<lambda>(param, ev, xp, gp, wp, s, finit, count, st). nat (lb_max_linesearch param - int count))")
    (auto dest: step_error_count)

declare owlqn_loop.simps [simp del]

definition line_search_backtracking_owlqn ::
  "lbfgs_parameter_t \<Rightarrow> 's lbfgs_evaluate_t \<Rightarrow> double list \<Rightarrow> double list \<Rightarrow> double list \<Rightarrow> 's search \<Rightarrow> 's searched" where
  "line_search_backtracking_owlqn param ev xp gp s st =
     (if ls_stp st \<le> 0 then Inr (Inl LBFGSERR_INVALIDPARAMETERS, st)
      else
        let wp = map2 (\<lambda>x g. if deq x 0 then - g else x) xp gp
        in owlqn_loop param ev xp gp wp s (ls_f st) 0 st)"

text \<open>
  More and Thuente: the endpoints of the interval with values and derivatives, the two last
  widths, the flags \<open>brackt\<close> and \<open>stage1\<close>, and whether the last update of the interval failed.
\<close>

record mt_vars =
  mt_stx :: double
  mt_fx :: double
  mt_dgx :: double
  mt_sty :: double
  mt_fy :: double
  mt_dgy :: double
  mt_width :: double
  mt_prev_width :: double
  mt_brackt :: bool
  mt_stage1 :: bool
  mt_uinfo :: bool

definition mt_bounds :: "mt_vars \<Rightarrow> double \<Rightarrow> double \<times> double" where
  "mt_bounds v stp =
     (if mt_brackt v then (min2 (mt_stx v) (mt_sty v), max2 (mt_stx v) (mt_sty v))
      else (mt_stx v, stp + lit 4 * (stp - mt_stx v)))"

text \<open>The step that is tried: clipped, or the best one so far before an unusual termination.\<close>

definition mt_step :: "lbfgs_parameter_t \<Rightarrow> nat \<Rightarrow> mt_vars \<Rightarrow> double \<Rightarrow> double \<Rightarrow> double \<Rightarrow> double" where
  "mt_step param count v stmin stmax stp =
     (let stp = (if stp < lb_min_step param then lb_min_step param else stp);
          stp = (if lb_max_step param < stp then lb_max_step param else stp) in
      if mt_brackt v \<and>
          (stp \<le> stmin \<or> stmax \<le> stp \<or> lb_max_linesearch param \<le> int count + 1 \<or> mt_uinfo v \<or>
           stmax - stmin \<le> lb_xtol param * stmax)
      then mt_stx v else stp)"

text \<open>The tests for errors and convergence after an evaluation: \<open>None\<close> to go on.\<close>

definition mt_test ::
  "lbfgs_parameter_t \<Rightarrow> mt_vars \<Rightarrow> double \<Rightarrow> double \<Rightarrow> double \<Rightarrow> double \<Rightarrow> double \<Rightarrow> double \<Rightarrow> double \<Rightarrow> double \<Rightarrow>
   nat \<Rightarrow> (lbfgs_code + nat) option" where
  "mt_test param v stmin stmax stp f dg ftest1 dginit dgtest count =
     (if mt_brackt v \<and> (stp \<le> stmin \<or> stmax \<le> stp \<or> mt_uinfo v) then Some (Inl LBFGSERR_ROUNDING_ERROR)
      else if deq stp (lb_max_step param) \<and> f \<le> ftest1 \<and> dg \<le> dgtest then Some (Inl LBFGSERR_MAXIMUMSTEP)
      else if deq stp (lb_min_step param) \<and> (ftest1 < f \<or> dgtest \<le> dg) then Some (Inl LBFGSERR_MINIMUMSTEP)
      else if mt_brackt v \<and> stmax - stmin \<le> lb_xtol param * stmax then Some (Inl LBFGSERR_WIDTHTOOSMALL)
      else if lb_max_linesearch param \<le> int count then Some (Inl LBFGSERR_MAXIMUMLINESEARCH)
      else if f \<le> ftest1 \<and> \<bar>dg\<bar> \<le> lb_gtol param * (- dginit) then Some (Inr count)
      else None)"

lemma mt_test_count:
  "mt_test param v stmin stmax stp f dg ftest1 dginit dgtest count = None \<Longrightarrow> int count < lb_max_linesearch param"
  by (simp add: mt_test_def split: if_splits)

definition mt_of_trial :: "mt_vars \<Rightarrow> trial \<Rightarrow> mt_vars" where
  "mt_of_trial v t =
     v\<lparr>mt_stx := t_x t, mt_fx := t_fx t, mt_dgx := t_dx t, mt_sty := t_y t, mt_fy := t_fy t,
       mt_dgy := t_dy t, mt_brackt := t_brackt t\<rparr>"

text \<open>
  The call of \<open>update_trial_interval\<close>, on the modified function in the first stage. Yields the
  variables and the next step.
\<close>

definition mt_update ::
  "clib \<Rightarrow> mt_vars \<Rightarrow> double \<Rightarrow> double \<Rightarrow> double \<Rightarrow> double \<Rightarrow> double \<Rightarrow> double \<Rightarrow> double \<Rightarrow> mt_vars \<times> double" where
  "mt_update L v stmin stmax stp f dg ftest1 dgtest =
     (if mt_stage1 v \<and> ftest1 < f \<and> f \<le> mt_fx v then
        case update_trial_interval L stmin stmax
          \<lparr>t_x = mt_stx v, t_fx = mt_fx v - mt_stx v * dgtest, t_dx = mt_dgx v - dgtest,
           t_y = mt_sty v, t_fy = mt_fy v - mt_sty v * dgtest, t_dy = mt_dgy v - dgtest,
           t_t = stp, t_ft = f - stp * dgtest, t_dt = dg - dgtest, t_brackt = mt_brackt v\<rparr> of (uinfo, t) \<Rightarrow>
          ((mt_of_trial v (t\<lparr>t_fx := t_fx t + t_x t * dgtest, t_fy := t_fy t + t_y t * dgtest,
                            t_dx := t_dx t + dgtest, t_dy := t_dy t + dgtest\<rparr>))
             \<lparr>mt_uinfo := (uinfo \<noteq> None)\<rparr>, t_t t)
      else
        case update_trial_interval L stmin stmax
          \<lparr>t_x = mt_stx v, t_fx = mt_fx v, t_dx = mt_dgx v,
           t_y = mt_sty v, t_fy = mt_fy v, t_dy = mt_dgy v,
           t_t = stp, t_ft = f, t_dt = dg, t_brackt = mt_brackt v\<rparr> of (uinfo, t) \<Rightarrow>
          ((mt_of_trial v t)\<lparr>mt_uinfo := (uinfo \<noteq> None)\<rparr>, t_t t))"

text \<open>The last part of the loop's body: force a sufficient decrease of the interval.\<close>

definition mt_shrink :: "mt_vars \<times> double \<Rightarrow> mt_vars \<times> double" where
  "mt_shrink p =
     (case p of (v, stp) \<Rightarrow>
        if mt_brackt v then
          (v\<lparr>mt_prev_width := mt_width v, mt_width := \<bar>mt_sty v - mt_stx v\<bar>\<rparr>,
           if lit 0.66 * mt_prev_width v \<le> \<bar>mt_sty v - mt_stx v\<bar>
           then mt_stx v + lit 0.5 * (mt_sty v - mt_stx v) else stp)
        else (v, stp))"

function morethuente_loop ::
  "clib \<Rightarrow> lbfgs_parameter_t \<Rightarrow> 's lbfgs_evaluate_t \<Rightarrow> double list \<Rightarrow> double list \<Rightarrow> double \<Rightarrow> double \<Rightarrow> double \<Rightarrow>
   nat \<Rightarrow> mt_vars \<Rightarrow> 's search \<Rightarrow> 's searched" where
  "morethuente_loop L param ev xp s finit dginit dgtest count v st =
     (let (stmin, stmax) = mt_bounds v (ls_stp st);
          stp = mt_step param count v stmin stmax (ls_stp st) in
      plfit_check (ls_evaluate ev (vecadd xp s stp) (st\<lparr>ls_stp := stp\<rparr>)) (\<lambda>st.
        let dg = vecdot (ls_g st) s;
            ftest1 = finit + stp * dgtest;
            count = Suc count in
        case mt_test param v stmin stmax stp (ls_f st) dg ftest1 dginit dgtest count of
          Some r \<Rightarrow> Inr (r, st)
        | None \<Rightarrow>
            let v = v\<lparr>mt_stage1 := (mt_stage1 v \<and>
                  \<not> (ls_f st \<le> ftest1 \<and> min2 (lb_ftol param) (lb_gtol param) * dginit \<le> dg))\<rparr>;
                (v, stp) = mt_shrink (mt_update L v stmin stmax stp (ls_f st) dg ftest1 dgtest) in
            morethuente_loop L param ev xp s finit dginit dgtest count v (st\<lparr>ls_stp := stp\<rparr>)))"
  by pat_completeness auto
termination
  by (relation "measure (\<lambda>(L, param, ev, xp, s, finit, dginit, dgtest, count, v, st).
      nat (lb_max_linesearch param - int count))")
    (auto dest: mt_test_count)

declare morethuente_loop.simps [simp del]

definition line_search_morethuente ::
  "clib \<Rightarrow> lbfgs_parameter_t \<Rightarrow> 's lbfgs_evaluate_t \<Rightarrow> double list \<Rightarrow> double list \<Rightarrow> 's search \<Rightarrow> 's searched" where
  "line_search_morethuente L param ev xp s st =
     (if ls_stp st \<le> 0 then Inr (Inl LBFGSERR_INVALIDPARAMETERS, st)
      else let dginit = vecdot (ls_g st) s in
        if 0 < dginit then Inr (Inl LBFGSERR_INCREASEGRADIENT, st)
        else let finit = ls_f st; width = lb_max_step param - lb_min_step param in
          morethuente_loop L param ev xp s finit dginit (lb_ftol param * dginit) 0
            \<lparr>mt_stx = 0, mt_fx = finit, mt_dgx = dginit, mt_sty = 0, mt_fy = finit, mt_dgy = dginit,
             mt_width = width, mt_prev_width = lit 2 * width, mt_brackt = False, mt_stage1 = True,
             mt_uinfo = False\<rparr> st)"

subsection \<open>The optimiser\<close>

record iteration_data_t =
  it_alpha :: double
  it_s :: "double list"
  it_y :: "double list"
  it_ys :: double

definition sizeof_iteration_data :: nat where "sizeof_iteration_data = 32"

text \<open>
  The local variables that survive an iteration; the array \<open>pf\<close> of previous values is \<open>None\<close>
  when it was not asked for or not granted.
\<close>

record 's lbfgs_state =
  st_x :: "double list"
  st_fx :: double
  st_g :: "double list"
  st_pg :: "double list"
  st_d :: "double list"
  st_step :: double
  st_pf :: "double list option"
  st_lm :: "iteration_data_t list"
  st_end :: nat
  st_k :: nat
  st_instance :: 's

text \<open>
  The value returned, the contents of the caller's arrays \<open>x\<close> and \<open>ptr_fx\<close>, its instance;
  \<open>ptr_fx\<close> is \<open>None\<close> where it is left alone.
\<close>

record 's lbfgs_return =
  r_value :: int
  r_x :: "double list"
  r_fx :: "double option"
  r_instance :: 's

definition orthantwise :: "lbfgs_parameter_t \<Rightarrow> bool" where
  "orthantwise param \<longleftrightarrow> \<not> deq (lb_orthantwise_c param) 0"

text \<open>The checks of the parameters for \<open>n\<close> variables, in their order.\<close>

definition check_parameters :: "lbfgs_parameter_t \<Rightarrow> int \<Rightarrow> lbfgs_code option" where
  "check_parameters param n =
     (if n \<le> 0 then Some LBFGSERR_INVALID_N
      else if lb_epsilon param < 0 then Some LBFGSERR_INVALID_EPSILON
      else if lb_past param < 0 then Some LBFGSERR_INVALID_TESTPERIOD
      else if lb_delta param < 0 then Some LBFGSERR_INVALID_DELTA
      else if lb_min_step param < 0 then Some LBFGSERR_INVALID_MINSTEP
      else if lb_max_step param < lb_min_step param then Some LBFGSERR_INVALID_MAXSTEP
      else if lb_ftol param < 0 then Some LBFGSERR_INVALID_FTOL
      else if (lb_linesearch param = LBFGS_LINESEARCH_BACKTRACKING_WOLFE \<or>
               lb_linesearch param = LBFGS_LINESEARCH_BACKTRACKING_STRONG_WOLFE) \<and>
              (lb_wolfe param \<le> lb_ftol param \<or> 1 \<le> lb_wolfe param) then Some LBFGSERR_INVALID_WOLFE
      else if lb_gtol param < 0 then Some LBFGSERR_INVALID_GTOL
      else if lb_xtol param < 0 then Some LBFGSERR_INVALID_XTOL
      else if lb_max_linesearch param \<le> 0 then Some LBFGSERR_INVALID_MAXLINESEARCH
      else if lb_orthantwise_c param < 0 then Some LBFGSERR_INVALID_ORTHANTWISE
      else if lb_orthantwise_start param < 0 \<or> n < lb_orthantwise_start param
        then Some LBFGSERR_INVALID_ORTHANTWISE_START
      else if n < lb_orthantwise_end param then Some LBFGSERR_INVALID_ORTHANTWISE_END
      else if orthantwise param then
        (if lb_linesearch param = LBFGS_LINESEARCH_BACKTRACKING_WOLFE then None
         else Some LBFGSERR_INVALID_LINESEARCH)
      else if lb_linesearch param \<in> {LBFGS_LINESEARCH_MORETHUENTE, LBFGS_LINESEARCH_BACKTRACKING_ARMIJO,
                LBFGS_LINESEARCH_BACKTRACKING_WOLFE, LBFGS_LINESEARCH_BACKTRACKING_STRONG_WOLFE} then None
      else Some LBFGSERR_INVALID_LINESEARCH)"

text \<open>A negative \<open>orthantwise_end\<close> stands for all variables.\<close>

definition default_end :: "lbfgs_parameter_t \<Rightarrow> int \<Rightarrow> lbfgs_parameter_t" where
  "default_end param n =
     (if lb_orthantwise_end param < 0 then param\<lparr>lb_orthantwise_end := n\<rparr> else param)"

definition lbfgs_linesearch ::
  "clib \<Rightarrow> lbfgs_parameter_t \<Rightarrow> 's lbfgs_evaluate_t \<Rightarrow> double list \<Rightarrow> double list \<Rightarrow> double list \<Rightarrow>
   's search \<Rightarrow> 's searched" where
  "lbfgs_linesearch L param ev xp gp s st =
     (if orthantwise param then line_search_backtracking_owlqn param ev xp gp s st
      else if lb_linesearch param = LBFGS_LINESEARCH_MORETHUENTE then line_search_morethuente L param ev xp s st
      else line_search_backtracking param ev xp s st)"

text \<open>Are all the arrays granted? The array \<open>pf\<close> may be missing.\<close>

definition lbfgs_allocated :: "clib \<Rightarrow> lbfgs_parameter_t \<Rightarrow> int \<Rightarrow> bool" where
  "lbfgs_allocated L param n \<longleftrightarrow>
     vecalloc L n sizeof_double \<and> vecalloc L (lb_m param) sizeof_iteration_data"

text \<open>The norms whose quotient the convergence test compares with \<open>epsilon\<close>.\<close>

definition gradient :: "lbfgs_parameter_t \<Rightarrow> 's lbfgs_state \<Rightarrow> double list" where
  "gradient param st = (if orthantwise param then st_pg st else st_g st)"

definition converged :: "clib \<Rightarrow> lbfgs_parameter_t \<Rightarrow> 's lbfgs_state \<Rightarrow> bool" where
  "converged L param st \<longleftrightarrow>
     (let xnorm = vec2norm L (st_x st); gnorm = vec2norm L (gradient param st);
          xnorm = (if xnorm < 1 then 1 else xnorm)
      in gnorm / xnorm \<le> lb_epsilon param)"

text \<open>One step of each of the two loops over the limited memory, at the place \<open>j\<close> of the ring.\<close>

definition lm_down :: "nat \<Rightarrow> nat \<Rightarrow> nat \<times> iteration_data_t list \<times> double list \<Rightarrow>
    (nat \<times> iteration_data_t list \<times> double list) result" where
  "lm_down m i r =
     (case r of (j, lm, d) \<Rightarrow>
        let j = (j + m - 1) mod m in
        plfit_check (array_get lm j) (\<lambda>it.
        let alpha = vecdot (it_s it) d / it_ys it in
        plfit_check (array_set lm j (it\<lparr>it_alpha := alpha\<rparr>)) (\<lambda>lm.
        Inr (j, lm, vecadd d (it_y it) (- alpha)))))"

definition lm_up :: "nat \<Rightarrow> nat \<Rightarrow> nat \<times> iteration_data_t list \<times> double list \<Rightarrow>
    (nat \<times> iteration_data_t list \<times> double list) result" where
  "lm_up m i r =
     (case r of (j, lm, d) \<Rightarrow>
        plfit_check (array_get lm j) (\<lambda>it.
        let beta = vecdot (it_y it) d / it_ys it in
        Inr ((j + 1) mod m, lm, vecadd d (it_s it) (it_alpha it - beta))))"

definition lm_direction :: "nat \<Rightarrow> nat \<Rightarrow> nat \<Rightarrow> double \<Rightarrow> iteration_data_t list \<Rightarrow> double list \<Rightarrow>
    (iteration_data_t list \<times> double list) result" where
  "lm_direction m end bound scale lm d =
     plfit_check (loop_res (lm_down m) [0..<bound] (end, lm, d)) (\<lambda>(j, lm, d).
     plfit_check (loop_res (lm_up m) [0..<bound] (j, lm, vecscale d scale)) (\<lambda>(j, lm, d).
     Inr (lm, d)))"

text \<open>How an iteration ends: the function returns, or another iteration follows.\<close>

datatype 's lbfgs_outcome = Exit int "'s lbfgs_state" | Continue "'s lbfgs_state"

text \<open>The last part of an iteration: the new pair of the limited memory, the new direction.\<close>

definition lbfgs_update :: "lbfgs_parameter_t \<Rightarrow> double list \<Rightarrow> double list \<Rightarrow> 's lbfgs_state \<Rightarrow> 's lbfgs_outcome result" where
  "lbfgs_update param xp gp st =
     (let m = nat (lb_m param) in
      plfit_check (array_get (st_lm st) (st_end st)) (\<lambda>it.
      let s = vecdiff (st_x st) xp; y = vecdiff (st_g st) gp; ys = vecdot y s; yy = vecdot y y in
      plfit_check (array_set (st_lm st) (st_end st) (it\<lparr>it_s := s, it_y := y, it_ys := ys\<rparr>)) (\<lambda>lm.
      let bound = (if m \<le> st_k st then m else st_k st);
          end = (st_end st + 1) mod m in
      plfit_check (lm_direction m end bound (ys / yy) lm (vecncpy (st_d st) (gradient param st))) (\<lambda>(lm, d).
      let d = (if orthantwise param
               then map (\<lambda>(i, a, b). if in_orthant param i \<and> 0 \<le> a * b then 0 else a) (enumerate 0 (zip d (st_pg st)))
               else d)
      in Inr (Continue (st\<lparr>st_lm := lm, st_k := st_k st + 1, st_end := end, st_d := d, st_step := 1\<rparr>))))))"

text \<open>The test of the improvement over \<open>past\<close> iterations, before the value is stored.\<close>

definition stopped :: "lbfgs_parameter_t \<Rightarrow> double list \<Rightarrow> 's lbfgs_state \<Rightarrow> bool" where
  "stopped param pf st \<longleftrightarrow>
     lb_past param \<le> int (st_k st) \<and>
     \<bar>(pf ! (st_k st mod nat (lb_past param)) - st_fx st) / st_fx st\<bar> < lb_delta param"

definition lbfgs_tests :: "clib \<Rightarrow> lbfgs_parameter_t \<Rightarrow> double list \<Rightarrow> double list \<Rightarrow> 's lbfgs_state \<Rightarrow> 's lbfgs_outcome result" where
  "lbfgs_tests L param xp gp st =
     (if converged L param st then Inr (Exit (lbfgs_value LBFGS_SUCCESS) st)
      else case st_pf st of
        Some pf \<Rightarrow>
          plfit_check (array_get pf (st_k st mod nat (lb_past param))) (\<lambda>_.
            if stopped param pf st then Inr (Exit (lbfgs_value LBFGS_STOP) st)
            else let st = st\<lparr>st_pf := Some (pf[st_k st mod nat (lb_past param) := st_fx st])\<rparr> in
              if lb_max_iterations param \<noteq> 0 \<and> lb_max_iterations param < int (st_k st) + 1
              then Inr (Exit (lbfgs_value LBFGSERR_MAXIMUMITERATION) st)
              else lbfgs_update param xp gp st)
      | None \<Rightarrow>
          if lb_max_iterations param \<noteq> 0 \<and> lb_max_iterations param < int (st_k st) + 1
          then Inr (Exit (lbfgs_value LBFGSERR_MAXIMUMITERATION) st)
          else lbfgs_update param xp gp st)"

definition lbfgs_accepted ::
  "clib \<Rightarrow> lbfgs_parameter_t \<Rightarrow> 's lbfgs_progress_t option \<Rightarrow> double list \<Rightarrow> double list \<Rightarrow> nat \<Rightarrow>
   's lbfgs_state \<Rightarrow> 's lbfgs_outcome result" where
  "lbfgs_accepted L param pr xp gp ls st =
     (case pr of
        None \<Rightarrow> lbfgs_tests L param xp gp st
      | Some progress \<Rightarrow>
          plfit_check (progress (st_instance st) (st_x st) (st_g st) (st_fx st) (vec2norm L (st_x st))
            (vec2norm L (gradient param st)) (st_step st) (st_k st) ls) (\<lambda>(ret, i).
          let st = st\<lparr>st_instance := i\<rparr> in
          if ret \<noteq> 0 then Inr (Exit ret st) else lbfgs_tests L param xp gp st))"

text \<open>One iteration: the line search, which is undone when it fails, and what follows it.\<close>

definition lbfgs_iteration ::
  "clib \<Rightarrow> lbfgs_parameter_t \<Rightarrow> 's lbfgs_evaluate_t \<Rightarrow> 's lbfgs_progress_t option \<Rightarrow> 's lbfgs_state \<Rightarrow>
   's lbfgs_outcome result" where
  "lbfgs_iteration L param ev pr st =
     (let xp = st_x st; gp = st_g st in
      plfit_check (lbfgs_linesearch L param ev xp (gradient param st) (st_d st)
        \<lparr>ls_x = xp, ls_f = st_fx st, ls_g = gp, ls_stp = st_step st, ls_instance = st_instance st\<rparr>) (\<lambda>(ls, se).
      let st = st\<lparr>st_x := ls_x se, st_fx := ls_f se, st_g := ls_g se, st_step := ls_stp se,
                 st_instance := ls_instance se,
                 st_pg := (if orthantwise param then owlqn_pseudo_gradient param (ls_x se) (ls_g se) else st_pg st)\<rparr>
      in case ls of
           Inl e \<Rightarrow> Inr (Exit (lbfgs_value e) (st\<lparr>st_x := xp, st_g := gp\<rparr>))
         | Inr count \<Rightarrow> lbfgs_accepted L param pr xp gp count st))"

fun lbfgs_loop ::
  "clib \<Rightarrow> lbfgs_parameter_t \<Rightarrow> 's lbfgs_evaluate_t \<Rightarrow> 's lbfgs_progress_t option \<Rightarrow> nat \<Rightarrow> 's lbfgs_state \<Rightarrow>
   (int \<times> 's lbfgs_state) result" where
  "lbfgs_loop L param ev pr 0 st = Inl Out_of_fuel"
| "lbfgs_loop L param ev pr (Suc fuel) st =
     plfit_check (lbfgs_iteration L param ev pr st) (\<lambda>r.
       case r of Exit ret st \<Rightarrow> Inr (ret, st) | Continue st \<Rightarrow> lbfgs_loop L param ev pr fuel st)"

text \<open>The state before the first iteration, from the first evaluation.\<close>

definition lbfgs_start ::
  "clib \<Rightarrow> lbfgs_parameter_t \<Rightarrow> double list \<Rightarrow> double \<Rightarrow> double list \<Rightarrow> 's \<Rightarrow> 's lbfgs_state" where
  "lbfgs_start L param x f g i =
     (let n = length x;
          fx = (if orthantwise param then f + owlqn_x1norm param x * lb_orthantwise_c param else f);
          pg = (if orthantwise param then owlqn_pseudo_gradient param x g else []);
          d = vecncpy [] (if orthantwise param then pg else g);
          pf = (if 0 < lb_past param \<and> vecalloc L (lb_past param) sizeof_double
                then Some ((replicate (nat (lb_past param)) 0)[0 := fx]) else None)
      in \<lparr>st_x = x, st_fx = fx, st_g = g, st_pg = pg, st_d = d, st_step = vec2norminv L d, st_pf = pf,
          st_lm = replicate (nat (lb_m param))
            \<lparr>it_alpha = 0, it_s = replicate n 0, it_y = replicate n 0, it_ys = 0\<rparr>,
          st_end = 0, st_k = 1, st_instance = i\<rparr>)"

definition lbfgs ::
  "clib \<Rightarrow> nat \<Rightarrow> double list \<Rightarrow> bool \<Rightarrow> 's lbfgs_evaluate_t \<Rightarrow> 's lbfgs_progress_t option \<Rightarrow> 's \<Rightarrow>
   lbfgs_parameter_t option \<Rightarrow> 's lbfgs_return result" where
  \<comment> \<open>\<open>want_fx\<close>: whether \<open>ptr_fx\<close> is not null\<close>
  "lbfgs L fuel x want_fx ev pr inst param_opt =
     (let n = int (length x);
          param = (case param_opt of None \<Rightarrow> lbfgs_defparam | Some p \<Rightarrow> p);
          return = (\<lambda>ret x fx i. \<lparr>r_value = ret, r_x = x, r_fx = (if want_fx then Some fx else None), r_instance = i\<rparr>)
      in case check_parameters param n of
           Some e \<Rightarrow> Inr \<lparr>r_value = lbfgs_value e, r_x = x, r_fx = None, r_instance = inst\<rparr>
         | None \<Rightarrow>
             let param = default_end param n in
             if \<not> lbfgs_allocated L param n
             then Inr (return (lbfgs_value LBFGSERR_OUTOFMEMORY) x 0 inst)
             else plfit_check (ev inst x 0) (\<lambda>(f, g, i).
               let st = lbfgs_start L param x f g i in
               if converged L param st
               then Inr (return (lbfgs_value LBFGS_ALREADY_MINIMIZED) x (st_fx st) i)
               else plfit_check (lbfgs_loop L param ev pr fuel st) (\<lambda>(ret, st).
                 Inr (return ret (st_x st) (st_fx st) (st_instance st)))))"

end
