(* ===== verification/Lbfgs_Memory.thy ===== *)
theory Lbfgs_Memory
  imports Lbfgs
begin

text \<open>
  The limited memory of the optimiser. The code keeps the last \<open>m\<close> pairs of differences in a
  ring of \<open>m\<close> places and walks through it backwards and forwards by index arithmetic; the
  abstract memory is the list of the last pairs, newest first, and the new direction is a
  recursion over that list. The code refines it.
\<close>

lemma loop_res_ignore:
  assumes "\<And>i j. f i = f j"
  shows "length xs = length ys \<Longrightarrow> loop_res f xs s = loop_res f ys s"
proof (induction xs arbitrary: ys s)
  case (Cons x xs)
  then obtain y zs where ys: "ys = y # zs" "length xs = length zs" by (cases ys) auto
  have "loop_res f xs = loop_res f zs" using Cons.IH [OF ys(2)] by auto
  with ys(1) assms [of x y] show ?case by simp
qed simp

subsection \<open>The abstract memory\<close>

type_synonym pair = "double list \<times> double list \<times> double"

definition pair_of :: "iteration_data_t \<Rightarrow> pair" where
  "pair_of it = (it_s it, it_y it, it_ys it)"

text \<open>The two loops over the memory as one recursion, with the initial scaling in the middle.\<close>

fun two_loop :: "pair list \<Rightarrow> double \<Rightarrow> double list \<Rightarrow> double list" where
  "two_loop [] scale d = vecscale d scale"
| "two_loop ((s, y, ys) # hs) scale d =
     (let alpha = vecdot s d / ys;
          r = two_loop hs scale (vecadd d y (- alpha));
          beta = vecdot y r / ys
      in vecadd r s (alpha - beta))"

text \<open>The place of the \<open>i\<close>-th newest pair when \<open>j\<close> is the place to be filled next.\<close>

definition slot :: "nat \<Rightarrow> nat \<Rightarrow> nat \<Rightarrow> nat" where
  "slot m j i = (j + (m - Suc i)) mod m"

lemma slot_less [simp]: "0 < m \<Longrightarrow> slot m j i < m"
  by (simp add: slot_def)

lemma slot_0: "0 < m \<Longrightarrow> slot m j 0 = (j + m - 1) mod m"
  by (simp add: slot_def Suc_leI)

lemma slot_slot_0: "Suc i < m \<Longrightarrow> slot m (slot m j 0) i = slot m j (Suc i)"
proof -
  assume i: "Suc i < m"
  have "slot m (slot m j 0) i = (j + (m - 1) + (m - Suc i)) mod m"
    by (simp add: slot_def mod_add_left_eq)
  also have "j + (m - 1) + (m - Suc i) = j + (m - Suc (Suc i)) + m" using i by simp
  finally show ?thesis by (simp add: slot_def)
qed

lemma slot_next: "0 < m \<Longrightarrow> j < m \<Longrightarrow> (slot m j 0 + 1) mod m = j"
  by (simp add: slot_def mod_Suc_eq)

lemma slot_Suc_next: "Suc i < m \<Longrightarrow> slot m ((j + 1) mod m) (Suc i) = slot m j i"
proof -
  assume i: "Suc i < m"
  have e: "slot m ((j + 1) mod m) (Suc i) = (j + 1 + (m - Suc (Suc i))) mod m"
    by (simp add: slot_def mod_add_left_eq del: add_Suc_right)
  have "j + 1 + (m - Suc (Suc i)) = j + (m - Suc i)" using i by simp
  then show ?thesis unfolding e by (simp only: slot_def)
qed

lemma slot_inj:
  assumes "i < m" "i' < m" "slot m j i = slot m j i'"
  shows "i = i'"
proof -
  have "(j + (m - Suc i)) mod m = (j + (m - Suc i')) mod m" using assms(3) by (simp add: slot_def)
  then have "(int j + int (m - Suc i)) mod int m = (int j + int (m - Suc i')) mod int m"
    by (metis of_nat_add of_nat_mod)
  then have "int m dvd int (m - Suc i) - int (m - Suc i')"
    by (simp add: mod_eq_dvd_iff)
  then have d: "int m dvd int i' - int i" using assms(1,2) by (simp add: of_nat_diff)
  moreover have "\<bar>int i' - int i\<bar> < int m" using assms(1,2) by linarith
  ultimately have "int i' - int i = 0" using zdvd_imp_le [of "int m" "\<bar>int i' - int i\<bar>"] by fastforce
  then show ?thesis by simp
qed

subsection \<open>The two loops\<close>

definition same_pairs :: "iteration_data_t list \<Rightarrow> iteration_data_t list \<Rightarrow> bool" where
  "same_pairs lm lm' \<longleftrightarrow> map pair_of lm = map pair_of lm'"

lemma same_pairs_nth: "same_pairs lm lm' \<Longrightarrow> i < length lm \<Longrightarrow> pair_of (lm ! i) = pair_of (lm' ! i)"
  by (metis same_pairs_def length_map nth_map)

lemma same_pairs_length: "same_pairs lm lm' \<Longrightarrow> length lm' = length lm"
  by (metis same_pairs_def length_map)

lemma same_pairs_alpha: "i < length lm \<Longrightarrow> same_pairs lm (lm[i := (lm ! i)\<lparr>it_alpha := a\<rparr>])"
  unfolding same_pairs_def by (intro nth_equalityI) (auto simp: nth_list_update pair_of_def)

lemma lm_loops:
  assumes "k \<le> m" "0 < m" "j < m" "length lm = m"
  shows "\<exists>j' lm' d'. loop_res (lm_down m) [0..<k] (j, lm, d) = Inr (j', lm', d') \<and> same_pairs lm lm' \<and>
    (\<forall>i < m. i \<notin> slot m j ` {..<k} \<longrightarrow> lm' ! i = lm ! i) \<and>
    loop_res (lm_up m) [0..<k] (j', lm', vecscale d' scale) =
      Inr (j, lm', two_loop (map (\<lambda>i. pair_of (lm ! slot m j i)) [0..<k]) scale d)"
  using assms
proof (induction k arbitrary: j lm d)
  case 0
  then show ?case by (auto simp: same_pairs_def)
next
  case (Suc k)
  let ?j1 = "slot m j 0"
  let ?it = "lm ! ?j1"
  let ?alpha = "vecdot (it_s ?it) d / it_ys ?it"
  let ?lm1 = "lm[?j1 := ?it\<lparr>it_alpha := ?alpha\<rparr>]" and ?d1 = "vecadd d (it_y ?it) (- ?alpha)"
  have j1: "?j1 < m" using Suc.prems by simp
  have km: "k \<le> m" using Suc.prems by simp
  have len: "length ?lm1 = m" using Suc.prems by simp
  have sp: "same_pairs lm ?lm1" using j1 Suc.prems by (simp add: same_pairs_alpha)
  obtain j' lm' d' where IH: "loop_res (lm_down m) [0..<k] (?j1, ?lm1, ?d1) = Inr (j', lm', d')" "same_pairs ?lm1 lm'"
    "\<forall>i < m. i \<notin> slot m ?j1 ` {..<k} \<longrightarrow> lm' ! i = ?lm1 ! i"
    "loop_res (lm_up m) [0..<k] (j', lm', vecscale d' scale) =
      Inr (?j1, lm', two_loop (map (\<lambda>i. pair_of (?lm1 ! slot m ?j1 i)) [0..<k]) scale ?d1)"
    using Suc.IH [OF km Suc.prems(2) j1 len] by blast
  have shift: "slot m ?j1 i = slot m j (Suc i)" if "i < k" for i
    using that Suc.prems by (intro slot_slot_0) simp
  have img: "slot m ?j1 ` {..<k} = slot m j ` Suc ` {..<k}" using shift by (auto simp: image_image)
  have other: "?j1 \<notin> slot m ?j1 ` {..<k}"
    unfolding img using Suc.prems by (auto dest!: slot_inj [rotated 2])
  have at: "lm' ! ?j1 = ?it\<lparr>it_alpha := ?alpha\<rparr>" using IH(3) j1 other Suc.prems by simp
  have down: "loop_res (lm_down m) [0..<Suc k] (j, lm, d) = Inr (j', lm', d')"
  proof -
    have "loop_res (lm_down m) [0..<Suc k] (j, lm, d) = loop_res (lm_down m) (0 # [0..<k]) (j, lm, d)"
      by (rule loop_res_ignore) (auto simp: lm_down_def)
    moreover have "lm_down m 0 (j, lm, d) = Inr (?j1, ?lm1, ?d1)"
      using j1 Suc.prems slot_0 [OF Suc.prems(2)] by (simp add: lm_down_def Let_def)
    ultimately show ?thesis using IH(1) by simp
  qed
  have pairs: "map (\<lambda>i. pair_of (?lm1 ! slot m ?j1 i)) [0..<k] = map (\<lambda>i. pair_of (lm ! slot m j (Suc i))) [0..<k]"
    using shift same_pairs_nth [OF sp] Suc.prems by (intro map_cong) auto
  have hist: "map (\<lambda>i. pair_of (lm ! slot m j i)) [0..<Suc k] =
      (it_s ?it, it_y ?it, it_ys ?it) # map (\<lambda>i. pair_of (lm ! slot m j (Suc i))) [0..<k]"
    by (simp add: upt_conv_Cons map_Suc_upt [symmetric] pair_of_def del: upt_Suc)
  let ?r = "two_loop (map (\<lambda>i. pair_of (lm ! slot m j (Suc i))) [0..<k]) scale ?d1"
  have "lm_up m k (?j1, lm', ?r) = Inr (j, lm', two_loop (map (\<lambda>i. pair_of (lm ! slot m j i)) [0..<Suc k]) scale d)"
    using at j1 same_pairs_length [OF IH(2)] Suc.prems slot_next [OF Suc.prems(2,3)]
    unfolding hist by (simp add: lm_up_def Let_def)
  then have up: "loop_res (lm_up m) [0..<Suc k] (j', lm', vecscale d' scale) =
      Inr (j, lm', two_loop (map (\<lambda>i. pair_of (lm ! slot m j i)) [0..<Suc k]) scale d)"
    using IH(4) unfolding pairs by (simp add: loop_res_append)
  have keep: "\<forall>i < m. i \<notin> slot m j ` {..<Suc k} \<longrightarrow> lm' ! i = lm ! i"
  proof (intro allI impI)
    fix i assume i: "i < m" "i \<notin> slot m j ` {..<Suc k}"
    have "slot m j ` {..<Suc k} = insert ?j1 (slot m ?j1 ` {..<k})"
      unfolding img by (simp add: lessThan_Suc_eq_insert_0)
    with i IH(3) show "lm' ! i = lm ! i" by simp
  qed
  have "same_pairs lm lm'" using sp IH(2) by (simp add: same_pairs_def)
  with down up keep show ?case by blast
qed

lemma lm_direction_eq:
  assumes "bound \<le> m" "0 < m" "j < m" "length lm = m"
  shows "\<exists>lm'. lm_direction m j bound scale lm d =
      Inr (lm', two_loop (map (\<lambda>i. pair_of (lm ! slot m j i)) [0..<bound]) scale d) \<and> same_pairs lm lm'"
proof -
  from lm_loops [OF assms, of d scale] obtain j' lm' d' where
    "loop_res (lm_down m) [0..<bound] (j, lm, d) = Inr (j', lm', d')" "same_pairs lm lm'"
    "loop_res (lm_up m) [0..<bound] (j', lm', vecscale d' scale) =
      Inr (j, lm', two_loop (map (\<lambda>i. pair_of (lm ! slot m j i)) [0..<bound]) scale d)" by blast
  then show ?thesis by (simp add: lm_direction_def)
qed

subsection \<open>The refinement\<close>

text \<open>
  The ring of a state that has finished \<open>k - 1\<close> iterations, and the memory it stands for: the
  pairs of the last \<open>m\<close> iterations, newest first.
\<close>

definition ring_ok :: "lbfgs_parameter_t \<Rightarrow> 's lbfgs_state \<Rightarrow> bool" where
  "ring_ok param st \<longleftrightarrow>
     0 < lb_m param \<and> length (st_lm st) = nat (lb_m param) \<and> st_end st < nat (lb_m param) \<and> 0 < st_k st"

definition memory :: "lbfgs_parameter_t \<Rightarrow> 's lbfgs_state \<Rightarrow> pair list" where
  "memory param st =
     (let m = nat (lb_m param) in
      map (\<lambda>i. pair_of (st_lm st ! slot m (st_end st) i)) [0..<min m (st_k st - 1)])"

lemma ring_push:
  assumes "0 < m" "j < m" "length lm = m" "0 < k"
  shows "map (\<lambda>i. pair_of (lm[j := it] ! slot m ((j + 1) mod m) i)) [0..<min m k] =
    take m (pair_of it # map (\<lambda>i. pair_of (lm ! slot m j i)) [0..<min m (k - 1)])"
proof (rule nth_equalityI)
  show l: "length (map (\<lambda>i. pair_of (lm[j := it] ! slot m ((j + 1) mod m) i)) [0..<min m k]) =
      length (take m (pair_of it # map (\<lambda>i. pair_of (lm ! slot m j i)) [0..<min m (k - 1)]))"
    using assms by simp
  fix i assume "i < length (map (\<lambda>i. pair_of (lm[j := it] ! slot m ((j + 1) mod m) i)) [0..<min m k])"
  then have i: "i < m" "i < k" by simp_all
  show "map (\<lambda>i. pair_of (lm[j := it] ! slot m ((j + 1) mod m) i)) [0..<min m k] ! i =
      take m (pair_of it # map (\<lambda>i. pair_of (lm ! slot m j i)) [0..<min m (k - 1)]) ! i"
  proof (cases i)
    case 0
    have "slot m ((j + 1) mod m) 0 = j"
    proof (cases "Suc j = m")
      case False
      then have "Suc j < m" using assms by simp
      then show ?thesis using assms by (simp add: slot_def)
    qed (use assms in \<open>auto simp: slot_def\<close>)
    then show ?thesis using 0 i assms by simp
  next
    case (Suc n)
    have s: "slot m ((j + 1) mod m) i = slot m j n" using Suc i by (simp only: slot_Suc_next)
    have "slot m j n \<noteq> j"
    proof
      assume "slot m j n = j"
      also have "j = slot m j (m - 1)" using assms by (simp add: slot_def)
      finally show False using slot_inj [of n m "m - 1" j] Suc i by simp
    qed
    moreover have "[0..<min m (k - Suc 0)] ! n = n" using Suc i by (simp del: upt_Suc)
    ultimately show ?thesis using s i Suc by (simp del: upt_Suc)
  qed
qed

lemma memory_same_pairs:
  assumes "same_pairs lm (st_lm st)" "st_end st < length lm" "length lm = nat (lb_m param)"
  shows "memory param st =
    map (\<lambda>i. pair_of (lm ! slot (nat (lb_m param)) (st_end st) i)) [0..<min (nat (lb_m param)) (st_k st - 1)]"
  unfolding memory_def Let_def using assms by (intro map_cong) (auto intro!: same_pairs_nth [symmetric] slot_less)

lemma lbfgs_update_memory:
  fixes st :: "'s lbfgs_state" and xp gp :: "double list"
  assumes "ring_ok param st" "\<not> orthantwise param"
  defines "s \<equiv> vecdiff (st_x st) xp" and "y \<equiv> vecdiff (st_g st) gp"
  shows "\<exists>st'. lbfgs_update param xp gp st = Inr (Continue st') \<and> ring_ok param st' \<and>
    memory param st' = take (nat (lb_m param)) ((s, y, vecdot y s) # memory param st) \<and>
    st_d st' = two_loop (memory param st') (vecdot y s / vecdot y y) (map uminus (st_g st)) \<and>
    st' = st\<lparr>st_lm := st_lm st', st_k := st_k st + 1, st_end := st_end st', st_d := st_d st', st_step := 1\<rparr>"
proof -
  let ?m = "nat (lb_m param)" and ?j = "st_end st"
  have m: "0 < ?m" "?j < ?m" "length (st_lm st) = ?m" "0 < st_k st" using assms(1) by (simp_all add: ring_ok_def)
  let ?it = "(st_lm st ! ?j)\<lparr>it_s := s, it_y := y, it_ys := vecdot y s\<rparr>"
  let ?lm = "(st_lm st)[?j := ?it]" and ?j1 = "(?j + 1) mod ?m" and ?b = "min ?m (st_k st)"
  have b: "(if ?m \<le> st_k st then ?m else st_k st) = ?b" by simp
  have "?j1 < ?m" "length ?lm = ?m" using m by simp_all
  from lm_direction_eq [OF min.cobounded1 m(1) this, of "st_k st" "vecdot y s / vecdot y y" "map uminus (st_g st)"]
  obtain lm' where d: "lm_direction ?m ?j1 ?b (vecdot y s / vecdot y y) ?lm (map uminus (st_g st)) =
      Inr (lm', two_loop (map (\<lambda>i. pair_of (?lm ! slot ?m ?j1 i)) [0..<?b]) (vecdot y s / vecdot y y) (map uminus (st_g st)))"
    "same_pairs ?lm lm'" by blast
  let ?d = "two_loop (map (\<lambda>i. pair_of (?lm ! slot ?m ?j1 i)) [0..<?b]) (vecdot y s / vecdot y y) (map uminus (st_g st))"
  let ?st = "st\<lparr>st_lm := lm', st_k := st_k st + 1, st_end := ?j1, st_d := ?d, st_step := 1\<rparr>"
  have g: "gradient param st = st_g st" using assms(2) by (simp add: gradient_def)
  have "lbfgs_update param xp gp st = Inr (Continue ?st)"
    using m d(1) assms(2) unfolding lbfgs_update_def Let_def b g vecncpy_def s_def [symmetric] y_def [symmetric]
    by simp
  moreover have "ring_ok param ?st" using assms(1) m same_pairs_length [OF d(2)] by (simp add: ring_ok_def)
  moreover have mem: "memory param ?st = map (\<lambda>i. pair_of (?lm ! slot ?m ?j1 i)) [0..<?b]"
    using d(2) m by (subst memory_same_pairs [of ?lm]) (simp_all add: min_def)
  moreover have "memory param ?st = take ?m ((s, y, vecdot y s) # memory param st)"
    using ring_push [OF m, of ?it] unfolding mem by (simp add: memory_def Let_def pair_of_def)
  moreover have "st_d ?st = two_loop (memory param ?st) (vecdot y s / vecdot y y) (map uminus (st_g st))"
    unfolding mem by simp
  ultimately show ?thesis by (intro exI [of _ ?st] conjI) simp_all
qed

text \<open>
  The abstract optimiser: the memory after a sequence of points with their gradients, and the
  direction that the code computes from it.
\<close>

fun differences :: "double list \<times> double list \<Rightarrow> (double list \<times> double list) list \<Rightarrow> pair list" where
  "differences p [] = []"
| "differences (xp, gp) ((x, g) # ps) =
     differences (x, g) ps @ [(vecdiff x xp, vecdiff g gp, vecdot (vecdiff g gp) (vecdiff x xp))]"

definition direction :: "pair list \<Rightarrow> double list \<Rightarrow> double list" where
  "direction mem g =
     (case mem of [] \<Rightarrow> map uminus g | (s, y, ys) # hs \<Rightarrow> two_loop mem (ys / vecdot y y) (map uminus g))"

text \<open>The code's updates when the line searches arrive at these points one after the other.\<close>

fun run_updates :: "lbfgs_parameter_t \<Rightarrow> (double list \<times> double list) list \<Rightarrow> 's lbfgs_state \<Rightarrow> 's lbfgs_state option" where
  "run_updates param [] st = Some st"
| "run_updates param ((x, g) # ps) st =
     (case lbfgs_update param (st_x st) (st_g st) (st\<lparr>st_x := x, st_g := g\<rparr>) of
        Inr (Continue st') \<Rightarrow> run_updates param ps st' | _ \<Rightarrow> None)"

lemma memory_update [simp]: "memory param (st\<lparr>st_x := x, st_g := g\<rparr>) = memory param st"
  by (simp add: memory_def)

lemma ring_ok_update [simp]: "ring_ok param (st\<lparr>st_x := x, st_g := g\<rparr>) = ring_ok param st"
  by (simp add: ring_ok_def)

lemma run_updates_memory:
  assumes "ring_ok param st" "\<not> orthantwise param" "st_d st = direction (memory param st) (st_g st)"
  shows "\<exists>st'. run_updates param ps st = Some st' \<and>
    memory param st' = take (nat (lb_m param)) (differences (st_x st, st_g st) ps @ memory param st) \<and>
    st_d st' = direction (memory param st') (st_g st')"
  using assms
proof (induction ps arbitrary: st)
  case Nil
  have "length (memory param st) \<le> nat (lb_m param)" by (simp add: memory_def Let_def)
  with Nil show ?case by simp
next
  case (Cons p ps)
  obtain x g where p: "p = (x, g)" by (cases p)
  let ?s = "vecdiff x (st_x st)" and ?y = "vecdiff g (st_g st)" and ?m = "nat (lb_m param)"
  let ?st0 = "st\<lparr>st_x := x, st_g := g\<rparr>"
  have "ring_ok param ?st0" using Cons.prems(1) by simp
  from lbfgs_update_memory [OF this Cons.prems(2), of "st_x st" "st_g st"]
  obtain st1 where u: "lbfgs_update param (st_x st) (st_g st) ?st0 = Inr (Continue st1)" and r: "ring_ok param st1"
    and mem: "memory param st1 = take ?m ((?s, ?y, vecdot ?y ?s) # memory param st)"
    and d: "st_d st1 = two_loop (memory param st1) (vecdot ?y ?s / vecdot ?y ?y) (map uminus g)"
    and e: "st1 = ?st0\<lparr>st_lm := st_lm st1, st_k := st_k ?st0 + 1, st_end := st_end st1, st_d := st_d st1, st_step := 1\<rparr>"
    by auto
  have at: "st_x st1 = x" "st_g st1 = g" using arg_cong [OF e, of st_x] arg_cong [OF e, of st_g] by simp_all
  have "0 < ?m" using Cons.prems(1) by (simp add: ring_ok_def)
  then have "st_d st1 = direction (memory param st1) (st_g st1)"
    unfolding d mem direction_def at by (cases ?m) simp_all
  from Cons.IH [OF r Cons.prems(2) this] obtain st' where st': "run_updates param ps st1 = Some st'"
    "memory param st' = take ?m (differences (x, g) ps @ memory param st1)"
    "st_d st' = direction (memory param st') (st_g st')" unfolding at by blast
  moreover have "take ?m (differences (x, g) ps @ memory param st1) =
      take ?m (differences (st_x st, st_g st) (p # ps) @ memory param st)"
    unfolding mem p by (simp add: take_append)
  ultimately show ?case unfolding p using u by simp
qed

lemma ring_ok_start: "0 < lb_m param \<Longrightarrow> ring_ok param (lbfgs_start L param x f g i)"
  by (simp add: ring_ok_def lbfgs_start_def Let_def)

text \<open>
  C14. The ring buffer refines the list of the last \<open>m\<close> pairs, for a positive \<open>m\<close> and without the
  orthant-wise mode (OWL-QN): after the first evaluation and any sequence of accepted points the
  updates of \<open>lbfgs\<close> have succeeded without leaving an array, the memory stands for the last
  \<open>m\<close> pairs of differences of successive points and gradients, newest first, and the new
  direction is the two-loop recursion over that list, started from the negated gradient and scaled
  by the newest pair.
\<close>

theorem lbfgs_memory_refined:
  assumes "0 < lb_m param" "\<not> orthantwise param"
  shows "\<exists>st. run_updates param ps (lbfgs_start L param x f g i) = Some st \<and>
    memory param st = take (nat (lb_m param)) (differences (x, g) ps) \<and>
    st_d st = direction (memory param st) (st_g st)"
proof -
  let ?st = "lbfgs_start L param x f g i"
  have e: "memory param ?st = []" "st_x ?st = x" "st_g ?st = g" "st_d ?st = map uminus g"
    using assms(2) by (simp_all add: memory_def lbfgs_start_def Let_def vecncpy_def)
  then have "st_d ?st = direction (memory param ?st) (st_g ?st)" by (simp add: direction_def)
  from run_updates_memory [OF ring_ok_start [OF assms(1)] assms(2) this, of ps] show ?thesis unfolding e by simp
qed

theorem lbfgs_memory_refined_witness:
  "\<exists>st. run_updates lbfgs_defparam [([Fin 2], [Fin 1])] (lbfgs_start zero_clib lbfgs_defparam [Fin 3] (Fin 5) [Fin 2] ()) = Some st \<and>
    memory lbfgs_defparam st = take (nat (lb_m lbfgs_defparam)) (differences ([Fin 3], [Fin 2]) [([Fin 2], [Fin 1])]) \<and>
    st_d st = direction (memory lbfgs_defparam st) (st_g st)"
  by (rule lbfgs_memory_refined) (simp_all add: lbfgs_defparam_def orthantwise_def)

end
