(* ===== verification/Lbfgs_Search.thy ===== *)
theory Lbfgs_Search
  imports Lbfgs
begin

text \<open>
  The three line searches of \<open>src/lbfgs.c\<close>: what a client of the optimiser promises, how often
  and with which steps a line search evaluates the objective function, and which conditions hold
  at the point that it accepts.
\<close>

subsection \<open>The client's contract\<close>

text \<open>The orthant-wise method adds the norm of the variables to the function.\<close>

definition total_val ::
  "(double list \<Rightarrow> double \<Rightarrow> double list \<Rightarrow> bool) \<Rightarrow> lbfgs_parameter_t \<Rightarrow> double list \<Rightarrow> double \<Rightarrow> double list \<Rightarrow> bool" where
  "total_val fval param x f g \<longleftrightarrow>
     (if orthantwise param
      then \<exists>f0. fval x f0 g \<and> f = f0 + owlqn_x1norm param x * lb_orthantwise_c param
      else fval x f g)"

text \<open>
  The objective function is total on points of \<open>n\<close> coordinates; \<open>fval x f g\<close> says which values
  and gradients it may yield at \<open>x\<close>, and \<open>ok k\<close> is an invariant of the client's instance after
  \<open>k\<close> evaluations. The progress callback keeps the invariant.
\<close>

locale lbfgs_client =
  fixes ev :: "'s lbfgs_evaluate_t"
    and pr :: "'s lbfgs_progress_t option"
    and n :: nat
    and ok :: "nat \<Rightarrow> 's \<Rightarrow> bool"
    and fval :: "double list \<Rightarrow> double \<Rightarrow> double list \<Rightarrow> bool"
  assumes ev_ok: "ok k i \<Longrightarrow> length x = n \<Longrightarrow>
      \<exists>f g j. ev i x stp = Inr (f, g, j) \<and> ok (Suc k) j \<and> length g = n \<and> fval x f g"
    and pr_ok: "pr = Some progress \<Longrightarrow> ok k i \<Longrightarrow>
      \<exists>ret j. progress i x g fx xnorm gnorm stp c ls = Inr (ret, j) \<and> ok k j"
begin

definition searched :: "lbfgs_parameter_t \<Rightarrow> nat \<Rightarrow> 's search \<Rightarrow> bool" where
  "searched param k st \<longleftrightarrow> ok k (ls_instance st) \<and> length (ls_x st) = n \<and> length (ls_g st) = n \<and>
     total_val fval param (ls_x st) (ls_f st) (ls_g st)"

text \<open>
  What a line search leaves that had made \<open>c0\<close> evaluations: after at least one more and at most
  \<open>max_linesearch\<close> in all it has returned their number or a negative code.
\<close>

definition search_post :: "lbfgs_parameter_t \<Rightarrow> nat \<Rightarrow> nat \<Rightarrow> 's searched \<Rightarrow> bool" where
  "search_post param k c0 res \<longleftrightarrow>
     (\<exists>r st c. res = Inr (r, st) \<and> searched param (k + c) st \<and> c0 < c \<and> int c \<le> lb_max_linesearch param \<and>
        (case r of Inl e \<Rightarrow> lbfgs_value e < 0 | Inr c' \<Rightarrow> c' = c))"

lemma search_post_end:
  "searched param (k + Suc c0) st \<Longrightarrow> int c0 < lb_max_linesearch param \<Longrightarrow>
   (case r of Inl e \<Rightarrow> lbfgs_value e < 0 | Inr c' \<Rightarrow> c' = Suc c0) \<Longrightarrow> search_post param k c0 (Inr (r, st))"
  unfolding search_post_def by (intro exI [of _ r] exI [of _ st] exI [of _ "Suc c0"]) auto

lemma search_post_Suc: "search_post param k (Suc c0) res \<Longrightarrow> search_post param k c0 res"
  by (fastforce simp: search_post_def)

lemma ls_evaluate_ok:
  assumes "ok k (ls_instance st)" "length x = n"
  obtains st' where "ls_evaluate ev x st = Inr st'" "ok (Suc k) (ls_instance st')" "ls_x st' = x" "length (ls_g st') = n"
    "fval x (ls_f st') (ls_g st')" "ls_stp st' = ls_stp st"
  using ev_ok [OF assms, of "ls_stp st"] by (auto simp: ls_evaluate_def)

lemma step_error_value: "step_error param stp c = Some e \<Longrightarrow> lbfgs_value e < 0"
  by (auto simp: step_error_def split: if_splits)

lemma backtracking_loop_ok:
  assumes "length xp = n" "length s = n" "\<not> orthantwise param" "ok (k + count) (ls_instance st)"
    "int count < lb_max_linesearch param"
  shows "search_post param k count (backtracking_loop param ev xp s finit dginit dgtest count st)"
  using assms(4,5)
proof (induction "nat (lb_max_linesearch param - int count)" arbitrary: count st rule: less_induct)
  case less
  obtain st' where e: "ls_evaluate ev (vecadd xp s (ls_stp st)) st = Inr st'" "ok (k + Suc count) (ls_instance st')"
    "ls_x st' = vecadd xp s (ls_stp st)" "length (ls_g st') = n" "fval (ls_x st') (ls_f st') (ls_g st')"
    using ls_evaluate_ok [OF less.prems(1), of "vecadd xp s (ls_stp st)"] assms by auto
  then have sr: "searched param (k + Suc count) st'" using assms by (simp add: searched_def total_val_def)
  show ?case
  proof (cases "backtracking_width param s finit dginit dgtest st'")
    case None
    then show ?thesis using e(1) sr less.prems
      by (subst backtracking_loop.simps) (auto intro!: search_post_end)
  next
    case (Some w)
    show ?thesis
    proof (cases "step_error param (ls_stp st') (Suc count)")
      case None
      from step_error_count [OF this] have c: "int (Suc count) < lb_max_linesearch param" .
      have "search_post param k (Suc count)
          (backtracking_loop param ev xp s finit dginit dgtest (Suc count) (st'\<lparr>ls_stp := ls_stp st' * w\<rparr>))"
        using less.prems c e(2) by (intro less.hyps) auto
      from search_post_Suc [OF this] show ?thesis using e(1) Some None
        by (subst backtracking_loop.simps) simp
    next
      case (Some err)
      then show ?thesis using e(1) sr less.prems \<open>backtracking_width _ _ _ _ _ _ = _\<close>
        by (subst backtracking_loop.simps) (auto intro!: search_post_end dest: step_error_value)
    qed
  qed
qed

lemma line_search_backtracking_ok:
  assumes "length xp = n" "length s = n" "\<not> orthantwise param" "searched param k st" "0 < lb_max_linesearch param"
    "line_search_backtracking param ev xp s st = res"
  shows "(\<exists>e. res = Inr (Inl e, st) \<and> lbfgs_value e < 0) \<or> search_post param k 0 res"
  using assms(4,5) backtracking_loop_ok [OF assms(1-3), of k 0 st] unfolding assms(6) [symmetric]
  by (auto simp: line_search_backtracking_def Let_def searched_def)

lemma length_owlqn_project [simp]: "length (owlqn_project param d wp) = min (length d) (length wp)"
  by (simp add: owlqn_project_def)

lemma owlqn_loop_ok:
  assumes "length xp = n" "length s = n" "length wp = n" "orthantwise param" "ok (k + count) (ls_instance st)"
    "int count < lb_max_linesearch param"
  shows "search_post param k count (owlqn_loop param ev xp gp wp s finit count st)"
  using assms(5,6)
proof (induction "nat (lb_max_linesearch param - int count)" arbitrary: count st rule: less_induct)
  case less
  let ?x = "owlqn_project param (vecadd xp s (ls_stp st)) wp"
  obtain st0 where e: "ls_evaluate ev ?x st = Inr st0" "ok (k + Suc count) (ls_instance st0)"
    "ls_x st0 = ?x" "length (ls_g st0) = n" "fval (ls_x st0) (ls_f st0) (ls_g st0)"
    using ls_evaluate_ok [OF less.prems(1), of ?x] assms by auto
  define st' where "st' = st0\<lparr>ls_f := ls_f st0 + owlqn_x1norm param (ls_x st0) * lb_orthantwise_c param\<rparr>"
  have sr: "searched param (k + Suc count) st'" using e assms by (auto simp: searched_def total_val_def st'_def)
  let ?t = "foldl (\<lambda>t (x, xp, gp). t + (x - xp) * gp) 0 (zip (ls_x st') (zip xp gp))"
  have step: "owlqn_loop param ev xp gp wp s finit count st =
      (if ls_f st' \<le> finit + lb_ftol param * ?t then Inr (Inr (Suc count), st')
       else case step_error param (ls_stp st') (Suc count) of
         Some e \<Rightarrow> Inr (Inl e, st')
       | None \<Rightarrow> owlqn_loop param ev xp gp wp s finit (Suc count) (st'\<lparr>ls_stp := ls_stp st' * lit 0.5\<rparr>))"
    by (subst owlqn_loop.simps) (simp only: e(1) plfit_check_simps Let_def st'_def)
  show ?case
  proof (cases "step_error param (ls_stp st') (Suc count)")
    case None
    from step_error_count [OF this] have c: "int (Suc count) < lb_max_linesearch param" .
    have "search_post param k (Suc count)
        (owlqn_loop param ev xp gp wp s finit (Suc count) (st'\<lparr>ls_stp := ls_stp st' * lit 0.5\<rparr>))"
      using less.prems c sr by (intro less.hyps) (auto simp: searched_def)
    from search_post_Suc [OF this] sr less.prems show ?thesis
      unfolding step None by (auto intro!: search_post_end)
  next
    case (Some err)
    with sr less.prems show ?thesis
      unfolding step by (auto intro!: search_post_end dest: step_error_value)
  qed
qed

lemma line_search_owlqn_ok:
  assumes "length xp = n" "length gp = n" "length s = n" "orthantwise param" "searched param k st"
    "0 < lb_max_linesearch param" "line_search_backtracking_owlqn param ev xp gp s st = res"
  shows "(\<exists>e. res = Inr (Inl e, st) \<and> lbfgs_value e < 0) \<or> search_post param k 0 res"
  using assms(1,2,5,6) owlqn_loop_ok [OF assms(1,3) _ assms(4), of _ k 0 st] unfolding assms(7) [symmetric]
  by (auto simp: line_search_backtracking_owlqn_def Let_def searched_def)

lemma morethuente_loop_ok:
  assumes "length xp = n" "length s = n" "\<not> orthantwise param" "ok (k + count) (ls_instance st)"
    "int count < lb_max_linesearch param"
  shows "search_post param k count (morethuente_loop L param ev xp s finit dginit dgtest count v st)"
  using assms(4,5)
proof (induction "nat (lb_max_linesearch param - int count)" arbitrary: count v st rule: less_induct)
  case less
  obtain stmin stmax where b: "mt_bounds v (ls_stp st) = (stmin, stmax)" by (cases "mt_bounds v (ls_stp st)")
  let ?stp = "mt_step param count v stmin stmax (ls_stp st)"
  obtain st' where e: "ls_evaluate ev (vecadd xp s ?stp) (st\<lparr>ls_stp := ?stp\<rparr>) = Inr st'" "ok (k + Suc count) (ls_instance st')"
    "ls_x st' = vecadd xp s ?stp" "length (ls_g st') = n" "fval (ls_x st') (ls_f st') (ls_g st')"
    using ls_evaluate_ok [of "k + count" "st\<lparr>ls_stp := ?stp\<rparr>" "vecadd xp s ?stp"] less.prems(1) assms by auto
  then have sr: "searched param (k + Suc count) st'" using assms by (simp add: searched_def total_val_def)
  let ?dg = "vecdot (ls_g st') s" and ?ftest = "finit + ?stp * dgtest"
  show ?case
  proof (cases "mt_test param v stmin stmax ?stp (ls_f st') ?dg ?ftest dginit dgtest (Suc count)")
    case None
    from mt_test_count [OF this] have c: "int (Suc count) < lb_max_linesearch param" .
    have "search_post param k (Suc count)
        (morethuente_loop L param ev xp s finit dginit dgtest (Suc count) v' (st'\<lparr>ls_stp := stp'\<rparr>))" for v' stp'
      using less.prems c e(2) by (intro less.hyps) auto
    from search_post_Suc [OF this] show ?thesis using e(1) b None
      by (subst morethuente_loop.simps) (simp add: Let_def split: prod.split)
  next
    case (Some r)
    have "case r of Inl e \<Rightarrow> lbfgs_value e < 0 | Inr c' \<Rightarrow> c' = Suc count"
      using Some by (auto simp: mt_test_def split: if_splits)
    then show ?thesis using e(1) b sr less.prems Some
      by (subst morethuente_loop.simps) (auto simp: Let_def intro!: search_post_end)
  qed
qed

lemma line_search_morethuente_ok:
  assumes "length xp = n" "length s = n" "\<not> orthantwise param" "searched param k st" "0 < lb_max_linesearch param"
    "line_search_morethuente L param ev xp s st = res"
  shows "(\<exists>e. res = Inr (Inl e, st) \<and> lbfgs_value e < 0) \<or> search_post param k 0 res"
  using assms(4,5) morethuente_loop_ok [OF assms(1-3), of k 0 st] unfolding assms(6) [symmetric]
  by (auto simp: line_search_morethuente_def Let_def searched_def)

lemma lbfgs_linesearch_ok:
  assumes "length xp = n" "length gp = n" "length s = n" "searched param k st" "0 < lb_max_linesearch param"
  shows "(\<exists>e. lbfgs_linesearch L param ev xp gp s st = Inr (Inl e, st) \<and> lbfgs_value e < 0) \<or>
    search_post param k 0 (lbfgs_linesearch L param ev xp gp s st)"
  using line_search_backtracking_ok [OF assms(1,3) _ assms(4,5) refl]
    line_search_owlqn_ok [OF assms(1-3) _ assms(4,5) refl] line_search_morethuente_ok [OF assms(1,3) _ assms(4,5) refl]
  by (auto simp: lbfgs_linesearch_def)

end

subsection \<open>The conditions at the accepted point\<close>

text \<open>
  What a successful line search establishes: the point is \<open>x\<close>'s predecessor plus the step times
  the direction (projected in the orthant-wise method) with the function's value and gradient
  there, and the conditions of the chosen method hold.
\<close>

definition evaluated_at :: "'s lbfgs_evaluate_t \<Rightarrow> double list \<Rightarrow> double \<Rightarrow> 's search \<Rightarrow> bool" where
  "evaluated_at ev x extra st \<longleftrightarrow> ls_x st = x \<and>
     (\<exists>i f. ev i x (ls_stp st) = Inr (f, ls_g st, ls_instance st) \<and> ls_f st = f + extra)"

definition evaluated :: "'s lbfgs_evaluate_t \<Rightarrow> double list \<Rightarrow> 's search \<Rightarrow> bool" where
  "evaluated ev x st \<longleftrightarrow> ls_x st = x \<and> (\<exists>i. ev i x (ls_stp st) = Inr (ls_f st, ls_g st, ls_instance st))"

lemma ls_evaluate_evaluated: "ls_evaluate ev x st = Inr st' \<Longrightarrow> evaluated ev x st' \<and> ls_stp st' = ls_stp st"
  by (auto simp: ls_evaluate_def evaluated_def plfit_check_eq_Inr)

lemma backtracking_loop_accepts:
  assumes "backtracking_loop param ev xp s finit dginit dgtest count st = Inr (Inr c, st')"
  shows "evaluated ev (vecadd xp s (ls_stp st')) st' \<and> backtracking_width param s finit dginit dgtest st' = None"
  using assms
proof (induction "nat (lb_max_linesearch param - int count)" arbitrary: count st rule: less_induct)
  case less
  from less.prems obtain st1 where e: "ls_evaluate ev (vecadd xp s (ls_stp st)) st = Inr st1"
    by (subst (asm) backtracking_loop.simps) (auto simp: plfit_check_eq_Inr)
  note st1 = ls_evaluate_evaluated [OF e]
  show ?case
  proof (cases "backtracking_width param s finit dginit dgtest st1")
    case None
    with less.prems e st1 show ?thesis by (subst (asm) backtracking_loop.simps) auto
  next
    case (Some w)
    with less.prems e have n: "step_error param (ls_stp st1) (Suc count) = None"
      and l: "backtracking_loop param ev xp s finit dginit dgtest (Suc count) (st1\<lparr>ls_stp := ls_stp st1 * w\<rparr>) = Inr (Inr c, st')"
      by (subst (asm) backtracking_loop.simps, auto split: option.splits)+
    show ?thesis using step_error_count [OF n] by (intro less.hyps [OF _ l]) auto
  qed
qed

lemma morethuente_loop_accepts:
  assumes "morethuente_loop L param ev xp s finit dginit dgtest count v st = Inr (Inr c, st')"
  shows "evaluated ev (vecadd xp s (ls_stp st')) st' \<and> ls_f st' \<le> finit + ls_stp st' * dgtest \<and>
    \<bar>vecdot (ls_g st') s\<bar> \<le> lb_gtol param * - dginit"
  using assms
proof (induction "nat (lb_max_linesearch param - int count)" arbitrary: count v st rule: less_induct)
  case less
  obtain stmin stmax where b: "mt_bounds v (ls_stp st) = (stmin, stmax)" by (cases "mt_bounds v (ls_stp st)")
  let ?stp = "mt_step param count v stmin stmax (ls_stp st)"
  from less.prems b obtain st1 where e: "ls_evaluate ev (vecadd xp s ?stp) (st\<lparr>ls_stp := ?stp\<rparr>) = Inr st1"
    by (subst (asm) morethuente_loop.simps) (auto simp: Let_def plfit_check_eq_Inr)
  from ls_evaluate_evaluated [OF e] have st1: "evaluated ev (vecadd xp s (ls_stp st1)) st1" "ls_stp st1 = ?stp" by simp_all
  let ?dg = "vecdot (ls_g st1) s" and ?ftest = "finit + ?stp * dgtest"
  let ?t = "mt_test param v stmin stmax ?stp (ls_f st1) ?dg ?ftest dginit dgtest (Suc count)"
  show ?case
  proof (cases ?t)
    case None
    with less.prems e b obtain v' stp' where
      l: "morethuente_loop L param ev xp s finit dginit dgtest (Suc count) v' (st1\<lparr>ls_stp := stp'\<rparr>) = Inr (Inr c, st')"
      by (subst (asm) morethuente_loop.simps) (auto simp: Let_def split: prod.splits)
    show ?thesis using mt_test_count [OF None] by (intro less.hyps [OF _ l]) auto
  next
    case (Some r)
    with less.prems e b have "r = Inr c" "st' = st1"
      by (subst (asm) morethuente_loop.simps, simp add: Let_def)+
    with Some st1 show ?thesis by (auto simp: mt_test_def split: if_splits)
  qed
qed

lemma owlqn_loop_accepts:
  assumes "owlqn_loop param ev xp gp wp s finit count st = Inr (Inr c, st')"
  shows "evaluated_at ev (owlqn_project param (vecadd xp s (ls_stp st')) wp)
      (owlqn_x1norm param (ls_x st') * lb_orthantwise_c param) st' \<and>
    ls_f st' \<le> finit + lb_ftol param * foldl (\<lambda>t (x, xp, gp). t + (x - xp) * gp) 0 (zip (ls_x st') (zip xp gp))"
  using assms
proof (induction "nat (lb_max_linesearch param - int count)" arbitrary: count st rule: less_induct)
  case less
  let ?x = "owlqn_project param (vecadd xp s (ls_stp st)) wp"
  from less.prems obtain st0 where e: "ls_evaluate ev ?x st = Inr st0"
    by (subst (asm) owlqn_loop.simps) (auto simp: plfit_check_eq_Inr)
  define st1 where "st1 = st0\<lparr>ls_f := ls_f st0 + owlqn_x1norm param (ls_x st0) * lb_orthantwise_c param\<rparr>"
  from ls_evaluate_evaluated [OF e] have st1: "evaluated_at ev ?x (owlqn_x1norm param (ls_x st1) * lb_orthantwise_c param) st1"
    "ls_stp st1 = ls_stp st" unfolding st1_def evaluated_def evaluated_at_def by fastforce+
  let ?t = "foldl (\<lambda>t (x, xp, gp). t + (x - xp) * gp) 0 (zip (ls_x st1) (zip xp gp))"
  have step: "owlqn_loop param ev xp gp wp s finit count st =
      (if ls_f st1 \<le> finit + lb_ftol param * ?t then Inr (Inr (Suc count), st1)
       else case step_error param (ls_stp st1) (Suc count) of
         Some e \<Rightarrow> Inr (Inl e, st1)
       | None \<Rightarrow> owlqn_loop param ev xp gp wp s finit (Suc count) (st1\<lparr>ls_stp := ls_stp st1 * lit 0.5\<rparr>))"
    by (subst owlqn_loop.simps) (simp only: e plfit_check_simps Let_def st1_def)
  show ?case
  proof (cases "ls_f st1 \<le> finit + lb_ftol param * ?t")
    case True
    with less.prems step have "st' = st1" by simp
    with True st1 show ?thesis by simp
  next
    case False
    with less.prems step have n: "step_error param (ls_stp st1) (Suc count) = None"
      and l: "owlqn_loop param ev xp gp wp s finit (Suc count) (st1\<lparr>ls_stp := ls_stp st1 * lit 0.5\<rparr>) = Inr (Inr c, st')"
      by (auto split: option.splits)
    show ?thesis using step_error_count [OF n] by (intro less.hyps [OF _ l]) auto
  qed
qed

text \<open>
  C17. A line search only succeeds at a point that satisfies the conditions of its method: the
  point lies at the returned step from the start, value and gradient are those of the objective
  function there, and More and Thuente's search has reached a sufficient decrease and the strong
  curvature condition; the backtracking searches the conditions of Armijo, Wolfe or the strong
  Wolfe conditions, unless a comparison with NaN made a test fail; the orthant-wise one a
  sufficient decrease along the projected step.
\<close>

theorem lbfgs_linesearch_accepts:
  assumes "lbfgs_linesearch L param ev xp gp s st = Inr (Inr c, st')"
  shows "let dginit = vecdot (ls_g st) s; dg = vecdot (ls_g st') s; stp = ls_stp st' in
    if orthantwise param then
      evaluated_at ev (owlqn_project param (vecadd xp s stp) (map2 (\<lambda>x g. if deq x 0 then - g else x) xp gp))
        (owlqn_x1norm param (ls_x st') * lb_orthantwise_c param) st' \<and>
      ls_f st' \<le> ls_f st + lb_ftol param * foldl (\<lambda>t (x, xp, gp). t + (x - xp) * gp) 0 (zip (ls_x st') (zip xp gp))
    else evaluated ev (vecadd xp s stp) st' \<and> \<not> 0 < dginit \<and>
      (if lb_linesearch param = LBFGS_LINESEARCH_MORETHUENTE then
         ls_f st' \<le> ls_f st + stp * (lb_ftol param * dginit) \<and> \<bar>dg\<bar> \<le> lb_gtol param * - dginit
       else \<not> ls_f st + stp * (lb_ftol param * dginit) < ls_f st' \<and>
         (if lb_linesearch param = LBFGS_LINESEARCH_BACKTRACKING_ARMIJO then True
          else if lb_linesearch param = LBFGS_LINESEARCH_BACKTRACKING_WOLFE then \<not> dg < lb_wolfe param * dginit
          else \<not> dg < lb_wolfe param * dginit \<and> \<not> - lb_wolfe param * dginit < dg))"
proof (cases "orthantwise param")
  case True
  with assms owlqn_loop_accepts [of param ev xp gp _ s "ls_f st" 0 st c st'] show ?thesis
    by (auto simp: lbfgs_linesearch_def line_search_backtracking_owlqn_def Let_def split: if_splits)
next
  case False
  show ?thesis
  proof (cases "lb_linesearch param = LBFGS_LINESEARCH_MORETHUENTE")
    case True
    with False assms show ?thesis
      by (auto simp: lbfgs_linesearch_def line_search_morethuente_def Let_def split: if_splits
          dest!: morethuente_loop_accepts)
  next
    case mt: False
    with False assms have "\<not> 0 < vecdot (ls_g st) s"
      and l: "backtracking_loop param ev xp s (ls_f st) (vecdot (ls_g st) s) (lb_ftol param * vecdot (ls_g st) s) 0 st =
        Inr (Inr c, st')"
      by (auto simp: lbfgs_linesearch_def line_search_backtracking_def Let_def split: if_splits)
    with backtracking_loop_accepts [OF l] False mt show ?thesis
      by (auto simp: backtracking_width_def Let_def split: if_splits)
  qed
qed

definition parabola :: "unit lbfgs_evaluate_t" where
  \<comment> \<open>a concrete objective function\<close>
  "parabola i x stp = Inr (hd x * hd x, [lit 2 * hd x], i)"

definition armijo_param :: lbfgs_parameter_t where
  "armijo_param = lbfgs_defparam\<lparr>lb_linesearch := LBFGS_LINESEARCH_BACKTRACKING_ARMIJO\<rparr>"

theorem lbfgs_linesearch_accepts_witness:
  "evaluated parabola (vecadd [1] [- 1] 1) \<lparr>ls_x = [0], ls_f = 0, ls_g = [0], ls_stp = 1, ls_instance = ()\<rparr>"
proof -
  have r: "lbfgs_linesearch zero_clib armijo_param parabola [1] [lit 2] [- 1]
      \<lparr>ls_x = [1], ls_f = 1, ls_g = [lit 2], ls_stp = 1, ls_instance = ()\<rparr> =
    Inr (Inr 1, \<lparr>ls_x = [0], ls_f = 0, ls_g = [0], ls_stp = 1, ls_instance = ()\<rparr>)"
    unfolding lbfgs_linesearch_def by (subst if_not_P, code_simp)+ code_simp
  have "\<not> orthantwise armijo_param" by code_simp
  with lbfgs_linesearch_accepts [OF r] show ?thesis by (simp add: Let_def)
qed

subsection \<open>The steps of More and Thuente's search\<close>

text \<open>The steps that may be tried: zero, and those that do not violate \<open>min_step\<close> and \<open>max_step\<close>.\<close>

definition admissible :: "lbfgs_parameter_t \<Rightarrow> double \<Rightarrow> bool" where
  "admissible param stp \<longleftrightarrow> stp = 0 \<or> \<not> stp < lb_min_step param \<and> \<not> lb_max_step param < stp"

definition guarded :: "(double \<Rightarrow> bool) \<Rightarrow> 's lbfgs_evaluate_t \<Rightarrow> 's lbfgs_evaluate_t" where
  \<comment> \<open>an objective function that may not be called with other steps\<close>
  "guarded P ev i x stp = (if P stp then ev i x stp else Inl Undefined)"

lemma ls_evaluate_guarded: "P (ls_stp st) \<Longrightarrow> ls_evaluate (guarded P ev) x st = ls_evaluate ev x st"
  by (simp add: ls_evaluate_def guarded_def)

lemma mt_step_admissible:
  assumes "\<not> lb_max_step param < lb_min_step param" "admissible param (mt_stx v)"
  shows "admissible param (mt_step param count v stmin stmax stp)"
  using assms by (auto simp: mt_step_def admissible_def Let_def)

lemma update_trial_interval_x:
  "update_trial_interval L tmin tmax v = (u, w) \<Longrightarrow> t_x w = t_x v \<or> t_x w = t_t v"
  by (auto simp: update_trial_interval_def update_interval_def Let_def split: if_splits prod.splits)

lemma mt_update_x:
  "mt_stx (fst (mt_shrink (mt_update L v stmin stmax stp f dg ftest1 dgtest))) \<in> {mt_stx v, stp}"
  using update_trial_interval_x [of L stmin stmax]
  by (auto simp: mt_shrink_def mt_update_def mt_of_trial_def split: prod.splits if_splits) (smt (verit) trial.select_convs)+

lemma morethuente_loop_guarded:
  assumes "\<not> lb_max_step param < lb_min_step param" "admissible param (mt_stx v)"
  shows "morethuente_loop L param (guarded (admissible param) ev) xp s finit dginit dgtest count v st =
    morethuente_loop L param ev xp s finit dginit dgtest count v st"
  using assms(2)
proof (induction "nat (lb_max_linesearch param - int count)" arbitrary: count v st rule: less_induct)
  case less
  obtain stmin stmax where b: "mt_bounds v (ls_stp st) = (stmin, stmax)" by (cases "mt_bounds v (ls_stp st)")
  let ?stp = "mt_step param count v stmin stmax (ls_stp st)"
  have a: "admissible param ?stp" using mt_step_admissible [OF assms(1) less.prems] .
  let ?v = "\<lambda>st' dg ftest1. v\<lparr>mt_stage1 := (mt_stage1 v \<and>
        \<not> (ls_f st' \<le> ftest1 \<and> min2 (lb_ftol param) (lb_gtol param) * dginit \<le> dg))\<rparr>"
  have n: "morethuente_loop L param (guarded (admissible param) ev) xp s finit dginit dgtest (Suc count) v' st2 =
      morethuente_loop L param ev xp s finit dginit dgtest (Suc count) v' st2"
    if "mt_test param v stmin stmax ?stp (ls_f st') dg ftest1 dginit dgtest (Suc count) = None"
      "mt_shrink (mt_update L (?v st' dg ftest1) stmin stmax ?stp (ls_f st') dg ftest1 dgtest) = (v', stp')"
    for st' dg ftest1 v' stp' st2
  proof -
    have "mt_stx v' \<in> {mt_stx v, ?stp}"
      using mt_update_x [of L "?v st' dg ftest1" stmin stmax ?stp "ls_f st'" dg ftest1 dgtest] that(2) by auto
    then have "admissible param (mt_stx v')" using a less.prems by auto
    then show ?thesis using mt_test_count [OF that(1)] by (intro less.hyps) auto
  qed
  have e: "ls_evaluate (guarded (admissible param) ev) (vecadd xp s ?stp) (st\<lparr>ls_stp := ?stp\<rparr>) =
      ls_evaluate ev (vecadd xp s ?stp) (st\<lparr>ls_stp := ?stp\<rparr>)" using a by (intro ls_evaluate_guarded) simp
  show ?case
    apply (subst (1 2) morethuente_loop.simps)
    unfolding b Let_def prod.case e
    by (rule plfit_check_cong) (auto simp: n split: option.split prod.split)
qed

text \<open>
  C18. More and Thuente's search evaluates the objective function only at the start (step 0) and
  with steps that violate neither \<open>min_step\<close> nor \<open>max_step\<close>: an objective function that cannot
  be evaluated with any other step gives the same search, whatever the interpolation computes.
\<close>

theorem line_search_morethuente_steps:
  assumes "\<not> lb_max_step param < lb_min_step param"
  shows "line_search_morethuente L param
      (\<lambda>i x stp. if stp = 0 \<or> \<not> stp < lb_min_step param \<and> \<not> lb_max_step param < stp then ev i x stp else Inl Undefined)
      xp s st = line_search_morethuente L param ev xp s st"
proof -
  have g: "(\<lambda>i x stp. if stp = 0 \<or> \<not> stp < lb_min_step param \<and> \<not> lb_max_step param < stp then ev i x stp else Inl Undefined) =
      guarded (admissible param) ev" by (simp add: guarded_def admissible_def fun_eq_iff)
  show ?thesis unfolding g line_search_morethuente_def
    by (simp add: morethuente_loop_guarded [OF assms] admissible_def Let_def)
qed

theorem line_search_morethuente_steps_witness:
  "line_search_morethuente zero_clib lbfgs_defparam
      (\<lambda>i x stp. if stp = 0 \<or> \<not> stp < lb_min_step lbfgs_defparam \<and> \<not> lb_max_step lbfgs_defparam < stp
        then parabola i x stp else Inl Undefined)
      [1] [- 1] \<lparr>ls_x = [1], ls_f = 1, ls_g = [lit 2], ls_stp = 1, ls_instance = ()\<rparr> =
    line_search_morethuente zero_clib lbfgs_defparam parabola
      [1] [- 1] \<lparr>ls_x = [1], ls_f = 1, ls_g = [lit 2], ls_stp = 1, ls_instance = ()\<rparr>"
  by (rule line_search_morethuente_steps) code_simp

end
