(* ===== verification/Lbfgs_P.thy ===== *)
theory Lbfgs_P
  imports Lbfgs_Search Lbfgs_Memory
begin

text \<open>
  The main loop of \<open>lbfgs\<close> for any client that keeps the contract: it stays inside its arrays,
  ends when a limit on the iterations is given, and reports convergence only where the
  criterion holds.
\<close>

definition criterion :: "clib \<Rightarrow> lbfgs_parameter_t \<Rightarrow> double list \<Rightarrow> double list \<Rightarrow> bool" where
  \<comment> \<open>the documented test: the norm of the gradient against that of the variables\<close>
  "criterion L param x g \<longleftrightarrow>
     vec2norm L (if orthantwise param then owlqn_pseudo_gradient param x g else g) /
       (if vec2norm L x < 1 then 1 else vec2norm L x) \<le> lb_epsilon param"

lemma length_two_loop:
  "(\<forall>(s, y, ys) \<in> set hs. length s = length d \<and> length y = length d) \<Longrightarrow> length (two_loop hs scale d) = length d"
proof (induction hs scale d rule: two_loop.induct)
  case (2 s y ys hs scale d)
  have "length (vecadd d y (- (vecdot s d / ys))) = length d" using 2(2) by simp
  with 2 show ?case by (auto simp: Let_def)
qed simp

context lbfgs_client begin

definition pairs_ok :: "iteration_data_t list \<Rightarrow> bool" where
  "pairs_ok lm \<longleftrightarrow> (\<forall>it \<in> set lm. length (it_s it) = n \<and> length (it_y it) = n)"

lemma pairs_ok_same:
  assumes "same_pairs lm lm'" "pairs_ok lm"
  shows "pairs_ok lm'"
proof -
  have "pair_of ` set lm = pair_of ` set lm'" using assms(1) by (metis same_pairs_def set_map)
  moreover have "pairs_ok l \<longleftrightarrow> (\<forall>(s, y, ys) \<in> pair_of ` set l. length s = n \<and> length y = n)" for l
    by (auto simp: pairs_ok_def pair_of_def)
  ultimately show ?thesis using assms(2) by metis
qed

definition pf_ok :: "lbfgs_parameter_t \<Rightarrow> double list option \<Rightarrow> bool" where
  "pf_ok param pf \<longleftrightarrow> (case pf of None \<Rightarrow> True | Some a \<Rightarrow> 0 < lb_past param \<and> length a = nat (lb_past param))"

definition state_ok :: "lbfgs_parameter_t \<Rightarrow> nat \<Rightarrow> 's lbfgs_state \<Rightarrow> bool" where
  "state_ok param k st \<longleftrightarrow>
     ok k (st_instance st) \<and> ring_ok param st \<and> pairs_ok (st_lm st) \<and> pf_ok param (st_pf st) \<and>
     length (st_x st) = n \<and> length (st_g st) = n \<and> length (st_d st) = n \<and>
     total_val fval param (st_x st) (st_fx st) (st_g st) \<and>
     (orthantwise param \<longrightarrow> st_pg st = owlqn_pseudo_gradient param (st_x st) (st_g st))"

lemma state_ok_criterion: "state_ok param k st \<Longrightarrow> converged L param st = criterion L param (st_x st) (st_g st)"
  by (simp add: state_ok_def converged_def criterion_def gradient_def Let_def)

lemma length_pseudo_gradient [simp]: "length (owlqn_pseudo_gradient param x g) = min (length x) (length g)"
  by (simp add: owlqn_pseudo_gradient_def Let_def)

lemma length_gradient: "state_ok param k st \<Longrightarrow> length (gradient param st) = n"
  by (simp add: state_ok_def gradient_def)

text \<open>The update keeps the state in order; the direction has the right length again.\<close>

lemma lbfgs_update_ok:
  assumes "state_ok param k st" "length xp = n" "length gp = n"
  shows "\<exists>st'. lbfgs_update param xp gp st = Inr (Continue st') \<and> state_ok param k st' \<and> st_k st' = Suc (st_k st)"
proof -
  let ?m = "nat (lb_m param)" and ?j = "st_end st" and ?s = "vecdiff (st_x st) xp" and ?y = "vecdiff (st_g st) gp"
  have m: "0 < ?m" "?j < ?m" "length (st_lm st) = ?m" using assms(1) by (simp_all add: state_ok_def ring_ok_def)
  have st: "length (st_x st) = n" "length (st_g st) = n" "pairs_ok (st_lm st)" using assms(1) by (simp_all add: state_ok_def)
  let ?it = "(st_lm st ! ?j)\<lparr>it_s := ?s, it_y := ?y, it_ys := vecdot ?y ?s\<rparr>"
  let ?lm = "(st_lm st)[?j := ?it]" and ?j1 = "(?j + 1) mod ?m" and ?b = "min ?m (st_k st)"
  let ?d0 = "map uminus (gradient param st)" and ?c = "vecdot ?y ?s / vecdot ?y ?y"
  have b: "(if ?m \<le> st_k st then ?m else st_k st) = ?b" by simp
  have lm: "?j1 < ?m" "length ?lm = ?m" using m by simp_all
  from lm_direction_eq [OF min.cobounded1 m(1) lm, of "st_k st" ?c ?d0]
  obtain lm' where d: "lm_direction ?m ?j1 ?b ?c ?lm ?d0 =
      Inr (lm', two_loop (map (\<lambda>i. pair_of (?lm ! slot ?m ?j1 i)) [0..<?b]) ?c ?d0)" "same_pairs ?lm lm'" by blast
  let ?d = "two_loop (map (\<lambda>i. pair_of (?lm ! slot ?m ?j1 i)) [0..<?b]) ?c ?d0"
  have p: "pairs_ok ?lm" using st assms(2,3) unfolding pairs_ok_def
    by (auto dest!: set_update_subset_insert [THEN subsetD])
  have "length (it_s (?lm ! slot ?m ?j1 i)) = n \<and> length (it_y (?lm ! slot ?m ?j1 i)) = n" for i
    using p nth_mem [of "slot ?m ?j1 i" ?lm] m(1) lm(2) unfolding pairs_ok_def by simp
  then have len: "length ?d = n"
    using length_gradient [OF assms(1)] by (subst length_two_loop) (auto simp: pair_of_def)
  let ?d' = "if orthantwise param
      then map (\<lambda>(i, a, b). if in_orthant param i \<and> 0 \<le> a * b then 0 else a) (enumerate 0 (zip ?d (st_pg st))) else ?d"
  let ?st = "st\<lparr>st_lm := lm', st_k := st_k st + 1, st_end := ?j1, st_d := ?d', st_step := 1\<rparr>"
  have "lbfgs_update param xp gp st = Inr (Continue ?st)"
    using m d(1) unfolding lbfgs_update_def Let_def b vecncpy_def by simp
  moreover have "length ?d' = n" using len assms(1) by (simp add: state_ok_def)
  then have "state_ok param k ?st"
    using assms(1) m same_pairs_length [OF d(2)] pairs_ok_same [OF d(2) p] by (simp add: state_ok_def ring_ok_def)
  ultimately show ?thesis by auto
qed

text \<open>How an iteration ends: with a valid state, or with a returned value.\<close>

definition exit_ok :: "clib \<Rightarrow> lbfgs_parameter_t \<Rightarrow> nat \<Rightarrow> int \<Rightarrow> 's lbfgs_state \<Rightarrow> bool" where
  "exit_ok L param k ret st \<longleftrightarrow> ok k (st_instance st) \<and> length (st_x st) = n \<and>
     (ret = lbfgs_value LBFGS_ALREADY_MINIMIZED \<longrightarrow> pr \<noteq> None) \<and>
     (ret = 0 \<longrightarrow> (\<exists>g. total_val fval param (st_x st) (st_fx st) g \<and> criterion L param (st_x st) g))"

lemma state_ok_exit: "state_ok param k st \<Longrightarrow> ret \<noteq> 0 \<Longrightarrow> ret \<noteq> 2 \<or> pr \<noteq> None \<Longrightarrow> exit_ok L param k ret st"
  by (simp add: exit_ok_def state_ok_def)

definition outcome_ok :: "clib \<Rightarrow> lbfgs_parameter_t \<Rightarrow> nat \<Rightarrow> nat \<Rightarrow> 's lbfgs_outcome \<Rightarrow> bool" where
  "outcome_ok L param k count r \<longleftrightarrow>
     (case r of Exit ret st \<Rightarrow> exit_ok L param k ret st
      | Continue st \<Rightarrow> state_ok param k st \<and> st_k st = Suc count \<and>
          (lb_max_iterations param = 0 \<or> int (st_k st) \<le> lb_max_iterations param))"

lemma lbfgs_tests_ok:
  assumes "state_ok param k st" "length xp = n" "length gp = n"
  shows "\<exists>r. lbfgs_tests L param xp gp st = Inr r \<and> outcome_ok L param k (st_k st) r"
proof -
  have last: "\<exists>r. (if lb_max_iterations param \<noteq> 0 \<and> lb_max_iterations param < int (st_k st') + 1
      then Inr (Exit (lbfgs_value LBFGSERR_MAXIMUMITERATION) st') else lbfgs_update param xp gp st') = Inr r \<and>
      outcome_ok L param k (st_k st) r" if "state_ok param k st'" "st_k st' = st_k st" for st'
  proof (cases "lb_max_iterations param \<noteq> 0 \<and> lb_max_iterations param < int (st_k st') + 1")
    case True
    then show ?thesis using state_ok_exit [OF that(1)] by (auto simp: outcome_ok_def)
  next
    case False
    note u = lbfgs_update_ok [OF that(1) assms(2,3)]
    obtain st1 where "lbfgs_update param xp gp st' = Inr (Continue st1)" "state_ok param k st1" "st_k st1 = Suc (st_k st')"
      using u by blast
    with False that(2) show ?thesis by (auto simp: outcome_ok_def)
  qed
  show ?thesis
  proof (cases "converged L param st")
    case True
    then show ?thesis using assms state_ok_criterion [OF assms(1), of L]
      by (auto simp: lbfgs_tests_def outcome_ok_def exit_ok_def state_ok_def)
  next
    case False
    show ?thesis
    proof (cases "st_pf st")
      case None
      then show ?thesis using False last [OF assms(1)] by (simp add: lbfgs_tests_def)
    next
      case (Some pf)
      let ?i = "st_k st mod nat (lb_past param)"
      let ?st = "st\<lparr>st_pf := Some (pf[?i := st_fx st])\<rparr>"
      have "0 < lb_past param" "length pf = nat (lb_past param)" using assms(1) Some by (simp_all add: state_ok_def pf_ok_def)
      then have i: "?i < length pf" by simp
      have s: "state_ok param k ?st" using assms(1) Some by (simp add: state_ok_def pf_ok_def ring_ok_def)
      show ?thesis
      proof (cases "stopped param pf st")
        case True
        then show ?thesis using False Some i state_ok_exit [OF assms(1)]
          by (simp add: lbfgs_tests_def outcome_ok_def)
      next
        case no: False
        then show ?thesis using False Some i last [OF s] by (simp add: lbfgs_tests_def Let_def)
      qed
    qed
  qed
qed

lemma lbfgs_accepted_ok:
  assumes "state_ok param k st" "length xp = n" "length gp = n"
  shows "\<exists>r. lbfgs_accepted L param pr xp gp c st = Inr r \<and> outcome_ok L param k (st_k st) r"
proof (cases pr)
  case None
  then show ?thesis using lbfgs_tests_ok [OF assms] by (simp add: lbfgs_accepted_def)
next
  case (Some progress)
  have "ok k (st_instance st)" using assms(1) by (simp add: state_ok_def)
  from pr_ok [OF Some this] obtain ret j where p: "progress (st_instance st) (st_x st) (st_g st) (st_fx st)
      (vec2norm L (st_x st)) (vec2norm L (gradient param st)) (st_step st) (st_k st) c = Inr (ret, j)" "ok k j" by blast
  have s: "state_ok param k (st\<lparr>st_instance := j\<rparr>)" using assms(1) p(2) by (simp add: state_ok_def ring_ok_def)
  show ?thesis
  proof (cases "ret = 0")
    case True
    then show ?thesis using lbfgs_tests_ok [OF s assms(2,3), of L] p Some by (simp add: lbfgs_accepted_def Let_def)
  next
    case False
    have "pr \<noteq> None" using Some by simp
    then have "outcome_ok L param k (st_k st) (Exit ret (st\<lparr>st_instance := j\<rparr>))"
      using state_ok_exit [OF s False, of L] by (simp add: outcome_ok_def)
    moreover have "lbfgs_accepted L param pr xp gp c st = Inr (Exit ret (st\<lparr>st_instance := j\<rparr>))"
      using p Some False by (simp add: lbfgs_accepted_def Let_def)
    ultimately show ?thesis by blast
  qed
qed

text \<open>One iteration makes at most \<open>max_linesearch\<close> evaluations.\<close>

lemma lbfgs_iteration_ok:
  assumes "state_ok param k st" "0 < lb_max_linesearch param"
  shows "\<exists>r c. lbfgs_iteration L param ev pr st = Inr r \<and> int c \<le> lb_max_linesearch param \<and>
    outcome_ok L param (k + c) (st_k st) r"
proof -
  let ?se = "\<lparr>ls_x = st_x st, ls_f = st_fx st, ls_g = st_g st, ls_stp = st_step st, ls_instance = st_instance st\<rparr>"
  let ?res = "lbfgs_linesearch L param ev (st_x st) (gradient param st) (st_d st) ?se"
  let ?st = "\<lambda>se. st\<lparr>st_x := ls_x se, st_fx := ls_f se, st_g := ls_g se, st_step := ls_stp se,
      st_instance := ls_instance se,
      st_pg := (if orthantwise param then owlqn_pseudo_gradient param (ls_x se) (ls_g se) else st_pg st)\<rparr>"
  have l: "length (st_x st) = n" "length (st_g st) = n" "length (st_d st) = n" using assms(1) by (simp_all add: state_ok_def)
  have se: "searched param k ?se" using assms(1) by (simp add: searched_def state_ok_def)
  have it: "lbfgs_iteration L param ev pr st = plfit_check ?res (\<lambda>(ls, se).
      case ls of Inl e \<Rightarrow> Inr (Exit (lbfgs_value e) (?st se\<lparr>st_x := st_x st, st_g := st_g st\<rparr>))
      | Inr count \<Rightarrow> lbfgs_accepted L param pr (st_x st) (st_g st) count (?st se))"
    unfolding lbfgs_iteration_def Let_def ..
  have reverted: "exit_ok L param K (lbfgs_value e) (?st se'\<lparr>st_x := st_x st, st_g := st_g st\<rparr>)"
    if "lbfgs_value e < 0" "ok K (ls_instance se')" for e K se'
    using that l by (simp add: exit_ok_def)
  have "\<exists>ls se' c. ?res = Inr (ls, se') \<and> int c \<le> lb_max_linesearch param \<and> searched param (k + c) se' \<and>
      (case ls of Inl e \<Rightarrow> lbfgs_value e < 0 | Inr c' \<Rightarrow> True)"
    using lbfgs_linesearch_ok [OF l(1) length_gradient [OF assms(1)] l(3) se assms(2), of L]
  proof
    assume "\<exists>e. ?res = Inr (Inl e, ?se) \<and> lbfgs_value e < 0"
    then obtain e where "?res = Inr (Inl e, ?se)" "lbfgs_value e < 0" by blast
    then show ?thesis using se assms(2) by (intro exI [of _ "Inl e"] exI [of _ ?se] exI [of _ 0]) simp
  next
    assume "search_post param k 0 ?res"
    then obtain r sta c where "?res = Inr (r, sta)" "searched param (k + c) sta" "int c \<le> lb_max_linesearch param"
      "case r of Inl e \<Rightarrow> lbfgs_value e < 0 | Inr c' \<Rightarrow> c' = c" by (auto simp: search_post_def)
    then show ?thesis by (intro exI [of _ r] exI [of _ sta] exI [of _ c]) (auto split: sum.splits)
  qed
  then obtain ls se' c where r: "?res = Inr (ls, se')" "int c \<le> lb_max_linesearch param" "searched param (k + c) se'"
    "case ls of Inl e \<Rightarrow> lbfgs_value e < 0 | Inr c' \<Rightarrow> True" by blast
  show ?thesis
  proof (cases ls)
    case (Inl e)
    have "ok (k + c) (ls_instance se')" using r(3) by (simp add: searched_def)
    moreover have "lbfgs_value e < 0" using r(4) Inl by simp
    ultimately show ?thesis using r(1,2) Inl reverted [of e "k + c" se'] unfolding it by (auto simp: outcome_ok_def)
  next
    case (Inr c')
    have "state_ok param (k + c) (?st se')" using assms(1) r(3) by (simp add: state_ok_def searched_def ring_ok_def)
    from lbfgs_accepted_ok [OF this l(1,2), of L c'] r(1,2) Inr show ?thesis unfolding it by auto
  qed
qed

lemma lbfgs_loop_ok:
  assumes "state_ok param k st" "0 < lb_max_linesearch param"
  shows "lbfgs_loop L param ev pr fuel st = Inl Out_of_fuel \<or>
    (\<exists>ret st' c. lbfgs_loop L param ev pr fuel st = Inr (ret, st') \<and> int c \<le> int fuel * lb_max_linesearch param \<and>
       exit_ok L param (k + c) ret st')"
  using assms(1)
proof (induction fuel arbitrary: k st)
  case (Suc fuel)
  from lbfgs_iteration_ok [OF Suc.prems assms(2), of L] obtain r c where
    r: "lbfgs_iteration L param ev pr st = Inr r" "int c \<le> lb_max_linesearch param"
    "outcome_ok L param (k + c) (st_k st) r" by blast
  show ?case
  proof (cases r)
    case (Exit ret st')
    have "int c \<le> int (Suc fuel) * lb_max_linesearch param"
      using r(2) assms(2) mult_right_mono [of 1 "int (Suc fuel)" "lb_max_linesearch param"] by linarith
    then show ?thesis using r Exit by (auto simp: outcome_ok_def)
  next
    case (Continue st')
    then have "state_ok param (k + c) st'" using r(3) by (simp add: outcome_ok_def)
    from Suc.IH [OF this] show ?thesis
    proof
      assume "\<exists>ret st'' c'. lbfgs_loop L param ev pr fuel st' = Inr (ret, st'') \<and>
        int c' \<le> int fuel * lb_max_linesearch param \<and> exit_ok L param (k + c + c') ret st''"
      then obtain ret st'' c' where x: "lbfgs_loop L param ev pr fuel st' = Inr (ret, st'')"
        "int c' \<le> int fuel * lb_max_linesearch param" "exit_ok L param (k + c + c') ret st''" by blast
      have "int (c + c') \<le> int (Suc fuel) * lb_max_linesearch param"
        using x(2) r(2) by (simp add: distrib_right)
      moreover have "exit_ok L param (k + (c + c')) ret st''" using x(3) by (simp add: add.assoc)
      ultimately show ?thesis using x(1) r(1) Continue
        by (intro disjI2 exI [of _ ret] exI [of _ st''] exI [of _ "c + c'"]) simp
    qed (use r(1) Continue in simp)
  qed
qed simp

lemma lbfgs_loop_terminates:
  assumes "state_ok param k st" "0 < lb_max_linesearch param" "lb_max_iterations param \<noteq> 0" "0 < fuel"
    "lb_max_iterations param < int (st_k st + fuel)"
  shows "lbfgs_loop L param ev pr fuel st \<noteq> Inl Out_of_fuel"
  using assms(1,4,5)
proof (induction fuel arbitrary: k st)
  case (Suc fuel)
  from lbfgs_iteration_ok [OF Suc.prems(1) assms(2), of L] obtain r c where
    r: "lbfgs_iteration L param ev pr st = Inr r" "outcome_ok L param (k + c) (st_k st) r" by blast
  show ?case
  proof (cases r)
    case (Exit ret st')
    then show ?thesis using r by simp
  next
    case (Continue st')
    with r(2) assms(3) have s: "state_ok param (k + c) st'" "st_k st' = Suc (st_k st)"
      "int (st_k st') \<le> lb_max_iterations param" by (simp_all add: outcome_ok_def)
    then have "0 < fuel" "lb_max_iterations param < int (st_k st' + fuel)" using Suc.prems(3) by linarith+
    from Suc.IH [OF s(1) this] r(1) Continue show ?thesis by simp
  qed
qed simp

lemma lbfgs_start_ok:
  assumes "length x = n" "length g = n" "fval x f g" "ok k i" "0 < lb_m param"
  shows "state_ok param k (lbfgs_start L param x f g i)"
proof -
  let ?st = "lbfgs_start L param x f g i"
  have "pairs_ok (st_lm ?st)" using assms(1) by (auto simp: lbfgs_start_def Let_def pairs_ok_def)
  moreover have "pf_ok param (st_pf ?st)" by (simp add: lbfgs_start_def Let_def pf_ok_def)
  moreover have "total_val fval param (st_x ?st) (st_fx ?st) (st_g ?st)"
    using assms(3) by (auto simp: lbfgs_start_def Let_def total_val_def)
  moreover have "length (st_d ?st) = n" using assms(1,2) by (simp add: lbfgs_start_def Let_def)
  ultimately show ?thesis
    using assms(1,2,4) ring_ok_start [OF assms(5), of L x f g i]
    by (simp add: state_ok_def) (simp add: lbfgs_start_def Let_def)
qed

lemma check_parameters_error: "check_parameters param m = Some e \<Longrightarrow> lbfgs_value e < 0"
  by (simp add: check_parameters_def split: if_splits)

lemma check_parameters_linesearch: "check_parameters param m = None \<Longrightarrow> 0 < lb_max_linesearch param"
  by (simp add: check_parameters_def split: if_splits)

text \<open>What a call returns.\<close>

definition return_ok :: "clib \<Rightarrow> lbfgs_parameter_t \<Rightarrow> bool \<Rightarrow> nat \<Rightarrow> 's lbfgs_return \<Rightarrow> bool" where
  "return_ok L param want_fx calls ret \<longleftrightarrow>
     length (r_x ret) = n \<and> (\<exists>c \<le> calls. ok c (r_instance ret)) \<and>
     (r_value ret = lbfgs_value LBFGS_SUCCESS \<or> r_value ret = lbfgs_value LBFGS_ALREADY_MINIMIZED \<and> pr = None \<longrightarrow>
        (\<exists>f g. total_val fval param (r_x ret) f g \<and> criterion L param (r_x ret) g \<and>
           r_fx ret = (if want_fx then Some f else None)))"

lemma lbfgs_ok:
  assumes "length x = n" "param = (case param_opt of None \<Rightarrow> lbfgs_defparam | Some p \<Rightarrow> p)" "0 < lb_m param" "ok 0 inst"
  shows "(\<exists>ret. lbfgs L fuel x want_fx ev pr inst param_opt = Inr ret \<and>
      return_ok L (default_end param (int n)) want_fx (1 + fuel * nat (lb_max_linesearch param)) ret) \<or>
    lbfgs L fuel x want_fx ev pr inst param_opt = Inl Out_of_fuel \<and>
      (lb_max_iterations param = 0 \<or> int fuel < lb_max_iterations param \<or> fuel = 0)"
proof -
  let ?p = "default_end param (int n)" and ?c = "1 + fuel * nat (lb_max_linesearch param)"
  have p: "lb_m ?p = lb_m param" "lb_max_linesearch ?p = lb_max_linesearch param"
    "lb_max_iterations ?p = lb_max_iterations param" by (simp_all add: default_end_def)
  have neg: "return_ok L ?p want_fx ?c \<lparr>r_value = lbfgs_value e, r_x = x, r_fx = fx, r_instance = inst\<rparr>"
    if "lbfgs_value e < 0" for e fx
    using that assms(1,4) by (auto simp: return_ok_def intro: exI [of _ 0])
  show ?thesis
  proof (cases "check_parameters param (int n)")
    case (Some e)
    then show ?thesis using neg [OF check_parameters_error [OF Some]] assms(1,2)
      by (simp add: lbfgs_def Let_def)
  next
    case None
    note ls = check_parameters_linesearch [OF None]
    show ?thesis
    proof (cases "lbfgs_allocated L ?p (int n)")
      case False
      then show ?thesis using neg [of LBFGSERR_OUTOFMEMORY] None assms(1,2) by (simp add: lbfgs_def Let_def)
    next
      case True
      obtain f g i where e: "ev inst x 0 = Inr (f, g, i)" "ok 1 i" "length g = n" "fval x f g"
        using ev_ok [OF assms(4,1), of 0] by auto
      let ?st = "lbfgs_start L ?p x f g i"
      have st: "state_ok ?p 1 ?st" using assms(1,3) e p by (intro lbfgs_start_ok) simp_all
      have x: "st_x ?st = x" "st_k ?st = 1" "st_instance ?st = i" by (simp_all add: lbfgs_start_def Let_def)
      have run: "lbfgs L fuel x want_fx ev pr inst param_opt =
          (if converged L ?p ?st
           then Inr \<lparr>r_value = lbfgs_value LBFGS_ALREADY_MINIMIZED, r_x = x, r_fx = (if want_fx then Some (st_fx ?st) else None), r_instance = i\<rparr>
           else plfit_check (lbfgs_loop L ?p ev pr fuel ?st) (\<lambda>(ret, st).
             Inr \<lparr>r_value = ret, r_x = st_x st, r_fx = (if want_fx then Some (st_fx st) else None), r_instance = st_instance st\<rparr>))"
        using None True e(1) assms(1,2) by (simp add: lbfgs_def Let_def)
      show ?thesis
      proof (cases "converged L ?p ?st")
        case True
        then have "criterion L ?p x (st_g ?st)" "total_val fval ?p x (st_fx ?st) (st_g ?st)"
          using state_ok_criterion [OF st, of L] st x by (simp_all add: state_ok_def)
        moreover have "\<exists>c \<le> ?c. ok c i" using e(2) by (intro exI [of _ 1]) simp
        ultimately have "return_ok L ?p want_fx ?c \<lparr>r_value = lbfgs_value LBFGS_ALREADY_MINIMIZED, r_x = x,
            r_fx = (if want_fx then Some (st_fx ?st) else None), r_instance = i\<rparr>"
          using assms(1) unfolding return_ok_def lbfgs_return.select_convs by blast
        with True show ?thesis unfolding run by simp
      next
        case False
        have "0 < lb_max_linesearch ?p" using ls p by simp
        from lbfgs_loop_ok [OF st this, of L fuel] show ?thesis
        proof (elim disjE exE conjE)
          assume o: "lbfgs_loop L ?p ev pr fuel ?st = Inl Out_of_fuel"
          have "lb_max_iterations param = 0 \<or> int fuel < lb_max_iterations param \<or> fuel = 0"
            using lbfgs_loop_terminates [OF st, of fuel L] o ls p x by fastforce
          with o False show ?thesis unfolding run by simp
        next
          fix ret st' c
          assume l: "lbfgs_loop L ?p ev pr fuel ?st = Inr (ret, st')" "int c \<le> int fuel * lb_max_linesearch ?p"
            "exit_ok L ?p (1 + c) ret st'"
          have "int (1 + c) \<le> int ?c" using l(2) p ls by simp
          then have "1 + c \<le> ?c" by linarith
          then have "return_ok L ?p want_fx ?c \<lparr>r_value = ret, r_x = st_x st',
              r_fx = (if want_fx then Some (st_fx st') else None), r_instance = st_instance st'\<rparr>"
            using l(3) by (auto simp: return_ok_def exit_ok_def)
          with l(1) False show ?thesis unfolding run by simp
        qed
      qed
    qed
  qed
qed

end

subsection \<open>Pure objective functions\<close>

text \<open>
  A client whose objective function depends on the point alone, with a counter of evaluations
  for its instance.
\<close>

definition gradient_at :: "(nat \<Rightarrow> double list \<Rightarrow> double) \<Rightarrow> double list \<Rightarrow> double list" where
  "gradient_at G x = map (\<lambda>j. G j x) [0..<length x]"

definition objective :: "(double list \<Rightarrow> double) \<Rightarrow> (nat \<Rightarrow> double list \<Rightarrow> double) \<Rightarrow> nat lbfgs_evaluate_t" where
  "objective f G calls x stp = Inr (f x, gradient_at G x, Suc calls)"

interpretation objective: lbfgs_client "objective f G" None n "\<lambda>k i. i = k" "\<lambda>x v g. v = f x \<and> g = gradient_at G x"
  for f G n
  by unfold_locales (auto simp: objective_def gradient_at_def)

lemma criterion_default_end: "\<not> orthantwise param \<Longrightarrow> criterion L (default_end param m) x g \<longleftrightarrow>
    vec2norm L g / (if vec2norm L x < 1 then 1 else vec2norm L x) \<le> lb_epsilon param"
  by (simp add: criterion_def orthantwise_def default_end_def)

lemma total_val_default_end: "\<not> orthantwise param \<Longrightarrow> total_val fv (default_end param m) x f g = fv x f g"
  by (simp add: total_val_def orthantwise_def default_end_def)

lemma lbfgs_loop_more_fuel:
  "lbfgs_loop L param ev pr fuel st \<noteq> Inl Out_of_fuel \<Longrightarrow> lbfgs_loop L param ev pr (fuel + k) st = lbfgs_loop L param ev pr fuel st"
proof (induction fuel arbitrary: st)
  case (Suc fuel)
  show ?case
  proof (cases "lbfgs_iteration L param ev pr st")
    case (Inr r)
    with Suc show ?thesis by (cases r) simp_all
  qed simp
qed simp

lemma lbfgs_more_fuel:
  "lbfgs L fuel x want_fx ev pr inst po \<noteq> Inl Out_of_fuel \<Longrightarrow>
   lbfgs L (fuel + k) x want_fx ev pr inst po = lbfgs L fuel x want_fx ev pr inst po"
proof -
  assume a: "lbfgs L fuel x want_fx ev pr inst po \<noteq> Inl Out_of_fuel"
  have l: "plfit_check (lbfgs_loop L p ev pr (fuel + k) st) h = plfit_check (lbfgs_loop L p ev pr fuel st) h"
    if "plfit_check (lbfgs_loop L p ev pr fuel st) h \<noteq> Inl Out_of_fuel" for p st and h :: "_ \<Rightarrow> 'b lbfgs_return result"
    using that lbfgs_loop_more_fuel [of L p ev pr fuel st k] by fastforce
  show ?thesis using a unfolding lbfgs_def Let_def
    by (auto split: option.splits if_splits intro!: plfit_check_cong l)
qed

text \<open>
  C15. For every objective function of the point alone, every positive size of the memory and without
  the orthant-wise mode (OWL-QN), \<open>lbfgs\<close> never leaves its arrays: either the iterations exceed
  the fuel, or it returns a point of the same dimension; and where it reports convergence, the
  norm of the gradient there is at most epsilon times that of the point (or 1), and the value
  stored through \<open>ptr_fx\<close> is the function's value there.
\<close>

theorem lbfgs_convergence_sound:
  assumes "0 < lb_m param" "\<not> orthantwise param"
  shows "case lbfgs L fuel x want_fx (objective f G) None 0 (Some param) of
      Inl e \<Rightarrow> e = Out_of_fuel
    | Inr ret \<Rightarrow> length (r_x ret) = length x \<and>
        (if r_value ret = lbfgs_value LBFGS_SUCCESS \<or> r_value ret = lbfgs_value LBFGS_ALREADY_MINIMIZED then
           vec2norm L (gradient_at G (r_x ret)) / (if vec2norm L (r_x ret) < 1 then 1 else vec2norm L (r_x ret)) \<le> lb_epsilon param \<and>
           r_fx ret = (if want_fx then Some (f (r_x ret)) else None)
         else True)"
  using objective.lbfgs_ok [OF refl refl, of "Some param" 0 L fuel x want_fx f G] assms
  by (auto simp: objective.return_ok_def criterion_default_end total_val_default_end)

theorem lbfgs_convergence_sound_witness:
  "case lbfgs zero_clib 9 [1] True (objective (\<lambda>x. hd x * hd x) (\<lambda>j x. lit 2 * hd x)) None 0 (Some lbfgs_defparam) of
      Inl e \<Rightarrow> e = Out_of_fuel
    | Inr ret \<Rightarrow> length (r_x ret) = length ([1] :: double list) \<and>
        (if r_value ret = lbfgs_value LBFGS_SUCCESS \<or> r_value ret = lbfgs_value LBFGS_ALREADY_MINIMIZED then
           vec2norm zero_clib (gradient_at (\<lambda>j x. lit 2 * hd x) (r_x ret)) /
             (if vec2norm zero_clib (r_x ret) < 1 then 1 else vec2norm zero_clib (r_x ret)) \<le> lb_epsilon lbfgs_defparam \<and>
           r_fx ret = (if True then Some (hd (r_x ret) * hd (r_x ret)) else None)
         else True)"
  by (rule lbfgs_convergence_sound) (simp_all add: lbfgs_defparam_def orthantwise_def)

text \<open>
  C16. With a positive size of the memory (with none it writes before its array) and a limit on the
  iterations \<open>lbfgs\<close> returns for every objective function of the point alone, after at most
  \<open>max_linesearch\<close> evaluations of it per iteration and one before the first: as many units of
  fuel as iterations are allowed are enough (one at least), and more change nothing.
\<close>

theorem lbfgs_terminates:
  assumes "0 < lb_m param" "lb_max_iterations param \<noteq> 0"
  shows "\<exists>ret. (\<forall>fuel \<ge> max 1 (nat (lb_max_iterations param)).
        lbfgs L fuel x want_fx (objective f G) None 0 (Some param) = Inr ret) \<and>
      r_instance ret \<le> 1 + max 1 (nat (lb_max_iterations param)) * nat (lb_max_linesearch param)"
proof -
  let ?m = "max 1 (nat (lb_max_iterations param))"
  have "\<not> (lb_max_iterations param = 0 \<or> int ?m < lb_max_iterations param \<or> ?m = 0)" using assms(2) by auto
  then obtain ret where ret: "lbfgs L ?m x want_fx (objective f G) None 0 (Some param) = Inr ret"
    "r_instance ret \<le> 1 + ?m * nat (lb_max_linesearch param)"
    using objective.lbfgs_ok [OF refl refl, of "Some param" 0 L ?m x want_fx f G] assms(1)
    by (auto simp: objective.return_ok_def)
  have "lbfgs L fuel x want_fx (objective f G) None 0 (Some param) = Inr ret" if "?m \<le> fuel" for fuel
    using lbfgs_more_fuel [of L ?m x want_fx "objective f G" None 0 "Some param" "fuel - ?m"] ret(1) that by simp
  with ret(2) show ?thesis by blast
qed

theorem lbfgs_terminates_witness:
  "\<exists>ret. lbfgs zero_clib 7 [1] True (objective (\<lambda>x. hd x * hd x) (\<lambda>j x. lit 2 * hd x)) None 0
      (Some (lbfgs_defparam\<lparr>lb_max_iterations := 5\<rparr>)) = Inr ret \<and> r_instance ret \<le> 201"
proof -
  let ?p = "lbfgs_defparam\<lparr>lb_max_iterations := 5\<rparr>"
  have p: "0 < lb_m ?p" "lb_max_iterations ?p \<noteq> 0" "nat (lb_max_linesearch ?p) = 40" "nat (lb_max_iterations ?p) = 5"
    by (simp_all add: lbfgs_defparam_def)
  from lbfgs_terminates [OF p(1,2), of zero_clib "[1]" True "\<lambda>x. hd x * hd x" "\<lambda>j x. lit 2 * hd x"]
  show ?thesis unfolding p by force
qed

text \<open>
  The messages: every code of the enumeration has its own value, so \<open>lbfgs_strerror\<close> of that
  value is the message of that code; all other numbers are \<open>(unknown)\<close>. The codes that stand
  for success are exactly the values that are not negative.
\<close>

theorem lbfgs_strerror_correct:
  "(lbfgs_value c = lbfgs_value c' \<longleftrightarrow> c = c') \<and> lbfgs_strerror (lbfgs_value c) = lbfgs_message c \<and>
   (if \<exists>c. lbfgs_value c = err then True else lbfgs_strerror err = ''(unknown)'') \<and>
   (0 \<le> lbfgs_value c \<longleftrightarrow> c \<in> {LBFGS_SUCCESS, LBFGS_STOP, LBFGS_ALREADY_MINIMIZED})"
proof -
  have all: "c \<in> set lbfgs_codes" for c by (cases c) (simp_all add: lbfgs_codes_def)
  have "inj_on lbfgs_value (set lbfgs_codes)"
    using distinct_map [of lbfgs_value lbfgs_codes] by (simp add: lbfgs_codes_def)
  then have "lbfgs_value c = lbfgs_value c' \<longleftrightarrow> c = c'" using all by (meson inj_onD)
  moreover have "lbfgs_strerror (lbfgs_value c) = lbfgs_message c"
    by (cases c) (simp_all add: lbfgs_strerror_def lbfgs_codes_def)
  moreover have "find (\<lambda>c. lbfgs_value c = err) lbfgs_codes = None" if "\<not> (\<exists>c. lbfgs_value c = err)"
    using that by (auto simp: find_None_iff)
  moreover have "0 \<le> lbfgs_value c \<longleftrightarrow> c \<in> {LBFGS_SUCCESS, LBFGS_STOP, LBFGS_ALREADY_MINIMIZED}" by (cases c) simp_all
  ultimately show ?thesis by (auto simp: lbfgs_strerror_def)
qed

end
