(* ===== verification/Discrete.thy ===== *)
theory Discrete
  imports Continuous_P Hzeta Lbfgs_P
begin

text \<open>
  Fitting a discrete power law, \<open>src/plfit.c\<close>: the three estimators of the exponent (the L-BFGS
  optimiser, a scan over a grid, the continuous estimate), the Kolmogorov-Smirnov distance, the
  log-likelihood, the search for the \<open>xmin\<close> with the least distance, the p-value and the public
  functions. As in the continuous case, what a fit reports before its p-value is a
  \<open>fit_report\<close>.
\<close>

subsection \<open>The estimators\<close>

record plfit_i_estimate_alpha_discrete_data_t =
  ad_m :: nat
  ad_logsum :: double
  ad_xmin :: double

definition plfit_i_logsum_discrete :: "clib \<Rightarrow> double list \<Rightarrow> double" where
  "plfit_i_logsum_discrete L xs = fold (\<lambda>x logsum. logsum + c_log L x) xs 0"

definition plfit_i_logsum_less_than_discrete :: "clib \<Rightarrow> double list \<Rightarrow> double \<Rightarrow> double \<times> nat" where
  "plfit_i_logsum_less_than_discrete L xs xmin =
     fold (\<lambda>x (logsum, count). if x < xmin then (logsum, count) else (logsum + c_log L x, count + 1)) xs (0, 0)"

text \<open>The sum of the logarithms and the number of points, for data that are or are not cut off.\<close>

definition logsum_and_m :: "clib \<Rightarrow> double list \<Rightarrow> double \<Rightarrow> bool \<Rightarrow> double \<times> nat" where
  "logsum_and_m L xs xmin is_sorted =
     (if is_sorted then (plfit_i_logsum_discrete L xs, length xs)
      else plfit_i_logsum_less_than_discrete L xs xmin)"

text \<open>
  The objective function of the optimiser: the negative log-likelihood, with a pseudo-infinite
  value and a gradient that points back where the zeta function has no value.
\<close>

definition huge :: double where "huge = lit (10 ^ 10)"

definition plfit_i_estimate_alpha_discrete_lbfgs_evaluate ::
  "clib \<Rightarrow> plfit_i_estimate_alpha_discrete_data_t lbfgs_evaluate_t" where
  "plfit_i_estimate_alpha_discrete_lbfgs_evaluate L data x step =
     plfit_check (array_get x 0) (\<lambda>x0.
       if isnan x0 then Inr (huge, [huge], data)
       else
         let dx = (if lit (1 / 1000) < step \<or> deq step 0 then lit (1 / 1000)
                   else if step < - lit (1 / 1000) then - lit (1 / 1000) else step) in
         if x0 \<le> 1 then Inr (huge, [if 0 < dx then - huge else huge], data)
         else if x0 + dx \<le> 1 then
           plfit_check (hsl_sf_lnhzeta L x0 (ad_xmin data)) (\<lambda>l.
             Inr (x0 * ad_logsum data + double_of_nat (ad_m data) * l, [huge], data))
         else
           plfit_check (hsl_sf_lnhzeta_deriv_tuple L x0 (ad_xmin data)) (\<lambda>(lnhzeta_x, lnhzeta_deriv_x).
             Inr (x0 * ad_logsum data + double_of_nat (ad_m data) * lnhzeta_x,
                  [ad_logsum data + double_of_nat (ad_m data) * lnhzeta_deriv_x], data)))"

definition plfit_i_estimate_alpha_discrete_lbfgs_progress ::
  "plfit_i_estimate_alpha_discrete_data_t lbfgs_progress_t" where
  "plfit_i_estimate_alpha_discrete_lbfgs_progress data x g fx xnorm gnorm step k ls = Inr (0, data)"

definition plfit_i_estimate_alpha_discrete_lbfgs ::
  "clib \<Rightarrow> nat \<Rightarrow> double list \<Rightarrow> double \<Rightarrow> bool \<Rightarrow> double result" where
  \<comment> \<open>the array of the variables is used without a test that it was granted\<close>
  "plfit_i_estimate_alpha_discrete_lbfgs L fuel xs xmin is_sorted =
     (if xmin < 1 then plfit_fail PLFIT_EINVAL
      else
        let param = (lbfgs_parameter_init lbfgs_defparam)\<lparr>lb_max_iterations := 0\<rparr> in
        case logsum_and_m L xs xmin is_sorted of (logsum, m) \<Rightarrow>
        if \<not> lbfgs_malloc L 1 then Inl Undefined
        else plfit_check
          (lbfgs L fuel [lit 3] False (plfit_i_estimate_alpha_discrete_lbfgs_evaluate L)
             (Some plfit_i_estimate_alpha_discrete_lbfgs_progress)
             \<lparr>ad_m = m, ad_logsum = logsum, ad_xmin = xmin\<rparr> (Some param)) (\<lambda>ret.
          if r_value ret < 0 \<and> r_value ret \<noteq> lbfgs_value LBFGSERR_ROUNDING_ERROR \<and>
             r_value ret \<noteq> lbfgs_value LBFGSERR_MAXIMUMLINESEARCH \<and>
             r_value ret \<noteq> lbfgs_value LBFGSERR_MINIMUMSTEP \<and>
             r_value ret \<noteq> lbfgs_value LBFGSERR_CANCELED
          then plfit_fail PLFIT_FAILURE
          else array_get (r_x ret) 0))"

text \<open>The checks of the grid, and the scan; \<open>Out_of_fuel\<close> when it has more points than \<open>fuel\<close>.\<close>

definition bad_grid :: "plfit_discrete_options_t \<Rightarrow> bool" where
  "bad_grid options \<longleftrightarrow>
     do_alpha_min options \<le> 1 \<or> do_alpha_max options < do_alpha_min options \<or> do_alpha_step options \<le> 0"

definition grid_likelihood :: "clib \<Rightarrow> double \<Rightarrow> nat \<Rightarrow> double \<Rightarrow> double \<Rightarrow> double result" where
  "grid_likelihood L logsum m xmin curr_alpha =
     plfit_check (hsl_sf_lnhzeta L curr_alpha xmin) (\<lambda>l. Inr (- curr_alpha * logsum - double_of_nat m * l))"

fun alpha_scan ::
  "(double \<Rightarrow> double result) \<Rightarrow> double \<Rightarrow> double \<Rightarrow> nat \<Rightarrow> double \<Rightarrow> double \<Rightarrow> double \<Rightarrow> double result" where
  "alpha_scan likelihood step max_alpha fuel curr_alpha best_alpha L_max =
     (if \<not> curr_alpha \<le> max_alpha then Inr best_alpha
      else case fuel of
        0 \<Rightarrow> Inl Out_of_fuel
      | Suc k \<Rightarrow>
          plfit_check (likelihood curr_alpha) (\<lambda>l.
            if L_max < l then alpha_scan likelihood step max_alpha k (curr_alpha + step) curr_alpha l
            else alpha_scan likelihood step max_alpha k (curr_alpha + step) best_alpha L_max))"

declare alpha_scan.simps [simp del]

definition plfit_i_estimate_alpha_discrete_linear_scan ::
  "clib \<Rightarrow> nat \<Rightarrow> double list \<Rightarrow> double \<Rightarrow> plfit_discrete_options_t \<Rightarrow> bool \<Rightarrow> double result" where
  "plfit_i_estimate_alpha_discrete_linear_scan L fuel xs xmin options is_sorted =
     (if xmin < 1 then plfit_fail PLFIT_EINVAL
      else if bad_grid options then plfit_fail PLFIT_EINVAL
      else case logsum_and_m L xs xmin is_sorted of (logsum, m) \<Rightarrow>
        alpha_scan (grid_likelihood L logsum m xmin) (do_alpha_step options) (do_alpha_max options) fuel
          (do_alpha_min options) (do_alpha_min options) (- DBL_MAX))"

definition plfit_i_estimate_alpha_discrete_fast :: "clib \<Rightarrow> double list \<Rightarrow> double \<Rightarrow> bool \<Rightarrow> double result" where
  "plfit_i_estimate_alpha_discrete_fast L xs xmin is_sorted =
     (if xmin < 1 then plfit_fail PLFIT_EINVAL
      else if is_sorted then plfit_i_estimate_alpha_continuous_sorted L xs (xmin - lit 0.5)
      else plfit_i_estimate_alpha_continuous L xs (xmin - lit 0.5))"

definition plfit_i_estimate_alpha_discrete ::
  "clib \<Rightarrow> nat \<Rightarrow> double list \<Rightarrow> double \<Rightarrow> plfit_discrete_options_t \<Rightarrow> bool \<Rightarrow> double result" where
  "plfit_i_estimate_alpha_discrete L fuel xs xmin options is_sorted =
     (case do_alpha_method options of
        PLFIT_LBFGS \<Rightarrow> plfit_i_estimate_alpha_discrete_lbfgs L fuel xs xmin is_sorted
      | PLFIT_LINEAR_SCAN \<Rightarrow> plfit_i_estimate_alpha_discrete_linear_scan L fuel xs xmin options is_sorted
      | PLFIT_PRETEND_CONTINUOUS \<Rightarrow> plfit_i_estimate_alpha_discrete_fast L xs xmin is_sorted)"

subsection \<open>The distance and the likelihood\<close>

definition ks_distance_discrete :: "clib \<Rightarrow> double \<Rightarrow> double \<Rightarrow> double \<Rightarrow> nat \<Rightarrow> double \<Rightarrow> double result" where
  "ks_distance_discrete L alpha lnhzeta n m x =
     plfit_check (hsl_sf_lnhzeta L alpha x) (\<lambda>l. Inr \<bar>c_expm1 L (l - lnhzeta) + double_of_nat m / n\<bar>)"

text \<open>The loop goes from one value to the next; \<open>m\<close> counts the points before.\<close>

function ks_discrete_loop :: "(nat \<Rightarrow> double \<Rightarrow> double result) \<Rightarrow> double list \<Rightarrow> nat \<Rightarrow> double \<Rightarrow> double result" where
  "ks_discrete_loop gap [] m D = Inr D"
| "ks_discrete_loop gap (x # xs) m D =
     plfit_check (gap m x) (\<lambda>d.
       ks_discrete_loop gap (dropWhile (\<lambda>y. deq y x) xs) (m + 1 + length (takeWhile (\<lambda>y. deq y x) xs))
         (if D < d then d else D))"
  by pat_completeness auto
termination
  by (relation "measure (\<lambda>(gap, xs, m, D). length xs)") (auto simp: le_imp_less_Suc length_dropWhile_le)

definition plfit_i_ks_test_discrete :: "clib \<Rightarrow> double list \<Rightarrow> double \<Rightarrow> double \<Rightarrow> double result" where
  "plfit_i_ks_test_discrete L xs alpha xmin =
     plfit_check (hsl_sf_lnhzeta L alpha xmin) (\<lambda>lnhzeta.
       ks_discrete_loop (ks_distance_discrete L alpha lnhzeta (double_of_nat (length xs))) xs 0 0)"

definition plfit_log_likelihood_discrete :: "clib \<Rightarrow> double list \<Rightarrow> double \<Rightarrow> double \<Rightarrow> double result" where
  "plfit_log_likelihood_discrete L xs alpha xmin =
     (if alpha \<le> 1 then plfit_fail PLFIT_EINVAL
      else if xmin < 1 then plfit_fail PLFIT_EINVAL
      else case plfit_i_logsum_less_than_discrete L xs xmin of (logsum, m) \<Rightarrow>
        plfit_check (hsl_sf_lnhzeta L alpha xmin) (\<lambda>l. Inr (- alpha * logsum - double_of_nat m * l)))"

subsection \<open>The fit up to its p-value\<close>

definition bad_scan :: "plfit_discrete_options_t \<Rightarrow> bool" where
  \<comment> \<open>the checks of the public functions\<close>
  "bad_scan options \<longleftrightarrow> do_alpha_method options = PLFIT_LINEAR_SCAN \<and> bad_grid options"

definition corrected :: "plfit_discrete_options_t \<Rightarrow> plfit_result_t \<Rightarrow> nat \<Rightarrow> plfit_result_t" where
  "corrected options r n =
     (if do_finite_size_correction options then plfit_i_perform_finite_size_correction r n else r)"

definition estimate_core_discrete ::
  "clib \<Rightarrow> nat \<Rightarrow> plfit_discrete_options_t \<Rightarrow> double list \<Rightarrow> double \<Rightarrow> fit_report result" where
  \<comment> \<open>\<open>plfit_estimate_alpha_discrete\<close>\<close>
  "estimate_core_discrete L fuel options xs xmin =
     (if xs = [] \<or> bad_scan options then Inr (Failed PLFIT_EINVAL None)
      else report_check (plfit_i_copy_and_sort L xs) None (\<lambda>xs_copy.
        let xs = dropWhile (\<lambda>x. x < xmin) xs_copy in
        report_check (plfit_i_estimate_alpha_discrete L fuel xs xmin options True) None (\<lambda>alpha.
        report_check (plfit_i_ks_test_discrete L xs alpha xmin) None (\<lambda>D.
        let r = corrected options
              \<lparr>res_alpha = alpha, res_xmin = xmin, res_L = NaN, res_D = D, res_p = NaN\<rparr> (length xs) in
        report_check (plfit_log_likelihood_discrete L xs (res_alpha r) xmin) (Some D) (\<lambda>l.
          Inr (Fitted (r\<lparr>res_L := l\<rparr>)))))))"

text \<open>
  The search for \<open>xmin\<close>. Pointers are offsets into the sorted data: \<open>px\<close>, and the end of the
  candidates, which leaves the two greatest values out where it can.
\<close>

fun back_over :: "double list \<Rightarrow> nat \<Rightarrow> double \<Rightarrow> nat \<Rightarrow> nat" where
  "back_over data px prev_x 0 = 0"
| "back_over data px prev_x (Suc e) =
     (if px < Suc e \<and> deq (data ! Suc e) prev_x then back_over data px prev_x e else Suc e)"

definition first_px :: "double list \<Rightarrow> nat" where
  "first_px data = length (takeWhile (\<lambda>x. x < 1) data)"

definition end_xmin :: "double list \<Rightarrow> nat" where
  "end_xmin data =
     (let px = first_px data; e0 = length data - 1;
          e1 = back_over data px (data ! e0) e0;
          e2 = back_over data px (data ! e1) e1
      in e2 + 1)"

function skip_equal :: "double list \<Rightarrow> nat \<Rightarrow> double \<Rightarrow> nat \<Rightarrow> nat" where
  "skip_equal data endx prev_x px =
     (if px < endx \<and> deq (data ! px) prev_x then skip_equal data endx prev_x (Suc px) else px)"
  by pat_completeness auto
termination by (relation "measure (\<lambda>(data, endx, prev_x, px). endx - px)") auto

declare skip_equal.simps [simp del]

lemma skip_equal_ge: "px \<le> skip_equal data endx prev_x px"
  by (induction data endx prev_x px rule: skip_equal.induct)
    (subst skip_equal.simps, auto)

definition initial_best :: plfit_result_t where
  "initial_best = \<lparr>res_alpha = 1, res_xmin = 1, res_L = NaN, res_D = DBL_MAX, res_p = NaN\<rparr>"

text \<open>One candidate: the estimate and the distance at \<open>px\<close>.\<close>

definition candidate ::
  "clib \<Rightarrow> nat \<Rightarrow> plfit_discrete_options_t \<Rightarrow> double list \<Rightarrow> nat \<Rightarrow> plfit_result_t result" where
  "candidate L fuel options data px =
     plfit_check (array_get data px) (\<lambda>xmin.
     let xs = drop px data in
     plfit_check (plfit_i_estimate_alpha_discrete L fuel xs xmin options True) (\<lambda>alpha.
     plfit_check (plfit_i_ks_test_discrete L xs alpha xmin) (\<lambda>D.
       Inr \<lparr>res_alpha = alpha, res_xmin = xmin, res_L = NaN, res_D = D, res_p = NaN\<rparr>)))"

function discrete_search ::
  "(nat \<Rightarrow> plfit_result_t result) \<Rightarrow> double list \<Rightarrow> nat \<Rightarrow> nat \<Rightarrow> double \<Rightarrow> plfit_result_t \<times> nat \<Rightarrow> (plfit_result_t \<times> nat) result" where
  "discrete_search cand data endx px prev_x best =
     (if \<not> px < endx then Inr best
      else
        let px = skip_equal data endx prev_x px in
        plfit_check (cand px) (\<lambda>r.
          discrete_search cand data endx (Suc px) (data ! px)
            (if res_D r < res_D (fst best) then (r, length data - px) else best)))"
  by pat_completeness auto
termination
  by (relation "measure (\<lambda>(cand, data, endx, px, prev_x, best). endx - px)")
    (use skip_equal_ge in \<open>auto simp: less_Suc_eq_le intro: diff_less_mono2 le_less_trans\<close>)

declare discrete_search.simps [simp del]

definition discrete_core ::
  "clib \<Rightarrow> nat \<Rightarrow> plfit_discrete_options_t \<Rightarrow> double list \<Rightarrow> fit_report result" where
  \<comment> \<open>\<open>plfit_discrete\<close> from the sorted copy of the data up to the p-value\<close>
  "discrete_core L fuel options data =
     report_check (discrete_search (candidate L fuel options data) data (end_xmin data) (first_px data) 0 (initial_best, 0))
       None (\<lambda>(best, best_n).
     let r = corrected options best best_n in
     report_check (plfit_log_likelihood_discrete L (drop (length data - best_n) data) (res_alpha r) (res_xmin r))
       (Some (res_D r)) (\<lambda>l. Inr (Fitted (r\<lparr>res_L := l\<rparr>))))"

definition fit_discrete ::
  "clib \<Rightarrow> nat \<Rightarrow> plfit_discrete_options_t \<Rightarrow> double list \<Rightarrow> fit_report result" where
  "fit_discrete L fuel options xs =
     (if xs = [] \<or> bad_scan options then Inr (Failed PLFIT_EINVAL None)
      else report_check (plfit_i_copy_and_sort L xs) None (discrete_core L fuel options))"

subsection \<open>The p-value and the public functions\<close>

definition plfit_i_calculate_p_value_discrete ::
  "clib \<Rightarrow> nat \<Rightarrow> double list \<Rightarrow> plfit_discrete_options_t \<Rightarrow> bool \<Rightarrow> plfit_result_t \<Rightarrow> env \<Rightarrow>
   (plfit_result_t \<times> env) result" where
  "plfit_i_calculate_p_value_discrete L fuel xs options xmin_fixed result e =
     (case do_p_value_method options of
        PLFIT_P_VALUE_SKIP \<Rightarrow> Inr (result\<lparr>res_p := NaN\<rparr>, e)
      | PLFIT_P_VALUE_APPROXIMATE \<Rightarrow>
          plfit_check (plfit_ks_test_one_sample_p L (res_D result)
            (length xs - count_smaller xs (res_xmin result))) (\<lambda>p. Inr (result\<lparr>res_p := p\<rparr>, e))
      | PLFIT_P_VALUE_EXACT \<Rightarrow>
          (let options_no_p_value = options\<lparr>do_p_value_method := PLFIT_P_VALUE_SKIP\<rparr> in
           plfit_check (exact_p_value L (do_p_value_precision options) xs result
             (\<lambda>xs_head num_smaller. plfit_i_resample_discrete L fuel xs_head num_smaller (length xs)
                (res_alpha result) (res_xmin result) (length xs))
             (\<lambda>ys. if xmin_fixed then estimate_core_discrete L fuel options_no_p_value ys (res_xmin result)
                   else fit_discrete L fuel options_no_p_value ys) e)
             (\<lambda>(p, e'). Inr (result\<lparr>res_p := p\<rparr>, e'))))"

definition with_p_value_discrete ::
  "clib \<Rightarrow> nat \<Rightarrow> plfit_discrete_options_t \<Rightarrow> bool \<Rightarrow> double list \<Rightarrow> env \<Rightarrow> fit_report result \<Rightarrow>
   (plfit_result_t \<times> env) result" where
  "with_p_value_discrete L fuel options xmin_fixed xs e fit =
     plfit_check fit (\<lambda>report.
       case report of
         Failed err D \<Rightarrow> plfit_fail err
       | Fitted r \<Rightarrow> plfit_i_calculate_p_value_discrete L fuel xs options xmin_fixed r e)"

definition plfit_estimate_alpha_discrete ::
  "clib \<Rightarrow> nat \<Rightarrow> double list \<Rightarrow> double \<Rightarrow> plfit_discrete_options_t option \<Rightarrow> env \<Rightarrow>
   (plfit_result_t \<times> env) result" where
  \<comment> \<open>its p-value is computed on the data as they were given, not on the sorted copy\<close>
  "plfit_estimate_alpha_discrete L fuel xs xmin options e =
     (let opts = (case options of None \<Rightarrow> plfit_discrete_default_options | Some opts \<Rightarrow> opts) in
      with_p_value_discrete L fuel opts True xs e (estimate_core_discrete L fuel opts xs xmin))"

definition plfit_discrete ::
  "clib \<Rightarrow> nat \<Rightarrow> double list \<Rightarrow> plfit_discrete_options_t option \<Rightarrow> env \<Rightarrow> (plfit_result_t \<times> env) result" where
  "plfit_discrete L fuel xs options e =
     (let opts = (case options of None \<Rightarrow> plfit_discrete_default_options | Some opts \<Rightarrow> opts) in
      if xs = [] \<or> bad_scan opts then plfit_fail PLFIT_EINVAL
      else plfit_check (plfit_i_copy_and_sort L xs) (\<lambda>data.
        with_p_value_discrete L fuel opts False data e (discrete_core L fuel opts data)))"

definition plfit_calculate_p_value_discrete ::
  "clib \<Rightarrow> nat \<Rightarrow> double list \<Rightarrow> plfit_discrete_options_t \<Rightarrow> bool \<Rightarrow> plfit_result_t \<Rightarrow> env \<Rightarrow>
   (plfit_result_t \<times> env) result" where
  "plfit_calculate_p_value_discrete L fuel xs options xmin_fixed result e =
     plfit_check (plfit_i_copy_and_sort L xs) (\<lambda>xs_copy.
       plfit_i_calculate_p_value_discrete L fuel xs_copy options xmin_fixed result e)"

end
