(* ===== verification/Discrete_P.thy ===== *)
theory Discrete_P
  imports Discrete
begin

text \<open>
  Properties of the discrete fit: the objective function keeps the optimiser's contract, the
  scan finds the best point of its grid, the distance is the greatest gap, the search returns
  the least distance among its candidates, nothing leaves an array, and the p-value.
\<close>

subsection \<open>The objective function as a client of the optimiser\<close>

lemma not_less_one: "\<not> x < (1 :: double) \<Longrightarrow> \<not> x \<le> 0"
proof
  assume "\<not> x < 1" "x \<le> 0"
  moreover have "0 < (1 :: double)" by simp
  ultimately show False using dle_less_trans by blast
qed

lemma discrete_evaluate_ok:
  assumes "\<not> ad_xmin data < 1" "length x = 1"
  shows "\<exists>f g. plfit_i_estimate_alpha_discrete_lbfgs_evaluate L data x step = Inr (f, [g], data)"
proof -
  obtain x0 where x: "x = [x0]" using assms(2) by (auto simp: length_Suc_conv)
  have "\<exists>l d. hsl_sf_lnhzeta L x0 (ad_xmin data) = Inr l \<and> hsl_sf_lnhzeta_deriv_tuple L x0 (ad_xmin data) = Inr (l, d)"
    if "\<not> x0 \<le> 1" using lnhzeta_defined [OF that not_less_one [OF assms(1)]] .
  then show ?thesis using x by (auto simp: plfit_i_estimate_alpha_discrete_lbfgs_evaluate_def Let_def)
qed

definition objective_at ::
  "clib \<Rightarrow> plfit_i_estimate_alpha_discrete_data_t \<Rightarrow> double list \<Rightarrow> double \<Rightarrow> double list \<Rightarrow> bool" where
  "objective_at L data x f g \<longleftrightarrow>
     (\<exists>step. plfit_i_estimate_alpha_discrete_lbfgs_evaluate L data x step = Inr (f, g, data))"

interpretation discrete: lbfgs_client "plfit_i_estimate_alpha_discrete_lbfgs_evaluate L"
    "Some plfit_i_estimate_alpha_discrete_lbfgs_progress" 1 "\<lambda>k d. d = data \<and> \<not> ad_xmin d < 1" "objective_at L data"
  for L data
proof unfold_locales
  fix k i and x :: "double list" and stp
  assume i: "i = data \<and> \<not> ad_xmin i < 1" and x: "length x = 1"
  obtain f g where "plfit_i_estimate_alpha_discrete_lbfgs_evaluate L i x stp = Inr (f, [g], i)"
    using discrete_evaluate_ok [of i x L stp] i x by blast
  with i show "\<exists>f g j. plfit_i_estimate_alpha_discrete_lbfgs_evaluate L i x stp = Inr (f, g, j) \<and>
      (j = data \<and> \<not> ad_xmin j < 1) \<and> length g = 1 \<and> objective_at L data x f g"
    by (auto simp: objective_at_def)
qed (auto simp: plfit_i_estimate_alpha_discrete_lbfgs_progress_def)

lemma discrete_lbfgs_return:
  assumes "\<not> ad_xmin data < 1"
  shows "case lbfgs L fuel [alpha0] False (plfit_i_estimate_alpha_discrete_lbfgs_evaluate L)
      (Some plfit_i_estimate_alpha_discrete_lbfgs_progress) data
      (Some ((lbfgs_parameter_init lbfgs_defparam)\<lparr>lb_max_iterations := 0\<rparr>)) of
        Inl e \<Rightarrow> e = Out_of_fuel
      | Inr ret \<Rightarrow> length (r_x ret) = 1 \<and> r_instance ret = data \<and>
          (if r_value ret = lbfgs_value LBFGS_SUCCESS then
             \<exists>step f g. plfit_i_estimate_alpha_discrete_lbfgs_evaluate L data (r_x ret) step = Inr (f, g, data) \<and>
               vec2norm L g / (if vec2norm L (r_x ret) < 1 then 1 else vec2norm L (r_x ret)) \<le> lit (1 / 10 ^ 5)
           else True)"
proof -
  let ?p = "(lbfgs_parameter_init lbfgs_defparam)\<lparr>lb_max_iterations := 0\<rparr>"
  let ?r = "lbfgs L fuel [alpha0] False (plfit_i_estimate_alpha_discrete_lbfgs_evaluate L)
      (Some plfit_i_estimate_alpha_discrete_lbfgs_progress) data (Some ?p)"
  have p: "0 < lb_m ?p" "\<not> orthantwise ?p" "lb_epsilon ?p = lit (1 / 10 ^ 5)"
    by (simp_all add: lbfgs_parameter_init_def lbfgs_defparam_def orthantwise_def)
  have "(\<exists>ret. ?r = Inr ret \<and> discrete.return_ok data L L (default_end ?p (int 1)) False
        (1 + fuel * nat (lb_max_linesearch ?p)) ret) \<or> ?r = Inl Out_of_fuel"
    using discrete.lbfgs_ok [of "[alpha0]" ?p "Some ?p" data data L fuel False L] p(1) assms by simp
  then show ?thesis
  proof
    assume "\<exists>ret. ?r = Inr ret \<and> discrete.return_ok data L L (default_end ?p (int 1)) False
        (1 + fuel * nat (lb_max_linesearch ?p)) ret"
    then obtain ret where r: "?r = Inr ret" "discrete.return_ok data L L (default_end ?p (int 1)) False
        (1 + fuel * nat (lb_max_linesearch ?p)) ret" by blast
    then show ?thesis
      unfolding discrete.return_ok_def total_val_default_end [OF p(2)] criterion_default_end [OF p(2)] p(3) objective_at_def
      by (auto simp del: lbfgs_value.simps) blast+
  qed simp
qed

text \<open>
  C4. The L-BFGS estimate of the exponent, when the memory for its variable is granted (the code
  writes through the pointer without a test): for every \<open>xmin\<close> that is not below 1 and every
  sample the optimiser, called as the code calls it, stays inside its arrays and the domain of the
  zeta function; it leaves the data of the objective function alone, and if it reports
  convergence, the derivative of the negative log-likelihood at the returned exponent is at most
  epsilon times the exponent (or 1). Hence the estimate is an exponent, the code
  \<open>PLFIT_FAILURE\<close>, or it needs more fuel; below 1 it is \<open>PLFIT_EINVAL\<close>.
\<close>

theorem discrete_lbfgs_sound:
  assumes "c_alloc L sizeof_double"
  shows "if xmin < 1 then plfit_i_estimate_alpha_discrete_lbfgs L fuel xs xmin is_sorted = plfit_fail PLFIT_EINVAL
    else (case plfit_i_estimate_alpha_discrete_lbfgs L fuel xs xmin is_sorted of
        Inl e \<Rightarrow> e \<in> {Out_of_fuel, Err PLFIT_FAILURE} | Inr alpha \<Rightarrow> True) \<and>
      (case lbfgs L fuel [alpha0] False (plfit_i_estimate_alpha_discrete_lbfgs_evaluate L)
        (Some plfit_i_estimate_alpha_discrete_lbfgs_progress) \<lparr>ad_m = m, ad_logsum = logsum, ad_xmin = xmin\<rparr>
        (Some ((lbfgs_parameter_init lbfgs_defparam)\<lparr>lb_max_iterations := 0\<rparr>)) of
          Inl e \<Rightarrow> e = Out_of_fuel
        | Inr ret \<Rightarrow> length (r_x ret) = 1 \<and> r_instance ret = \<lparr>ad_m = m, ad_logsum = logsum, ad_xmin = xmin\<rparr> \<and>
          (if r_value ret = lbfgs_value LBFGS_SUCCESS then
             \<exists>step f g. plfit_i_estimate_alpha_discrete_lbfgs_evaluate L \<lparr>ad_m = m, ad_logsum = logsum, ad_xmin = xmin\<rparr>
                 (r_x ret) step = Inr (f, g, \<lparr>ad_m = m, ad_logsum = logsum, ad_xmin = xmin\<rparr>) \<and>
               vec2norm L g / (if vec2norm L (r_x ret) < 1 then 1 else vec2norm L (r_x ret)) \<le> lit (1 / 10 ^ 5)
           else True))"
proof (cases "xmin < 1")
  case True
  then show ?thesis by (simp add: plfit_i_estimate_alpha_discrete_lbfgs_def)
next
  case False
  have "lbfgs_malloc L 1" using assms by (simp add: lbfgs_malloc_def vecalloc_def sizeof_double_def)
  then have "case plfit_i_estimate_alpha_discrete_lbfgs L fuel xs xmin is_sorted of
      Inl e \<Rightarrow> e \<in> {Out_of_fuel, Err PLFIT_FAILURE} | Inr alpha \<Rightarrow> True"
    using False discrete_lbfgs_return [of "\<lparr>ad_m = snd (logsum_and_m L xs xmin is_sorted),
        ad_logsum = fst (logsum_and_m L xs xmin is_sorted), ad_xmin = xmin\<rparr>" L fuel "lit 3"]
    unfolding plfit_i_estimate_alpha_discrete_lbfgs_def Let_def
    by (auto split: prod.splits sum.splits simp: plfit_check_def simp del: lbfgs_value.simps)
  with False discrete_lbfgs_return [of "\<lparr>ad_m = m, ad_logsum = logsum, ad_xmin = xmin\<rparr>" L fuel alpha0]
  show ?thesis by simp
qed

theorem discrete_lbfgs_sound_witness:
  "case plfit_i_estimate_alpha_discrete_lbfgs zero_clib 5 [Fin 1, Fin 2] (Fin 1) True of
     Inl e \<Rightarrow> e \<in> {Out_of_fuel, Err PLFIT_FAILURE} | Inr alpha \<Rightarrow> True"
proof -
  have "c_alloc zero_clib sizeof_double" "\<not> Fin 1 < 1" by (simp_all add: zero_clib_def plain_clib_def one_double_def)
  from discrete_lbfgs_sound [OF this(1), of "Fin 1" 5 "[Fin 1, Fin 2]" True] this(2) show ?thesis by simp
qed

subsection \<open>The scan over the grid\<close>

definition grid_point :: "plfit_discrete_options_t \<Rightarrow> nat \<Rightarrow> double" where
  "grid_point options k = ((\<lambda>a. a + do_alpha_step options) ^^ k) (do_alpha_min options)"

lemma grid_points_above_one:
  assumes "\<not> a \<le> 1" "\<not> step \<le> 0" "is_double a" "is_double step"
  shows "\<not> ((\<lambda>a. a + step) ^^ k) a \<le> 1 \<and> is_double (((\<lambda>a. a + step) ^^ k) a)"
proof (induction k)
  case (Suc k)
  let ?b = "((\<lambda>a. a + step) ^^ k) a"
  have "\<not> ?b + step \<le> 1"
  proof
    assume le: "?b + step \<le> 1"
    then have "?b + step \<noteq> NaN" by auto
    moreover have nan: "?b \<noteq> NaN" "step \<noteq> NaN" using \<open>?b + step \<noteq> NaN\<close> by auto
    moreover have "0 \<le> step" using assms(2) nan(2) dle_total [of step 0] by auto
    ultimately have "?b \<le> ?b + step" using dadd_ge_left [of ?b step] Suc by auto
    with le Suc show False using dle_trans by blast
  qed
  then show ?case using Suc assms(4) by simp
qed (use assms in simp)

definition best_of :: "(double \<Rightarrow> double result) \<Rightarrow> double list \<Rightarrow> double \<Rightarrow> double \<Rightarrow> double \<Rightarrow> bool" where
  \<comment> \<open>\<open>alpha\<close> with the value \<open>v\<close> is a point of \<open>pts\<close> that no other exceeds, or nothing exceeds the start\<close>
  "best_of lik pts start alpha v \<longleftrightarrow>
     (v = - DBL_MAX \<and> alpha = start \<or> alpha \<in> set pts \<and> lik alpha = Inr v) \<and>
     list_all (\<lambda>a. \<exists>l. lik a = Inr l \<and> \<not> v < l) pts"

lemma alpha_scan_best:
  assumes "\<And>k. \<exists>l. lik (((\<lambda>a. a + step) ^^ k) a0) = Inr l" "best_of lik pts start best Lm"
    "\<not> isnan Lm"
  shows "(\<exists>N \<le> fuel. list_all (\<lambda>a. a \<le> mx) (map (\<lambda>k. ((\<lambda>a. a + step) ^^ k) a0) [0..<N]) \<and>
      \<not> ((\<lambda>a. a + step) ^^ N) a0 \<le> mx \<and>
      (\<exists>alpha v. alpha_scan lik step mx fuel a0 best Lm = Inr alpha \<and>
         best_of lik (pts @ map (\<lambda>k. ((\<lambda>a. a + step) ^^ k) a0) [0..<N]) start alpha v)) \<or>
    alpha_scan lik step mx fuel a0 best Lm = Inl Out_of_fuel \<and>
      list_all (\<lambda>a. a \<le> mx) (map (\<lambda>k. ((\<lambda>a. a + step) ^^ k) a0) [0..<Suc fuel])"
  using assms
proof (induction fuel arbitrary: a0 pts best Lm)
  case 0
  then show ?case by (subst (1 2) alpha_scan.simps) (auto intro!: exI [of _ best] exI [of _ Lm])
next
  case (Suc fuel)
  show ?case
  proof (cases "a0 \<le> mx")
    case False
    with Suc.prems show ?thesis
      by (subst (1 2) alpha_scan.simps) (auto intro!: exI [of _ 0] exI [of _ best] exI [of _ Lm])
  next
    case True
    obtain l where l: "lik a0 = Inr l" using Suc.prems(1) [of 0] by auto
    let ?best = "if Lm < l then a0 else best" and ?L = "if Lm < l then l else Lm"
    let ?f = "\<lambda>a. a + step"
    have step: "alpha_scan lik step mx (Suc fuel) a0 best Lm = alpha_scan lik step mx fuel (a0 + step) ?best ?L"
      using True l by (subst alpha_scan.simps) simp
    have tot: "\<exists>l. lik ((?f ^^ k) (a0 + step)) = Inr l" for k
      using Suc.prems(1) [of "Suc k"] by (simp only: funpow_Suc_right o_apply)
    have nan: "\<not> isnan ?L" using Suc.prems(3) dless_not_nan [of Lm l] by auto
    have b: "best_of lik (pts @ [a0]) start ?best ?L"
      using Suc.prems(2) l unfolding best_of_def by (auto simp: list_all_iff dless_iff dest: dle_trans)
    have shift: "map (\<lambda>k. (?f ^^ k) a0) [0..<Suc n] = a0 # map (\<lambda>k. (?f ^^ k) (a0 + step)) [0..<n]" for n
      by (simp add: upt_conv_Cons map_Suc_upt [symmetric] funpow_Suc_right del: upt_Suc funpow.simps)
    from Suc.IH [OF tot b nan] show ?thesis
    proof (elim disjE exE conjE)
      fix N alpha v
      assume *: "N \<le> fuel" "list_all (\<lambda>a. a \<le> mx) (map (\<lambda>k. (?f ^^ k) (a0 + step)) [0..<N])"
        "\<not> (?f ^^ N) (a0 + step) \<le> mx" "alpha_scan lik step mx fuel (a0 + step) ?best ?L = Inr alpha"
        "best_of lik ((pts @ [a0]) @ map (\<lambda>k. (?f ^^ k) (a0 + step)) [0..<N]) start alpha v"
      have "\<not> (?f ^^ Suc N) a0 \<le> mx" using *(3) unfolding funpow_Suc_right o_apply .
      moreover have "list_all (\<lambda>a. a \<le> mx) (map (\<lambda>k. (?f ^^ k) a0) [0..<Suc N])" unfolding shift using True *(2) by simp
      moreover have "best_of lik (pts @ map (\<lambda>k. (?f ^^ k) a0) [0..<Suc N]) start alpha v" unfolding shift using *(5) by simp
      ultimately show ?thesis using *(1,4) unfolding step by (intro disjI1 exI [of _ "Suc N"]) auto
    next
      assume *: "alpha_scan lik step mx fuel (a0 + step) ?best ?L = Inl Out_of_fuel"
        "list_all (\<lambda>a. a \<le> mx) (map (\<lambda>k. (?f ^^ k) (a0 + step)) [0..<Suc fuel])"
      then show ?thesis unfolding step shift [of "Suc fuel"] using True by simp
    qed
  qed
qed

text \<open>
  C25. The scan over the grid: wrong bounds, a wrong step or an \<open>xmin\<close> below 1 are
  \<open>PLFIT_EINVAL\<close>; otherwise it ends exactly when some grid point exceeds the upper bound, and
  returns the point of the grid with the greatest likelihood, or the first one when no
  likelihood exceeds \<open>-DBL_MAX\<close>.
\<close>

theorem discrete_linear_scan_best:
  assumes "is_double (do_alpha_min options)" "is_double (do_alpha_step options)"
  shows "if xmin < 1 \<or> bad_grid options
    then plfit_i_estimate_alpha_discrete_linear_scan L fuel xs xmin options is_sorted = plfit_fail PLFIT_EINVAL
    else case plfit_i_estimate_alpha_discrete_linear_scan L fuel xs xmin options is_sorted of
      Inl e \<Rightarrow> e = Out_of_fuel \<and> list_all (\<lambda>a. a \<le> do_alpha_max options) (map (grid_point options) [0..<Suc fuel])
    | Inr alpha \<Rightarrow> (\<exists>N v. N \<le> fuel \<and> list_all (\<lambda>a. a \<le> do_alpha_max options) (map (grid_point options) [0..<N]) \<and>
        \<not> grid_point options N \<le> do_alpha_max options \<and>
        best_of (case logsum_and_m L xs xmin is_sorted of (logsum, m) \<Rightarrow> grid_likelihood L logsum m xmin)
          (map (grid_point options) [0..<N]) (do_alpha_min options) alpha v)"
proof (cases "xmin < 1 \<or> bad_grid options")
  case True
  then show ?thesis by (auto simp: plfit_i_estimate_alpha_discrete_linear_scan_def)
next
  case False
  obtain logsum m where lm: "logsum_and_m L xs xmin is_sorted = (logsum, m)" by (cases "logsum_and_m L xs xmin is_sorted")
  let ?lik = "grid_likelihood L logsum m xmin"
  have tot: "\<exists>l. ?lik (((\<lambda>a. a + do_alpha_step options) ^^ k) (do_alpha_min options)) = Inr l" for k
    using lnhzeta_defined [of "((\<lambda>a. a + do_alpha_step options) ^^ k) (do_alpha_min options)" xmin L]
      not_less_one [of xmin] False assms grid_points_above_one [of "do_alpha_min options" "do_alpha_step options" k]
    by (auto simp: grid_likelihood_def bad_grid_def)
  have start: "best_of ?lik [] (do_alpha_min options) (do_alpha_min options) (- DBL_MAX)" by (simp add: best_of_def)
  have nan: "\<not> isnan (- DBL_MAX)" by (simp only: isnan_ops) (simp add: DBL_MAX_def)
  have scan: "plfit_i_estimate_alpha_discrete_linear_scan L fuel xs xmin options is_sorted =
      alpha_scan ?lik (do_alpha_step options) (do_alpha_max options) fuel (do_alpha_min options) (do_alpha_min options) (- DBL_MAX)"
    using False lm by (simp add: plfit_i_estimate_alpha_discrete_linear_scan_def)
  from alpha_scan_best [OF tot start nan, of fuel "do_alpha_max options"] show ?thesis
    unfolding if_not_P [OF False] scan lm grid_point_def [abs_def] prod.case
    by (elim disjE exE conjE) (simp_all only: sum.case append_Nil, blast+)
qed

theorem discrete_linear_scan_best_witness:
  "case plfit_i_estimate_alpha_discrete_linear_scan zero_clib 2 [Fin 1, Fin 2] (Fin 1) plfit_discrete_default_options True of
      Inl e \<Rightarrow> e = Out_of_fuel \<and> list_all (\<lambda>a. a \<le> do_alpha_max plfit_discrete_default_options)
        (map (grid_point plfit_discrete_default_options) [0..<Suc 2])
    | Inr alpha \<Rightarrow> (\<exists>N v. N \<le> 2 \<and>
        list_all (\<lambda>a. a \<le> do_alpha_max plfit_discrete_default_options) (map (grid_point plfit_discrete_default_options) [0..<N]) \<and>
        \<not> grid_point plfit_discrete_default_options N \<le> do_alpha_max plfit_discrete_default_options \<and>
        best_of (case logsum_and_m zero_clib [Fin 1, Fin 2] (Fin 1) True of (logsum, m) \<Rightarrow> grid_likelihood zero_clib logsum m (Fin 1))
          (map (grid_point plfit_discrete_default_options) [0..<N]) (do_alpha_min plfit_discrete_default_options) alpha v)"
proof -
  have d: "is_double (do_alpha_min plfit_discrete_default_options)" "is_double (do_alpha_step plfit_discrete_default_options)"
    by (simp_all add: plfit_discrete_default_options_def)
  have "\<not> (Fin 1 < 1 \<or> bad_grid plfit_discrete_default_options)" by code_simp
  with discrete_linear_scan_best [OF d, of "Fin 1" zero_clib 2 "[Fin 1, Fin 2]" True] show ?thesis
    unfolding if_not_P [OF \<open>\<not> (Fin 1 < 1 \<or> bad_grid plfit_discrete_default_options)\<close>] by blast
qed

subsection \<open>The distance is the greatest gap\<close>

lemma deq_eq: "deq x y \<Longrightarrow> 1 \<le> y \<Longrightarrow> x = y"
  by (cases x; cases y) (auto simp: one_double_def deq_iff)

definition below :: "double list \<Rightarrow> double \<Rightarrow> nat" where
  \<comment> \<open>the number of points below \<open>x\<close>\<close>
  "below xs x = length (filter (\<lambda>y. y < x) xs)"

lemma first_block:
  assumes "sorted_doubles (x # xs)" "\<forall>y \<in> set (x # xs). 1 \<le> y"
  defines "k \<equiv> length (takeWhile (\<lambda>y. deq y x) xs)" and "rest \<equiv> dropWhile (\<lambda>y. deq y x) xs"
  shows "takeWhile (\<lambda>y. deq y x) xs = replicate k x" "\<And>y. y \<in> set rest \<Longrightarrow> x < y"
    "below (x # xs) x = 0" "\<And>y. y \<in> set rest \<Longrightarrow> below (x # xs) y = 1 + k + below rest y" "sorted_doubles rest"
    "set (x # xs) = insert x (set rest)"
proof -
  have split: "xs = takeWhile (\<lambda>y. deq y x) xs @ rest" by (simp add: rest_def)
  have le: "\<forall>y \<in> set xs. x \<le> y" and nan: "\<forall>y \<in> set (x # xs). y \<noteq> NaN"
    using assms(1) by (auto simp: sorted_doubles_def no_nan_def)
  show t: "takeWhile (\<lambda>y. deq y x) xs = replicate k x"
    using assms(2) deq_eq [of _ x] unfolding k_def
    by (intro replicate_length_same [symmetric]) (auto dest: set_takeWhileD)
  show s: "sorted_doubles rest"
    using assms(1) sorted_wrt_dropWhile [of "(\<le>)" xs "\<lambda>y. deq y x"] set_dropWhileD
    unfolding rest_def by (fastforce simp: sorted_doubles_def no_nan_def)
  show r: "x < y" if "y \<in> set rest" for y
  proof (cases rest)
    case Nil
    with that show ?thesis by simp
  next
    case (Cons z zs)
    have "\<not> deq z x" using hd_dropWhile [of "\<lambda>y. deq y x" xs] Cons unfolding rest_def by simp
    moreover have "x \<le> z" using le split Cons by (metis in_set_conv_decomp)
    ultimately have "x < z" by (auto simp: dless_iff deq_iff)
    moreover have "z \<le> y" using s that Cons by (auto simp: sorted_doubles_def no_nan_def)
    ultimately show ?thesis using dless_le_trans by blast
  qed
  show "below (x # xs) x = 0" using le by (auto simp: below_def dless_iff filter_empty_conv)
  show "below (x # xs) y = 1 + k + below rest y" if "y \<in> set rest" for y
    using r [OF that] by (subst split, subst t) (simp add: below_def)
  show "set (x # xs) = insert x (set rest)" by (subst split, subst t) auto
qed

lemma ks_discrete_loop_max:
  assumes "ks_discrete_loop gap xs m D = Inr D'" "sorted_doubles xs" "\<forall>x \<in> set xs. 1 \<le> x" "D \<noteq> NaN"
  shows "D' \<noteq> NaN \<and> \<not> D' < D \<and> (D' = D \<or> (\<exists>x \<in> set xs. gap (m + below xs x) x = Inr D')) \<and>
    (\<forall>x \<in> set xs. \<exists>d. gap (m + below xs x) x = Inr d \<and> \<not> D' < d)"
  using assms
proof (induction gap xs m D rule: ks_discrete_loop.induct)
  case (2 gap x xs m D)
  let ?rest = "dropWhile (\<lambda>y. deq y x) xs" and ?k = "length (takeWhile (\<lambda>y. deq y x) xs)"
  obtain d where d: "gap m x = Inr d" and l: "ks_discrete_loop gap ?rest (m + 1 + ?k) (if D < d then d else D) = Inr D'"
    using 2(2) by (auto simp: plfit_check_eq_Inr)
  note b = first_block [OF 2(3,4)]
  have "\<forall>y \<in> set ?rest. 1 \<le> y" "(if D < d then d else D) \<noteq> NaN"
    using 2(4,5) set_dropWhileD [of _ "\<lambda>y. deq y x" xs] dless_not_nan [of D d] by auto
  from 2(1) [OF d l b(5) this] have *: "D' \<noteq> NaN" "\<not> D' < (if D < d then d else D)"
    "D' = (if D < d then d else D) \<or> (\<exists>y \<in> set ?rest. gap (m + 1 + ?k + below ?rest y) y = Inr D')"
    "\<forall>y \<in> set ?rest. \<exists>d. gap (m + 1 + ?k + below ?rest y) y = Inr d \<and> \<not> D' < d" by blast+
  have e: "m + 1 + ?k + below ?rest y = m + below (x # xs) y" if "y \<in> set ?rest" for y
    using b(4) [OF that] by simp
  have r: "D' = (if D < d then d else D) \<or> (\<exists>y \<in> set ?rest. gap (m + below (x # xs) y) y = Inr D')"
    "\<forall>y \<in> set ?rest. \<exists>d. gap (m + below (x # xs) y) y = Inr d \<and> \<not> D' < d"
    using *(3,4) by (simp_all only: e simp_thms ball_triv cong: bex_cong ball_cong)
  have "\<not> D' < D" using *(2) dless_trans [of D' D d] by (auto split: if_splits)
  moreover have "\<not> D' < d"
  proof
    assume lt: "D' < d"
    then have "\<not> D < d" using *(2) by (auto split: if_splits)
    then have "d \<le> D" using 2(5) lt dless_not_nan [OF lt] dnot_less [of D d] by simp
    with lt have "D' < D" using dless_le_trans by blast
    with \<open>\<not> D' < D\<close> show False by contradiction
  qed
  moreover have "gap (m + below (x # xs) x) x = Inr d" using d b(3) by simp
  moreover have "D' = D \<or> (\<exists>y \<in> set (x # xs). gap (m + below (x # xs) y) y = Inr D')"
    using r(1) calculation(3) b(6) by (auto split: if_splits)
  moreover have "\<forall>y \<in> set (x # xs). \<exists>d. gap (m + below (x # xs) y) y = Inr d \<and> \<not> D' < d"
    using r(2) calculation(2,3) unfolding b(6) by auto
  ultimately show ?case using *(1) by blast
qed simp

lemma below_sorted: "below xs x = count_smaller xs x"
  by (simp add: below_def count_smaller_eq)

lemma ks_discrete_loop_total:
  "(\<And>m x. x \<in> set xs \<Longrightarrow> \<exists>d. gap m x = Inr d) \<Longrightarrow> \<exists>D'. ks_discrete_loop gap xs m D = Inr D'"
proof (induction gap xs m D rule: ks_discrete_loop.induct)
  case (2 gap x xs m D)
  obtain d where d: "gap m x = Inr d" using 2(2) [of x m] by auto
  have "\<exists>d. gap k y = Inr d" if "y \<in> set (dropWhile (\<lambda>y. deq y x) xs)" for k y
    using 2(2) [of y k] set_dropWhileD [OF that] by simp
  from 2(1) [OF d this] show ?case using d by simp
qed simp

lemma ks_test_discrete_total:
  assumes "\<not> alpha \<le> 1" "\<not> xmin < 1" "\<forall>x \<in> set xs. \<not> x < 1"
  shows "\<exists>D. plfit_i_ks_test_discrete L xs alpha xmin = Inr D"
proof -
  obtain l where "hsl_sf_lnhzeta L alpha xmin = Inr l"
    using lnhzeta_defined [OF assms(1) not_less_one [OF assms(2)]] by blast
  moreover have "\<exists>d. ks_distance_discrete L alpha l n m x = Inr d" if "x \<in> set xs" for n m x
    using lnhzeta_defined [OF assms(1) not_less_one, of x L] assms(3) that by (auto simp: ks_distance_discrete_def)
  ultimately show ?thesis unfolding plfit_i_ks_test_discrete_def
    using ks_discrete_loop_total [of xs "ks_distance_discrete L alpha l (double_of_nat (length xs))" 0 0] by simp
qed

text \<open>
  C26. The Kolmogorov-Smirnov distance of a discrete fit to a sorted sample of values from 1 on: for
  every \<open>xmin\<close> not below 1 and every exponent that is not at most 1 it is computed without leaving
  the domain of the zeta function; it is never NaN, is 0 or the gap at a value of the sample, and
  no gap at a value exceeds it, where the gap at \<open>x\<close> lies between the fitted distribution and the
  share of the points below \<open>x\<close>.
\<close>

theorem plfit_i_ks_test_discrete_max:
  assumes "sorted_doubles xs" "list_all (\<lambda>x. 1 \<le> x) xs" "\<not> alpha \<le> 1" "\<not> xmin < 1"
  shows "\<exists>D lnhzeta. plfit_i_ks_test_discrete L xs alpha xmin = Inr D \<and> hsl_sf_lnhzeta L alpha xmin = Inr lnhzeta \<and>
    \<not> isnan D \<and>
    (let gap = (\<lambda>x. plfit_check (hsl_sf_lnhzeta L alpha x) (\<lambda>l.
          Inr \<bar>c_expm1 L (l - lnhzeta) + double_of_nat (count_smaller xs x) / double_of_nat (length xs)\<bar>))
     in (D = 0 \<or> Inr D \<in> gap ` set xs) \<and> list_all (\<lambda>x. \<exists>d. gap x = Inr d \<and> \<not> D < d) xs)"
proof -
  have "\<forall>x \<in> set xs. 1 \<le> x" using assms(2) by (simp add: list_all_iff)
  moreover from this have "\<forall>x \<in> set xs. \<not> x < 1" by (auto simp: dless_iff)
  moreover obtain l where l: "hsl_sf_lnhzeta L alpha xmin = Inr l"
    using lnhzeta_defined [OF assms(3) not_less_one [OF assms(4)]] by blast
  moreover obtain D where D: "plfit_i_ks_test_discrete L xs alpha xmin = Inr D"
    using ks_test_discrete_total [OF assms(3,4)] calculation(2) by blast
  moreover have "ks_discrete_loop (ks_distance_discrete L alpha l (double_of_nat (length xs))) xs 0 0 = Inr D"
    using D l by (simp add: plfit_i_ks_test_discrete_def)
  from ks_discrete_loop_max [OF this assms(1) calculation(1)]
  have "D \<noteq> NaN" "D = 0 \<or> (\<exists>x \<in> set xs. ks_distance_discrete L alpha l (double_of_nat (length xs)) (count_smaller xs x) x = Inr D)"
    "\<forall>x \<in> set xs. \<exists>d. ks_distance_discrete L alpha l (double_of_nat (length xs)) (count_smaller xs x) x = Inr d \<and> \<not> D < d"
    by (simp_all add: below_sorted)
  moreover define gap where "gap = (\<lambda>x. plfit_check (hsl_sf_lnhzeta L alpha x) (\<lambda>la.
      Inr \<bar>c_expm1 L (la - l) + double_of_nat (count_smaller xs x) / double_of_nat (length xs)\<bar>))"
  moreover have "gap x = ks_distance_discrete L alpha l (double_of_nat (length xs)) (count_smaller xs x) x" for x
    by (simp add: gap_def ks_distance_discrete_def)
  ultimately have "\<not> isnan D" "D = 0 \<or> Inr D \<in> gap ` set xs" "list_all (\<lambda>x. \<exists>d. gap x = Inr d \<and> \<not> D < d) xs"
    by (auto simp: list_all_iff image_iff) metis+
  then show ?thesis using D l unfolding Let_def gap_def by blast
qed

theorem plfit_i_ks_test_discrete_max_witness:
  "\<exists>D. plfit_i_ks_test_discrete zero_clib [Fin 1, Fin 2, Fin 2] (Fin 3) (Fin 1) = Inr D \<and> \<not> isnan D"
proof -
  have "sorted_doubles [Fin 1, Fin 2, Fin 2]" "list_all (\<lambda>x. 1 \<le> x) [Fin 1, Fin 2, Fin 2]" "\<not> Fin 3 \<le> 1" "\<not> Fin 1 < 1"
    by (simp_all add: sorted_doubles_def no_nan_def one_double_def)
  from plfit_i_ks_test_discrete_max [OF this, of zero_clib] show ?thesis by blast
qed

end
