(* ===== verification/Discrete_Search.thy ===== *)
theory Discrete_Search
  imports Discrete_P
begin

text \<open>
  The search of \<open>plfit_discrete\<close> for the \<open>xmin\<close> with the least distance: which points of the
  sorted sample are candidates, that the result is the best of them, and that the search never
  leaves the sample.
\<close>

subsection \<open>The candidates\<close>

definition block_start :: "double list \<Rightarrow> nat \<Rightarrow> bool" where
  \<comment> \<open>the first element with its value\<close>
  "block_start data i \<longleftrightarrow> i < length data \<and> (i = 0 \<or> data ! (i - 1) < data ! i)"

lemma back_over_spec:
  "back_over data px p e \<le> e \<and> (back_over data px p e \<le> px \<or> \<not> deq (data ! back_over data px p e) p) \<and>
   (\<forall>i. back_over data px p e < i \<and> i \<le> e \<longrightarrow> deq (data ! i) p)"
  by (induction e) (auto simp: le_Suc_eq)

lemma skip_equal_spec:
  "(\<forall>i. px \<le> i \<and> i < skip_equal data endx p px \<longrightarrow> i < endx \<and> deq (data ! i) p) \<and>
   (skip_equal data endx p px < endx \<longrightarrow> \<not> deq (data ! skip_equal data endx p px) p)"
proof (induction data endx p px rule: skip_equal.induct)
  case (1 data endx p px)
  show ?case
  proof (cases "px < endx \<and> deq (data ! px) p")
    case True
    have e: "skip_equal data endx p px = skip_equal data endx p (Suc px)" using True by (subst skip_equal.simps) simp
    have "i = px \<or> Suc px \<le> i" if "px \<le> i" for i using that by linarith
    with 1 [OF True] True show ?thesis unfolding e by blast
  next
    case False
    then have "skip_equal data endx p px = px" by (subst skip_equal.simps) (rule if_not_P)
    with False show ?thesis by auto
  qed
qed

lemma sorted_step:
  assumes "sorted_doubles data" "Suc i < length data" "\<not> deq (data ! i) (data ! Suc i)"
  shows "data ! i < data ! Suc i"
  using sorted_doubles_nth [OF assms(1), of i "Suc i"] assms(2,3) by (auto simp: dless_iff deq_iff)

text \<open>From \<open>first_px\<close> on the data are at least 1.\<close>

lemma first_px_split:
  assumes "sorted_doubles data" "i < length data"
  shows "first_px data \<le> i \<longleftrightarrow> 1 \<le> data ! i"
proof -
  have nan: "data ! j \<noteq> NaN" if "j < length data" for j
    using assms(1) that by (metis nth_mem no_nan_def sorted_doubles_def)
  show ?thesis
  proof
    assume le: "first_px data \<le> i"
    then have "first_px data < length data" using assms(2) by simp
    then have "\<not> data ! first_px data < 1" unfolding first_px_def by (rule nth_length_takeWhile)
    then have "1 \<le> data ! first_px data" using nan [OF \<open>first_px data < length data\<close>] dnot_less [of "data ! first_px data" 1] by simp
    then show "1 \<le> data ! i" using sorted_doubles_nth [OF assms(1) le assms(2)] dle_trans by blast
  next
    assume "1 \<le> data ! i"
    then have "\<not> data ! i < 1" by (simp add: dless_iff)
    then show "first_px data \<le> i"
      unfolding first_px_def by (metis (no_types) leI nth_mem set_takeWhileD takeWhile_nth)
  qed
qed

lemma first_px_start:
  assumes "sorted_doubles data" "first_px data < length data"
  shows "block_start data (first_px data)"
proof (cases "first_px data")
  case (Suc i)
  have "\<not> 1 \<le> data ! i" using first_px_split [OF assms(1), of i] assms(2) Suc by simp
  moreover have "1 \<le> data ! Suc i" using first_px_split [OF assms(1,2)] Suc by simp
  moreover have "data ! i \<le> data ! Suc i" using sorted_doubles_nth [OF assms(1), of i "Suc i"] assms(2) Suc by simp
  ultimately have "data ! i < data ! Suc i" using dle_trans by (auto simp: dless_iff)
  then show ?thesis using Suc assms(2) by (simp add: block_start_def)
qed (use assms in \<open>simp add: block_start_def\<close>)

text \<open>
  Where the candidates end: at a value's first element unless they end at once, and behind every
  element that has two greater values after it.
\<close>

lemma end_xmin_spec:
  assumes "sorted_doubles data" "data \<noteq> []"
  shows "end_xmin data \<le> length data"
    "first_px data + 1 < end_xmin data \<Longrightarrow> end_xmin data < length data \<and> block_start data (end_xmin data)"
    "first_px data \<le> i \<Longrightarrow> data ! i < data ! j \<Longrightarrow> data ! j < data ! k \<Longrightarrow> i < length data \<Longrightarrow> j < length data \<Longrightarrow>
      k < length data \<Longrightarrow> i < end_xmin data"
proof -
  let ?px = "first_px data" and ?n = "length data"
  define e1 where "e1 = back_over data ?px (data ! (?n - 1)) (?n - 1)"
  define e2 where "e2 = back_over data ?px (data ! e1) e1"
  have e: "end_xmin data = e2 + 1" by (simp add: end_xmin_def Let_def e1_def e2_def)
  have s1: "e1 \<le> ?n - 1" "e1 \<le> ?px \<or> \<not> deq (data ! e1) (data ! (?n - 1))"
    "\<And>i. e1 < i \<Longrightarrow> i \<le> ?n - 1 \<Longrightarrow> deq (data ! i) (data ! (?n - 1))"
    using back_over_spec [of data ?px "data ! (?n - 1)" "?n - 1"] unfolding e1_def by auto
  have s2: "e2 \<le> e1" "e2 \<le> ?px \<or> \<not> deq (data ! e2) (data ! e1)" "\<And>i. e2 < i \<Longrightarrow> i \<le> e1 \<Longrightarrow> deq (data ! i) (data ! e1)"
    using back_over_spec [of data ?px "data ! e1" e1] unfolding e2_def by auto
  have n: "0 < ?n" using assms(2) by simp
  show "end_xmin data \<le> ?n" using e s1(1) s2(1) n by linarith
  have refl: "deq (data ! i) (data ! i)" if "i < ?n" for i
    using assms(1) that by (metis deq_refl isnan_iff nth_mem no_nan_def sorted_doubles_def)
  show "end_xmin data < ?n \<and> block_start data (end_xmin data)" if "?px + 1 < end_xmin data"
  proof -
    have "\<not> e2 \<le> ?px" using that e by simp
    then have ne: "\<not> deq (data ! e2) (data ! e1)" using s2(2) by blast
    then have lt: "e2 < e1" using s2(1) refl [of e1] s1(1) n by (metis le_neq_implies_less less_le_trans diff_less zero_less_one le_less_trans)
    then have "deq (data ! Suc e2) (data ! e1)" using s2(3) [of "Suc e2"] by simp
    then have "\<not> deq (data ! e2) (data ! Suc e2)" using ne deq_trans by blast
    from sorted_step [OF assms(1) _ this] lt s1(1) n show ?thesis unfolding e block_start_def by auto
  qed
  show "i < end_xmin data" if h: "?px \<le> i" "data ! i < data ! j" "data ! j < data ! k" "i < ?n" "j < ?n" "k < ?n"
  proof (rule ccontr)
    assume "\<not> i < end_xmin data"
    then have i: "e2 < i" using e by simp
    have max: "data ! k \<le> data ! (?n - 1)" using sorted_doubles_nth [OF assms(1), of k "?n - 1"] h(6) by simp
    have top: "\<not> deq (data ! l) (data ! (?n - 1))" if "data ! l < data ! k" for l
      using max that dle_trans by (auto simp: deq_iff dless_iff)
    have "data ! i < data ! k" using h(2,3) dless_trans by blast
    then have "i \<le> e1" using top s1(3) [of i] h(4) by fastforce
    then have eq: "deq (data ! i) (data ! e1)" using s2(3) i by blast
    have "j \<le> e1" using top [OF h(3)] s1(3) [of j] h(5) by fastforce
    moreover have "e1 < ?n" using s1(1) n by linarith
    ultimately have "data ! j \<le> data ! e1" by (rule sorted_doubles_nth [OF assms(1)])
    then have "data ! j \<le> data ! i" using eq dle_trans by (auto simp: deq_iff)
    with h(2) show False by (simp add: dless_iff)
  qed
qed

subsection \<open>The search\<close>

text \<open>
  Where the outer loop stands: at the first candidate, or behind an element whose value is
  \<open>prev_x\<close>.
\<close>

definition at_px :: "double list \<Rightarrow> nat \<Rightarrow> double \<Rightarrow> bool" where
  "at_px data px p \<longleftrightarrow>
     px = first_px data \<and> p = 0 \<or> first_px data < px \<and> px \<le> length data \<and> p = data ! (px - 1)"

lemma skip_to_start:
  assumes "sorted_doubles data" "data \<noteq> []" "at_px data px p" "px < end_xmin data"
  defines "q \<equiv> skip_equal data (end_xmin data) p px"
  shows "px \<le> q" "block_start data q" "first_px data \<le> q" "q \<le> end_xmin data"
    "\<And>i. px \<le> i \<Longrightarrow> i < q \<Longrightarrow> \<not> block_start data i"
proof -
  have sp: "\<And>i. px \<le> i \<Longrightarrow> i < q \<Longrightarrow> i < end_xmin data \<and> deq (data ! i) p"
    "q < end_xmin data \<Longrightarrow> \<not> deq (data ! q) p"
    using skip_equal_spec [of px data "end_xmin data" p] unfolding q_def by blast+
  show ge: "px \<le> q" unfolding q_def by (rule skip_equal_ge)
  have len: "end_xmin data \<le> length data" by (rule end_xmin_spec(1) [OF assms(1,2)])
  show le: "q \<le> end_xmin data"
  proof (cases "q = px")
    case False
    then have "px \<le> q - 1" "q - 1 < q" using ge by simp_all
    from sp(1) [OF this] show ?thesis by linarith
  qed (use assms(4) in simp)
  show f: "first_px data \<le> q" using ge assms(3) by (auto simp: at_px_def)
  have main: "block_start data q \<and> (\<forall>i. px \<le> i \<and> i < q \<longrightarrow> \<not> block_start data i)"
  proof (cases "px = first_px data \<and> p = 0")
    case True
    have px: "px < length data" using assms(4) len by linarith
    then have "1 \<le> data ! px" using first_px_split [OF assms(1) px] True by simp
    then have "\<not> deq (data ! px) p" using True by (cases "data ! px") (auto simp: one_double_def zero_double_def deq_iff)
    then have "q = px" unfolding q_def by (subst skip_equal.simps) simp
    then show ?thesis using first_px_start [OF assms(1)] px True by auto
  next
    case False
    with assms(3) have px: "first_px data < px" "p = data ! (px - 1)" by (auto simp: at_px_def)
    have eq: "deq (data ! i) p" if "px - 1 \<le> i" "i < q" for i
    proof (cases "i = px - 1")
      case True
      have "px - 1 < length data" using assms(4) len by linarith
      then show ?thesis using True px(2) assms(1) by (metis deq_refl isnan_iff nth_mem no_nan_def sorted_doubles_def)
    qed (use that sp(1) in simp)
    have "\<not> block_start data i" if "px \<le> i" "i < q" for i
    proof -
      have "deq (data ! i) p" "deq (data ! (i - 1)) p" using eq [of i] eq [of "i - 1"] that px(1) by simp_all
      then have "data ! i \<le> data ! (i - 1)" using dle_trans by (auto simp: deq_iff)
      then show ?thesis using that px(1) by (auto simp: block_start_def dless_iff)
    qed
    moreover have "block_start data q"
    proof (cases "q < end_xmin data")
      case True
      have "deq (data ! (q - 1)) p" using eq [of "q - 1"] ge px(1) by simp
      then have "\<not> deq (data ! (q - 1)) (data ! q)" using sp(2) [OF True] deq_trans deq_sym by blast
      then show ?thesis using sorted_step [OF assms(1), of "q - 1"] ge px(1) True len by (simp add: block_start_def)
    next
      case False
      then have "q = end_xmin data" using le by simp
      moreover have "first_px data + 1 < end_xmin data" using px(1) assms(4) by linarith
      ultimately show ?thesis using end_xmin_spec(2) [OF assms(1,2)] by simp
    qed
    ultimately show ?thesis by blast
  qed
  then show "block_start data q" ..
  show "\<not> block_start data i" if "px \<le> i" "i < q" for i using main that by blast
qed

text \<open>The result is the best candidate, and every first element in the range was one.\<close>

definition best_from ::
  "(nat \<Rightarrow> plfit_result_t result) \<Rightarrow> double list \<Rightarrow> nat \<Rightarrow> plfit_result_t \<times> nat \<Rightarrow> plfit_result_t \<times> nat \<Rightarrow> bool" where
  "best_from cand data px b0 b \<longleftrightarrow>
     (b = b0 \<or> (\<exists>i. px \<le> i \<and> block_start data i \<and> cand i = Inr (fst b) \<and> snd b = length data - i)) \<and>
     \<not> res_D (fst b0) < res_D (fst b) \<and> res_D (fst b) \<noteq> NaN \<and>
     (\<forall>i. px \<le> i \<and> i < end_xmin data \<and> block_start data i \<longrightarrow> (\<exists>r. cand i = Inr r \<and> \<not> res_D r < res_D (fst b)))"

lemma better_step:
  fixes r :: plfit_result_t and k :: nat and b b0 :: "plfit_result_t \<times> nat"
  assumes "res_D (fst b0) \<noteq> NaN"
  defines "b1 \<equiv> if res_D r < res_D (fst b0) then (r, k) else b0"
  shows "res_D (fst b1) \<noteq> NaN"
    "\<not> res_D (fst b1) < res_D (fst b) \<Longrightarrow> \<not> res_D r < res_D (fst b)"
    "\<not> res_D (fst b1) < res_D (fst b) \<Longrightarrow> \<not> res_D (fst b0) < res_D (fst b)"
proof -
  show "res_D (fst b1) \<noteq> NaN" using assms dless_not_nan [of "res_D r" "res_D (fst b0)"] by (auto simp: b1_def)
  show "\<not> res_D r < res_D (fst b)" if "\<not> res_D (fst b1) < res_D (fst b)"
  proof (cases "res_D r < res_D (fst b0)")
    case False
    show ?thesis
    proof
      assume lt: "res_D r < res_D (fst b)"
      then have "res_D (fst b0) \<le> res_D r"
        using False assms dless_not_nan [OF lt] dnot_less [of "res_D r" "res_D (fst b0)"] by simp
      with lt that False show False using dle_less_trans by (auto simp: b1_def)
    qed
  qed (use that in \<open>simp add: b1_def\<close>)
  show "\<not> res_D (fst b0) < res_D (fst b)" if "\<not> res_D (fst b1) < res_D (fst b)"
    using that dless_trans [of "res_D r" "res_D (fst b0)" "res_D (fst b)"] by (auto simp: b1_def split: if_splits)
qed

lemma discrete_search_best:
  assumes "discrete_search cand data (end_xmin data) px p b0 = Inr b" "sorted_doubles data" "data \<noteq> []"
    "at_px data px p" "res_D (fst b0) \<noteq> NaN"
  shows "best_from cand data px b0 b"
  using assms
proof (induction cand data "end_xmin data" px p b0 rule: discrete_search.induct)
  case (1 cand data px p b0)
  show ?case
  proof (cases "px < end_xmin data")
    case False
    then have "b = b0" using 1(2) by (subst (asm) discrete_search.simps) simp
    with False 1(6) show ?thesis by (auto simp: best_from_def dless_iff)
  next
    case True
    let ?q = "skip_equal data (end_xmin data) p px"
    from 1(2) True obtain r where r: "cand ?q = Inr r"
      and rec: "discrete_search cand data (end_xmin data) (Suc ?q) (data ! ?q)
        (if res_D r < res_D (fst b0) then (r, length data - ?q) else b0) = Inr b"
      by (subst (asm) discrete_search.simps) (auto simp: Let_def plfit_check_eq_Inr)
    let ?b1 = "if res_D r < res_D (fst b0) then (r, length data - ?q) else b0"
    note q = skip_to_start [OF 1(3,4,5) True]
    have at: "at_px data (Suc ?q) (data ! ?q)" using q(2,3) by (simp add: at_px_def block_start_def)
    have "\<not> \<not> px < end_xmin data" using True by simp
    from 1(1) [OF this refl r rec 1(3,4) at better_step(1) [OF 1(6)]]
    have rest: "best_from cand data (Suc ?q) ?b1 b" .
    have D: "\<not> res_D r < res_D (fst b)" "\<not> res_D (fst b0) < res_D (fst b)"
      using better_step(2,3) [OF 1(6), of r "length data - ?q" b] rest by (simp_all add: best_from_def)
    have "b = b0 \<or> (\<exists>i. px \<le> i \<and> block_start data i \<and> cand i = Inr (fst b) \<and> snd b = length data - i)"
    proof (cases "b = ?b1")
      case True
      then show ?thesis using r q(1,2) by (auto split: if_splits)
    next
      case False
      with rest obtain i where "Suc ?q \<le> i" "block_start data i" "cand i = Inr (fst b)" "snd b = length data - i"
        unfolding best_from_def by blast
      then show ?thesis using q(1) by (intro disjI2 exI [of _ i]) simp
    qed
    moreover have "\<exists>r. cand i = Inr r \<and> \<not> res_D r < res_D (fst b)"
      if i: "px \<le> i" "i < end_xmin data" "block_start data i" for i
    proof -
      consider "i < ?q" | "i = ?q" | "Suc ?q \<le> i" by linarith
      then show ?thesis
      proof cases
        case 1
        with q(5) i show ?thesis by blast
      next
        case 2
        with r D(1) show ?thesis by blast
      next
        case 3
        with rest i show ?thesis unfolding best_from_def by blast
      qed
    qed
    ultimately show ?thesis using D(2) rest unfolding best_from_def by blast
  qed
qed

lemma discrete_search_stops:
  assumes "discrete_search cand data (end_xmin data) px p b0 = Inl s" "sorted_doubles data" "data \<noteq> []" "at_px data px p"
  shows "\<exists>q. first_px data \<le> q \<and> block_start data q \<and> cand q = Inl s"
  using assms
proof (induction cand data "end_xmin data" px p b0 rule: discrete_search.induct)
  case (1 cand data px p b0)
  then have True: "px < end_xmin data" by (subst (asm) discrete_search.simps) (simp split: if_splits)
  let ?q = "skip_equal data (end_xmin data) p px"
  note q = skip_to_start [OF 1(3,4,5) True]
  show ?case
  proof (cases "cand ?q")
    case (Inl e)
    then have "e = s" using 1(2) True by (subst (asm) discrete_search.simps) (simp add: Let_def)
    with Inl q(2,3) show ?thesis by blast
  next
    case (Inr r)
    with 1(2) True have rec: "discrete_search cand data (end_xmin data) (Suc ?q) (data ! ?q)
        (if res_D r < res_D (fst b0) then (r, length data - ?q) else b0) = Inl s"
      by (subst (asm) discrete_search.simps) (simp add: Let_def)
    have at: "at_px data (Suc ?q) (data ! ?q)" using q(2,3) by (simp add: at_px_def block_start_def)
    have "\<not> \<not> px < end_xmin data" using True by simp
    from 1(1) [OF this refl Inr rec 1(3,4) at] show ?thesis .
  qed
qed

lemma at_px_first: "at_px data (first_px data) 0"
  by (simp add: at_px_def)

subsection \<open>The fit with the least distance\<close>

lemma candidate_xmin: "candidate L fuel options data i = Inr c \<Longrightarrow> res_xmin c = data ! i \<and> i < length data"
  by (auto simp: candidate_def plfit_check_eq_Inr array_get_eq_Inr Let_def)

lemma report_check_eq_Fitted:
  "report_check r D k = Inr (Fitted x) \<longleftrightarrow> (\<exists>y. r = Inr y \<and> k y = Inr (Fitted x))"
  by (auto simp: report_check_def split: sum.splits stop.splits)

lemma corrected_simps [simp]:
  "res_xmin (corrected options r k) = res_xmin r" "res_D (corrected options r k) = res_D r"
  "\<not> do_finite_size_correction options \<Longrightarrow> corrected options r k = r"
  by (simp_all add: corrected_def plfit_i_perform_finite_size_correction_def)

text \<open>
  C2. When \<open>plfit_discrete\<close> fits a sample without NaN, the \<open>xmin\<close> it reports is the first
  element of its value in the sorted sample and at least 1, exponent and distance are those of
  the points from there on, the likelihood is that of these points, and no value with two
  greater values in the sample has a smaller distance. Only with the correction for finite
  sizes there is another outcome: the initial \<open>xmin\<close> of 1 with the distance \<open>DBL_MAX\<close>.
\<close>

theorem fit_discrete_least_distance:
  assumes "fit_discrete L fuel options xs = Inr (Fitted r)" "NaN \<notin> set xs"
  defines "data \<equiv> qsort double_comparator xs"
  shows "(\<exists>i c. block_start data i \<and> 1 \<le> data ! i \<and> candidate L fuel options data i = Inr c \<and>
      res_xmin r = data ! i \<and> res_D r = res_D c \<and> res_alpha r = res_alpha (corrected options c (length data - i)) \<and>
      plfit_log_likelihood_discrete L (drop i data) (res_alpha r) (res_xmin r) = Inr (res_L r) \<and>
      (\<forall>i j k. block_start data i \<and> 1 \<le> data ! i \<and> j < length data \<and> k < length data \<and>
         data ! i < data ! j \<and> data ! j < data ! k \<longrightarrow>
         (\<exists>c. candidate L fuel options data i = Inr c \<and> \<not> res_D c < res_D r))) \<or>
    do_finite_size_correction options \<and> res_xmin r = 1 \<and> res_D r = DBL_MAX"
proof -
  have s: "sorted_doubles data" unfolding data_def by (rule sorted_doubles_qsort) (use assms(2) in \<open>simp add: no_nan_def\<close>)
  have xs: "\<not> (xs = [] \<or> bad_scan options)" using assms(1) unfolding fit_discrete_def by (auto split: if_splits)
  have ne: "data \<noteq> []" unfolding data_def using xs by (metis length_qsort length_0_conv)
  have "report_check (plfit_i_copy_and_sort L xs) None (discrete_core L fuel options) = Inr (Fitted r)"
    using assms(1) unfolding fit_discrete_def if_not_P [OF xs] .
  then have core: "discrete_core L fuel options data = Inr (Fitted r)"
    unfolding report_check_eq_Fitted plfit_i_copy_and_sort_def with_alloc_def data_def by (auto split: if_splits)
  let ?cand = "candidate L fuel options data"
  obtain b l where search: "discrete_search ?cand data (end_xmin data) (first_px data) 0 (initial_best, 0) = Inr b"
    and l: "plfit_log_likelihood_discrete L (drop (length data - snd b) data) (res_alpha (corrected options (fst b) (snd b)))
      (res_xmin (fst b)) = Inr l" and r: "r = (corrected options (fst b) (snd b))\<lparr>res_L := l\<rparr>"
    using core by (auto simp: discrete_core_def report_check_eq_Fitted Let_def)
  have "res_D (fst (initial_best, 0 :: nat)) \<noteq> NaN" by (simp add: initial_best_def DBL_MAX_not_nan)
  from discrete_search_best [OF search s ne at_px_first this] have best: "best_from ?cand data (first_px data) (initial_best, 0) b" .
  have all: "\<exists>c. ?cand i = Inr c \<and> \<not> res_D c < res_D r"
    if "block_start data i" "1 \<le> data ! i" "j < length data" "k < length data" "data ! i < data ! j" "data ! j < data ! k" for i j k
  proof -
    have i: "i < length data" using that(1) by (simp add: block_start_def)
    have "first_px data \<le> i" using first_px_split [OF s i] that(2) by simp
    then have "i < end_xmin data" using end_xmin_spec(3) [OF s ne] that i by blast
    with best \<open>first_px data \<le> i\<close> that(1) show ?thesis unfolding best_from_def r by simp
  qed
  show ?thesis
  proof (cases "b = (initial_best, 0)")
    case True
    have "\<not> res_alpha (corrected options initial_best 0) \<le> 1"
      using l True by (auto simp: plfit_log_likelihood_discrete_def split: if_splits)
    then have "do_finite_size_correction options" by (rule contrapos_np) (simp add: initial_best_def)
    with r True show ?thesis by (simp add: initial_best_def)
  next
    case False
    with best obtain i where i: "first_px data \<le> i" "block_start data i" "?cand i = Inr (fst b)" "snd b = length data - i"
      unfolding best_from_def by blast
    then have "i < length data" by (simp add: block_start_def)
    then have "1 \<le> data ! i" "length data - snd b = i" "res_xmin r = data ! i"
      using first_px_split [OF s, of i] i candidate_xmin [OF i(3)] r by simp_all
    with i l r all show ?thesis by (intro disjI1 exI [of _ i] exI [of _ "fst b"]) (auto simp: candidate_xmin)
  qed
qed

text \<open>A sample and a grid of one point each, and a library whose \<open>expm1\<close> is zero.\<close>

definition one_point :: plfit_discrete_options_t where
  "one_point = plfit_discrete_default_options\<lparr>do_alpha_method := PLFIT_LINEAR_SCAN, do_alpha_min := Fin 2,
     do_alpha_max := Fin 2, do_alpha_step := Fin 1, do_p_value_method := PLFIT_P_VALUE_SKIP\<rparr>"

definition flat_clib :: clib where
  "flat_clib = zero_clib\<lparr>c_expm1 := \<lambda>x. 0\<rparr>"

lemma one_point_options:
  "do_alpha_method one_point = PLFIT_LINEAR_SCAN" "do_alpha_min one_point = Fin 2" "do_alpha_max one_point = Fin 2"
  "do_alpha_step one_point = Fin 1" "\<not> do_finite_size_correction one_point"
  by (simp_all add: one_point_def plfit_discrete_default_options_def)

lemma one_point_scan: "\<exists>l. hsl_sf_lnhzeta flat_clib (Fin 2) (Fin 1) = Inr l"
  using lnhzeta_defined [of "Fin 2" "Fin 1" flat_clib] by (auto simp: one_double_def zero_double_def)

lemma one_point_estimate: "plfit_i_estimate_alpha_discrete flat_clib 2 [Fin 1] (Fin 1) one_point True = Inr (Fin 2)"
proof -
  obtain l where l: "hsl_sf_lnhzeta flat_clib (Fin 2) (Fin 1) = Inr l" using one_point_scan by blast
  have g: "\<not> Fin 1 < (1 :: double)" "\<not> bad_grid one_point"
    by (simp_all add: bad_grid_def one_point_options one_double_def zero_double_def)
  have "Fin 2 + Fin 1 = Fin 3" by code_simp
  then have "alpha_scan (grid_likelihood flat_clib s 1 (Fin 1)) (Fin 1) (Fin 2) 2 (Fin 2) (Fin 2) v = Inr (Fin 2)" for s v
    using l by (subst alpha_scan.simps, simp add: grid_likelihood_def numeral_2_eq_2)
      (intro conjI impI; subst alpha_scan.simps; simp)
  then show ?thesis using g
    by (simp add: plfit_i_estimate_alpha_discrete_def plfit_i_estimate_alpha_discrete_linear_scan_def logsum_and_m_def
        one_point_options)
qed

lemma one_point_distance: "plfit_i_ks_test_discrete flat_clib [Fin 1] (Fin 2) (Fin 1) = Inr 0"
proof -
  obtain l where l: "hsl_sf_lnhzeta flat_clib (Fin 2) (Fin 1) = Inr l" using one_point_scan by blast
  have "\<bar>0 + double_of_nat 0 / double_of_nat (Suc 0)\<bar> = 0" by code_simp
  then show ?thesis using l
    by (simp add: plfit_i_ks_test_discrete_def ks_distance_discrete_def flat_clib_def)
qed

lemma one_point_fit: "\<exists>r. fit_discrete flat_clib 2 one_point [Fin 1] = Inr (Fitted r)"
proof -
  obtain l where l: "hsl_sf_lnhzeta flat_clib (Fin 2) (Fin 1) = Inr l" using one_point_scan by blast
  have g: "\<not> bad_scan one_point" "first_px [Fin 1] = 0" "end_xmin [Fin 1] = 1" "skip_equal [Fin 1] (Suc 0) 0 0 = 0"
    "\<not> Fin 2 \<le> (1 :: double)" "\<not> Fin 1 < (1 :: double)" "0 < DBL_MAX"
    by (simp_all add: bad_scan_def bad_grid_def one_point_options first_px_def end_xmin_def skip_equal.simps one_double_def
        zero_double_def deq_iff DBL_MAX_def)
  have c: "candidate flat_clib 2 one_point [Fin 1] 0 =
      Inr \<lparr>res_alpha = Fin 2, res_xmin = Fin 1, res_L = NaN, res_D = 0, res_p = NaN\<rparr>"
    by (simp add: candidate_def one_point_estimate one_point_distance)
  have "discrete_search (candidate flat_clib 2 one_point [Fin 1]) [Fin 1] 1 0 0 (initial_best, 0) =
      Inr (\<lparr>res_alpha = Fin 2, res_xmin = Fin 1, res_L = NaN, res_D = 0, res_p = NaN\<rparr>, 1)"
    by (subst discrete_search.simps) (simp add: g c initial_best_def discrete_search.simps [of _ _ "Suc 0" "Suc 0"])
  moreover have "plfit_i_copy_and_sort flat_clib [Fin 1] = Inr [Fin 1]"
    by (simp add: plfit_i_copy_and_sort_def flat_clib_def zero_clib_def plain_clib_def)
  ultimately show ?thesis using g l one_point_options(5)
    by (simp add: fit_discrete_def report_check_def discrete_core_def plfit_log_likelihood_discrete_def
        plfit_i_logsum_less_than_discrete_def)
qed

theorem fit_discrete_least_distance_witness:
  "\<exists>r c. fit_discrete flat_clib 2 one_point [Fin 1] = Inr (Fitted r) \<and> res_xmin r = Fin 1 \<and>
    candidate flat_clib 2 one_point [Fin 1] 0 = Inr c \<and> res_D r = res_D c"
proof -
  obtain r where r: "fit_discrete flat_clib 2 one_point [Fin 1] = Inr (Fitted r)" using one_point_fit by blast
  from fit_discrete_least_distance [OF r] show ?thesis using r one_point_options(5) by (auto simp: block_start_def)
qed

subsection \<open>No candidate\<close>

lemma no_candidate:
  assumes "data \<noteq> []" "\<forall>x \<in> set data. x < 1"
  shows "discrete_search cand data (end_xmin data) (first_px data) 0 b0 = Inr b0"
proof -
  have "takeWhile (\<lambda>x. x < 1) data = data" using assms(2) by (simp add: takeWhile_eq_all_conv)
  then have px: "first_px data = length data" by (simp only: first_px_def)
  have "back_over data (length data) p e = e" if "e < length data" for p e using that by (cases e) simp_all
  then have "end_xmin data = length data" using assms(1) unfolding end_xmin_def px by simp
  with px show ?thesis by (subst discrete_search.simps) simp
qed

lemma correction_of_nothing: "res_alpha (plfit_i_perform_finite_size_correction initial_best 0) = PInf"
proof -
  have "res_alpha (plfit_i_perform_finite_size_correction initial_best 0) =
      1 * double_of_nat 18446744073709551615 / double_of_nat 0 + 1 / double_of_nat 0"
    by (simp add: plfit_i_perform_finite_size_correction_def initial_best_def)
  also have "\<dots> = PInf"
    unfolding double_of_nat_def of_nat_numeral by code_simp
  finally show ?thesis .
qed

text \<open>
  C27. A nonempty sample whose values all lie below 1 has no candidate. When the grid, if one is
  used, passes its check and the memory for the copy is granted, the fit fails without the
  correction for finite sizes with \<open>PLFIT_EINVAL\<close>; with it the wrapped-around size turns the
  initial exponent of 1 into infinity, which passes the check of the likelihood, and the fit
  succeeds with an infinite exponent and a distance of \<open>DBL_MAX\<close>.
\<close>

theorem fit_discrete_all_below_one:
  assumes "xs \<noteq> []" "list_all (\<lambda>x. x < 1) xs" "c_alloc L (sizeof_double * length xs)" "\<not> bad_scan options"
  shows "if do_finite_size_correction options
    then \<exists>r. fit_discrete L fuel options xs = Inr (Fitted r) \<and> res_alpha r = PInf \<and> res_xmin r = 1 \<and> res_D r = DBL_MAX
    else fit_discrete L fuel options xs = Inr (Failed PLFIT_EINVAL (Some DBL_MAX))"
proof -
  let ?data = "qsort double_comparator xs" and ?r = "corrected options initial_best 0"
  have "?data \<noteq> []" using assms(1) by (metis length_qsort length_0_conv)
  moreover have "\<forall>x \<in> set ?data. x < 1" using assms(2) by (simp add: list_all_iff)
  ultimately have fit: "fit_discrete L fuel options xs =
      report_check (plfit_log_likelihood_discrete L [] (res_alpha ?r) 1) (Some DBL_MAX) (\<lambda>l. Inr (Fitted (?r\<lparr>res_L := l\<rparr>)))"
    using assms no_candidate [of ?data "candidate L fuel options ?data" "(initial_best, 0)"]
    by (simp add: fit_discrete_def discrete_core_def plfit_i_copy_and_sort_def report_check_def initial_best_def Let_def
        cong: sum.case_cong stop.case_cong)
  show ?thesis
  proof (cases "do_finite_size_correction options")
    case False
    then show ?thesis unfolding fit by (simp add: plfit_log_likelihood_discrete_def initial_best_def report_check_def)
  next
    case True
    then have r: "res_alpha ?r = PInf" by (simp add: corrected_def correction_of_nothing)
    have one: "\<not> PInf \<le> 1" "\<not> (1 :: double) < 1" "\<not> (1 :: double) \<le> 0" by (simp_all add: one_double_def zero_double_def)
    obtain l where "hsl_sf_lnhzeta L PInf 1 = Inr l" using lnhzeta_defined [OF one(1,3)] by blast
    then show ?thesis using True one unfolding fit r
      by (simp add: plfit_log_likelihood_discrete_def plfit_i_logsum_less_than_discrete_def report_check_def r)
        (simp add: initial_best_def)
  qed
qed

theorem fit_discrete_all_below_one_witness:
  "\<exists>r. fit_discrete zero_clib 1 (plfit_discrete_default_options\<lparr>do_finite_size_correction := True\<rparr>) [0] = Inr (Fitted r) \<and>
    res_alpha r = PInf"
  using fit_discrete_all_below_one [of "[0]" zero_clib "plfit_discrete_default_options\<lparr>do_finite_size_correction := True\<rparr>" 1]
  by (auto simp: bad_scan_def plfit_discrete_default_options_def zero_clib_def plain_clib_def)

subsection \<open>The scan keeps every fit inside its domain\<close>

definition double_grid :: "plfit_discrete_options_t \<Rightarrow> bool" where
  \<comment> \<open>the bounds and the step of the grid are doubles\<close>
  "double_grid options \<longleftrightarrow> is_double (do_alpha_min options) \<and> is_double (do_alpha_step options)"

lemma linear_scan_above_one:
  assumes "double_grid options" "\<not> xmin < 1" "\<not> bad_grid options"
  shows "plfit_i_estimate_alpha_discrete_linear_scan L fuel xs xmin options is_sorted = Inl Out_of_fuel \<or>
    (\<exists>alpha. plfit_i_estimate_alpha_discrete_linear_scan L fuel xs xmin options is_sorted = Inr alpha \<and> \<not> alpha \<le> 1)"
proof -
  obtain logsum m where lm: "logsum_and_m L xs xmin is_sorted = (logsum, m)" by (cases "logsum_and_m L xs xmin is_sorted")
  let ?lik = "grid_likelihood L logsum m xmin"
  have above: "\<not> ((\<lambda>a. a + do_alpha_step options) ^^ k) (do_alpha_min options) \<le> 1" for k
    using grid_points_above_one [of "do_alpha_min options" "do_alpha_step options" k] assms
    by (auto simp: bad_grid_def double_grid_def)
  have tot: "\<exists>l. ?lik (((\<lambda>a. a + do_alpha_step options) ^^ k) (do_alpha_min options)) = Inr l" for k
    using lnhzeta_defined [OF above [of k] not_less_one [OF assms(2)], of L] by (auto simp: grid_likelihood_def)
  have start: "best_of ?lik [] (do_alpha_min options) (do_alpha_min options) (- DBL_MAX)" by (simp add: best_of_def)
  have nan: "\<not> isnan (- DBL_MAX)" by (simp only: isnan_ops) (simp add: DBL_MAX_def)
  have scan: "plfit_i_estimate_alpha_discrete_linear_scan L fuel xs xmin options is_sorted =
      alpha_scan ?lik (do_alpha_step options) (do_alpha_max options) fuel (do_alpha_min options) (do_alpha_min options) (- DBL_MAX)"
    using assms(2,3) lm by (simp add: plfit_i_estimate_alpha_discrete_linear_scan_def)
  from alpha_scan_best [OF tot start nan, of fuel "do_alpha_max options"] show ?thesis
    unfolding scan using above above [of 0] by (auto simp: best_of_def simp del: upt_Suc)
qed

lemma report_check_simps:
  "report_check (Inr x) D k = k x" "report_check (plfit_fail e) D k = Inr (Failed e D)"
  "report_check (Inl Out_of_fuel) D k = Inl Out_of_fuel"
  by (simp_all add: report_check_def)

lemma log_likelihood_discrete_defined:
  "plfit_log_likelihood_discrete L xs alpha xmin = plfit_fail PLFIT_EINVAL \<or>
   (\<exists>l. plfit_log_likelihood_discrete L xs alpha xmin = Inr l)"
proof (cases "alpha \<le> 1 \<or> xmin < 1")
  case False
  then obtain l where "hsl_sf_lnhzeta L alpha xmin = Inr l" using lnhzeta_defined not_less_one by blast
  then show ?thesis by (simp add: plfit_log_likelihood_discrete_def split: prod.split)
qed (auto simp: plfit_log_likelihood_discrete_def)

lemma scan_estimate_and_distance:
  assumes "double_grid options" "do_alpha_method options = PLFIT_LINEAR_SCAN" "\<not> bad_grid options" "\<not> xmin < 1"
    "\<forall>x \<in> set xs. \<not> x < 1"
  shows "plfit_i_estimate_alpha_discrete L fuel xs xmin options True = Inl Out_of_fuel \<or>
    (\<exists>alpha D. plfit_i_estimate_alpha_discrete L fuel xs xmin options True = Inr alpha \<and>
       plfit_i_ks_test_discrete L xs alpha xmin = Inr D)"
  using linear_scan_above_one [OF assms(1,4,3), of L fuel xs True] ks_test_discrete_total [OF _ assms(4,5), of _ L] assms(2)
  by (auto simp: plfit_i_estimate_alpha_discrete_def)

lemma from_first_px:
  assumes "sorted_doubles data" "first_px data \<le> q" "x \<in> set (drop q data)"
  shows "\<not> x < 1"
proof -
  obtain i where "i < length data" "q \<le> i" "x = data ! i"
    using assms(3) by (auto simp: in_set_conv_nth) (metis le_add1 add.commute less_diff_conv)
  then have "1 \<le> x" using first_px_split [OF assms(1), of i] assms(2) by simp
  then show ?thesis by (simp add: dless_iff)
qed

lemma discrete_core_scan:
  assumes "double_grid options" "do_alpha_method options = PLFIT_LINEAR_SCAN" "\<not> bad_grid options"
    "sorted_doubles data" "data \<noteq> []"
  shows "discrete_core L fuel options data = Inl s \<Longrightarrow> s = Out_of_fuel"
proof -
  assume stop: "discrete_core L fuel options data = Inl s"
  let ?search = "discrete_search (candidate L fuel options data) data (end_xmin data) (first_px data) 0 (initial_best, 0)"
  have cand: "candidate L fuel options data q \<in> range Inr \<union> {Inl Out_of_fuel}"
    if q: "first_px data \<le> q" "block_start data q" for q
  proof -
    have l: "q < length data" using q(2) by (simp add: block_start_def)
    then have "data ! q \<in> set (drop q data)" by (metis list.set_intros(1) Cons_nth_drop_Suc)
    then have "\<not> data ! q < 1" using from_first_px [OF assms(4) q(1)] by blast
    from scan_estimate_and_distance [OF assms(1-3) this, of "drop q data" L fuel] from_first_px [OF assms(4) q(1)] l
    show ?thesis by (auto simp: candidate_def)
  qed
  show ?thesis
  proof (cases ?search)
    case (Inl e)
    then have "e = Out_of_fuel"
      using cand discrete_search_stops [OF Inl assms(4,5) at_px_first] by fastforce
    with stop Inl show ?thesis by (simp add: discrete_core_def report_check_def)
  next
    case (Inr b)
    then show ?thesis using stop
        log_likelihood_discrete_defined [of L "drop (length data - snd b) data"
          "res_alpha (corrected options (fst b) (snd b))" "res_xmin (fst b)"]
      by (auto simp: discrete_core_def report_check_def Let_def split: prod.splits)
  qed
qed

lemma discrete_scan_defined:
  assumes "double_grid options" "do_alpha_method options = PLFIT_LINEAR_SCAN" "NaN \<notin> set xs" "\<not> isnan xmin"
  shows "(case fit_discrete L fuel options xs of Inl s \<Rightarrow> s = Out_of_fuel | Inr report \<Rightarrow> True) \<and>
    (case estimate_core_discrete L fuel options xs xmin of Inl s \<Rightarrow> s = Out_of_fuel | Inr report \<Rightarrow> True)"
proof (cases "xs = [] \<or> bad_scan options")
  case True
  then show ?thesis by (auto simp: fit_discrete_def estimate_core_discrete_def)
next
  case False
  let ?data = "qsort double_comparator xs" and ?ys = "dropWhile (\<lambda>x. x < xmin) (qsort double_comparator xs)"
  have s: "sorted_doubles ?data" by (rule sorted_doubles_qsort) (use assms(3) in \<open>simp add: no_nan_def\<close>)
  have ne: "?data \<noteq> []" using False by (metis length_qsort length_0_conv)
  have g: "\<not> bad_grid options" using False assms(2) by (simp add: bad_scan_def)
  have "fit_discrete L fuel options xs = Inl e \<Longrightarrow> e = Out_of_fuel" for e
    using discrete_core_scan [OF assms(1,2) g s ne, of L fuel e] False
    by (auto simp: fit_discrete_def report_check_def plfit_i_copy_and_sort_def with_alloc_def split: if_splits)
  moreover have "estimate_core_discrete L fuel options xs xmin = Inl e \<Longrightarrow> e = Out_of_fuel" for e
  proof -
    assume e: "estimate_core_discrete L fuel options xs xmin = Inl e"
    have ll: "report_check (plfit_log_likelihood_discrete L ?ys a xmin) d (\<lambda>l. Inr (Fitted (f l))) \<noteq> Inl e" for a d f
      using log_likelihood_discrete_defined [of L ?ys a xmin] by (auto simp: report_check_def)
    show "e = Out_of_fuel"
    proof (cases "xmin < 1")
      case True
      then have "plfit_i_estimate_alpha_discrete L fuel ?ys xmin options True = plfit_fail PLFIT_EINVAL"
        using assms(2) by (simp add: plfit_i_estimate_alpha_discrete_def plfit_i_estimate_alpha_discrete_linear_scan_def)
      with e False show ?thesis
        by (auto simp: estimate_core_discrete_def report_check_def plfit_i_copy_and_sort_def with_alloc_def Let_def split: if_splits)
    next
      case x: False
      have "\<not> y < 1" if "y \<in> set ?ys" for y
      proof
        assume "y < 1"
        have "1 \<le> xmin" using x assms(4) dnot_less [of xmin 1] by simp
        have "filter (\<lambda>x. xmin \<le> x) ?data = ?ys" using sorted_dropWhile_filter [OF s] assms(4) by simp
        then have "xmin \<le> y" using that by (metis (no_types, lifting) filter_set mem_Collect_eq set_filter)
        with \<open>y < 1\<close> \<open>1 \<le> xmin\<close> show False using dle_trans by (auto simp: dless_iff)
      qed
      from scan_estimate_and_distance [OF assms(1,2) g x, of ?ys L fuel] this e False ll show ?thesis
        by (auto simp: estimate_core_discrete_def report_check_simps plfit_i_copy_and_sort_def with_alloc_def Let_def
            split: if_splits)
    qed
  qed
  ultimately show ?thesis by (auto split: sum.split)
qed

text \<open>
  C3. With the scan over a grid the discrete fit of a sample without NaN never does anything
  undefined, for every library: no array is left, and the logarithm of the zeta function is only
  taken where it is defined. The same holds for the estimate with a given \<open>xmin\<close> that is not NaN
  (a NaN passes the check of \<open>xmin\<close> and is undefined). All that can happen besides a report is that
  a grid has more points than the fuel allows.
\<close>

theorem discrete_scan_safe:
  assumes "double_grid options" "do_alpha_method options = PLFIT_LINEAR_SCAN" "NaN \<notin> set xs" "\<not> isnan xmin"
  shows "(case fit_discrete L fuel options xs of Inl s \<Rightarrow> s = Out_of_fuel | Inr report \<Rightarrow> True) \<and>
    (case estimate_core_discrete L fuel options xs xmin of Inl s \<Rightarrow> s = Out_of_fuel | Inr report \<Rightarrow> True)"
  using assms by (rule discrete_scan_defined)

theorem discrete_scan_safe_witness:
  "(case fit_discrete zero_clib 3 one_point [Fin 1, Fin 2] of Inl s \<Rightarrow> s = Out_of_fuel | Inr report \<Rightarrow> True) \<and>
   (case estimate_core_discrete zero_clib 3 one_point [Fin 1, Fin 2] (Fin 1) of Inl s \<Rightarrow> s = Out_of_fuel | Inr report \<Rightarrow> True)"
proof (rule discrete_scan_safe)
  have "Fin 2 = double_of_int 2" "Fin 1 = double_of_int 1" by (simp_all add: double_of_int_exact one_double_def)
  then show "double_grid one_point" unfolding double_grid_def one_point_options by (simp add: double_of_int_def)
qed (simp_all add: one_point_options)

end
