(* ===== verification/Discrete_Pvalue.thy ===== *)
theory Discrete_Pvalue
  imports Discrete
begin

text \<open>
  The p-value of a discrete fit: what it changes and in which range it lies, and that the fits it
  repeats on synthetic data are the public functions with the p-value switched off.
\<close>

lemma skip_p_value_discrete:
  "do_p_value_method options = PLFIT_P_VALUE_SKIP \<Longrightarrow>
   plfit_i_calculate_p_value_discrete L fuel xs options xmin_fixed r e = Inr (r\<lparr>res_p := NaN\<rparr>, e)"
  by (simp add: plfit_i_calculate_p_value_discrete_def)

text \<open>
  With the p-value switched off \<open>plfit_discrete\<close> and \<open>plfit_estimate_alpha_discrete\<close> draw no
  random number, keep the cache of the binomial generator, and return exactly the result or the
  error code of the fits \<open>fit_discrete\<close> and \<open>estimate_core_discrete\<close> that the p-value repeats on
  synthetic data, with NaN for the p-value.
\<close>

theorem refit_is_public_function_discrete:
  assumes "do_p_value_method options = PLFIT_P_VALUE_SKIP"
  shows "plfit_discrete L fuel xs (Some options) e = report_result e (fit_discrete L fuel options xs) \<and>
    plfit_estimate_alpha_discrete L fuel xs xmin (Some options) e =
      report_result e (estimate_core_discrete L fuel options xs xmin)"
proof -
  have p: "with_p_value_discrete L fuel options fixed data e fit = report_result e fit" for fixed data fit
    unfolding with_p_value_discrete_def report_result_def
    by (rule plfit_check_cong) (simp_all add: skip_p_value_discrete [OF assms] split: fit_report.split)
  have "plfit_discrete L fuel xs (Some options) e = report_result e (fit_discrete L fuel options xs)"
  proof (cases "xs = [] \<or> bad_scan options")
    case True
    then show ?thesis by (auto simp: plfit_discrete_def fit_discrete_def report_result_def)
  next
    case False
    then show ?thesis by (simp add: plfit_discrete_def fit_discrete_def p report_check_plfit_check)
  qed
  then show ?thesis by (simp add: plfit_estimate_alpha_discrete_def p)
qed

theorem refit_is_public_function_discrete_witness:
  "plfit_discrete zero_clib 3 [Fin 1, Fin 2] (Some (plfit_discrete_default_options\<lparr>do_p_value_method := PLFIT_P_VALUE_SKIP\<rparr>))
      (rbinom_initial, Builtin 0) =
    report_result (rbinom_initial, Builtin 0) (fit_discrete zero_clib 3
      (plfit_discrete_default_options\<lparr>do_p_value_method := PLFIT_P_VALUE_SKIP\<rparr>) [Fin 1, Fin 2]) \<and>
   plfit_estimate_alpha_discrete zero_clib 3 [Fin 1, Fin 2] (Fin 1)
      (Some (plfit_discrete_default_options\<lparr>do_p_value_method := PLFIT_P_VALUE_SKIP\<rparr>)) (rbinom_initial, Builtin 0) =
    report_result (rbinom_initial, Builtin 0) (estimate_core_discrete zero_clib 3
      (plfit_discrete_default_options\<lparr>do_p_value_method := PLFIT_P_VALUE_SKIP\<rparr>) [Fin 1, Fin 2] (Fin 1))"
  by (rule refit_is_public_function_discrete) simp

text \<open>
  When the calculation of the p-value of a discrete fit returns, it changes only the p-value
  of the result. The exact p-value is a number of successes divided by a positive number of
  trials that is at least as large, and lies between 0 and 1; the approximate one is the
  Kolmogorov probability of the distance for as many points as are not below \<open>xmin\<close>; a skipped
  one is NaN.
\<close>

theorem p_value_discrete_range:
  assumes "plfit_i_calculate_p_value_discrete L fuel xs options xmin_fixed result e = Inr (result', e')"
  shows "result' = result\<lparr>res_p := res_p result'\<rparr> \<and>
    (case do_p_value_method options of
       PLFIT_P_VALUE_SKIP \<Rightarrow> res_p result' = NaN
     | PLFIT_P_VALUE_APPROXIMATE \<Rightarrow>
         plfit_kolmogorov L (res_D result * c_sqrt L (double_of_nat (length (filter (\<lambda>x. \<not> x < res_xmin result) xs)))) =
           Inr (res_p result')
     | PLFIT_P_VALUE_EXACT \<Rightarrow> (\<exists>successes trials. int successes \<le> trials \<and> 0 < trials \<and>
         res_p result' = double_of_nat successes / double_of_int trials \<and> 0 \<le> res_p result' \<and> res_p result' \<le> 1))"
proof (cases "do_p_value_method options")
  case PLFIT_P_VALUE_SKIP
  with assms show ?thesis by (auto simp: plfit_i_calculate_p_value_discrete_def)
next
  case PLFIT_P_VALUE_APPROXIMATE
  with assms show ?thesis
    by (auto simp: count_not_smaller plfit_i_calculate_p_value_discrete_def plfit_ks_test_one_sample_p_def plfit_check_eq_Inr)
next
  case PLFIT_P_VALUE_EXACT
  then obtain p resample refit where p: "result' = result\<lparr>res_p := p\<rparr>"
    and x: "exact_p_value L (do_p_value_precision options) xs result resample refit e = Inr (p, e')"
    using assms by (auto simp: plfit_i_calculate_p_value_discrete_def plfit_check_eq_Inr Let_def)
  from exact_p_value_result [OF x] p PLFIT_P_VALUE_EXACT show ?thesis by simp
qed

lemma p_value_discrete_example:
  "plfit_i_calculate_p_value_discrete zero_clib 1 [Fin 1, Fin 2]
     (plfit_discrete_default_options\<lparr>do_p_value_method := PLFIT_P_VALUE_APPROXIMATE\<rparr>) True
     \<lparr>res_alpha = Fin 3, res_xmin = Fin 1, res_L = Fin 0, res_D = Fin 0, res_p = NaN\<rparr> (rbinom_initial, Builtin 0) =
   Inr (\<lparr>res_alpha = Fin 3, res_xmin = Fin 1, res_L = Fin 0, res_D = Fin 0, res_p = 1\<rparr>, (rbinom_initial, Builtin 0))"
  using kolmogorov_of_zero
  by (simp add: plfit_i_calculate_p_value_discrete_def plfit_ks_test_one_sample_p_def count_smaller_def numeral_2_eq_2)

theorem p_value_discrete_range_witness:
  "\<lparr>res_alpha = Fin 3, res_xmin = Fin 1, res_L = Fin 0, res_D = Fin 0, res_p = 1\<rparr> =
    \<lparr>res_alpha = Fin 3, res_xmin = Fin 1, res_L = Fin 0, res_D = Fin 0, res_p = NaN\<rparr>\<lparr>res_p := 1\<rparr> \<and>
   plfit_kolmogorov zero_clib (Fin 0 * c_sqrt zero_clib (double_of_nat (length (filter (\<lambda>x. \<not> x < Fin 1) [Fin 1, Fin 2])))) = Inr 1"
  using p_value_discrete_range [OF p_value_discrete_example] by simp

end
