(* ===== verification/Stdio.thy ===== *)
theory Stdio
  imports Clib
begin

text \<open>
  What the two programs use of \<open>stdio.h\<close>: streams and the formats \<open>%lf\<close>, \<open>%lg\<close>, \<open>%lu\<close> and \<open>%ld\<close>
  of \<open>fscanf\<close> and \<open>sscanf\<close> (C11 7.21.6.2). A stream is the list of the bytes that are still to be
  read. A conversion skips white space and takes the longest sequence of bytes that is the
  beginning of a number; when that sequence is not itself a number, the bytes are gone and the
  conversion has failed.
\<close>

datatype 'a scan = Scan_eof | Scan_failed string | Scanned 'a string

definition char_code :: "char \<Rightarrow> nat" where
  "char_code c = of_char c"

definition isspace :: "char \<Rightarrow> bool" where
  "isspace c \<longleftrightarrow> char_code c = 32 \<or> (9 \<le> char_code c \<and> char_code c \<le> 13)"

definition digit_value :: "bool \<Rightarrow> char \<Rightarrow> nat option" where
  "digit_value hex c =
     (let k = char_code c in
      if 48 \<le> k \<and> k \<le> 57 then Some (k - 48)
      else if hex \<and> 97 \<le> k \<and> k \<le> 102 then Some (k - 87)
      else if hex \<and> 65 \<le> k \<and> k \<le> 70 then Some (k - 55)
      else None)"

definition lower_case :: "char \<Rightarrow> char" where
  "lower_case c = (if 65 \<le> char_code c \<and> char_code c \<le> 90 then char_of (char_code c + 32) else c)"

subsection \<open>Floating point numbers\<close>

text \<open>
  The numbers \<open>strtod\<close> accepts, as an automaton that computes the value on its way: decimal and
  hexadecimal numbers with an optional fraction and exponent, infinities and NaNs.
\<close>

datatype phase =
  At_sign | At_first | Zero | Whole | Bare_point | Fraction | Exp_mark | Exp_sign | Exponent | Hex_mark
| Letters string phase | Infinite | Infinite_full | Not_a_number | Nan_chars | Nan_closed

record number =
  nb_phase :: phase
  nb_neg :: bool
  nb_hex :: bool
  nb_digits :: nat
  nb_fraction :: nat
  nb_exp_neg :: bool
  nb_exp :: nat

definition no_number :: number where
  "no_number = \<lparr>nb_phase = At_sign, nb_neg = False, nb_hex = False, nb_digits = 0, nb_fraction = 0,
     nb_exp_neg = False, nb_exp = 0\<rparr>"

definition add_digit :: "phase \<Rightarrow> nat \<Rightarrow> number \<Rightarrow> number" where
  "add_digit p d s =
     s\<lparr>nb_phase := p, nb_digits := nb_digits s * (if nb_hex s then 16 else 10) + d,
       nb_fraction := nb_fraction s + (if p = Fraction then 1 else 0)\<rparr>"

definition number_start :: "char \<Rightarrow> number \<Rightarrow> number option" where
  \<comment> \<open>the first byte after the sign\<close>
  "number_start c s =
     (case digit_value False c of
        Some d \<Rightarrow> Some (add_digit (if d = 0 then Zero else Whole) d s)
      | None \<Rightarrow>
          if c = CHR ''.'' then Some (s\<lparr>nb_phase := Bare_point\<rparr>)
          else if lower_case c = CHR ''i'' then Some (s\<lparr>nb_phase := Letters ''nf'' Infinite\<rparr>)
          else if lower_case c = CHR ''n'' then Some (s\<lparr>nb_phase := Letters ''an'' Not_a_number\<rparr>)
          else None)"

definition number_exponent :: "char \<Rightarrow> number \<Rightarrow> number option" where
  "number_exponent c s =
     (if lower_case c = (if nb_hex s then CHR ''p'' else CHR ''e'') then Some (s\<lparr>nb_phase := Exp_mark\<rparr>)
      else None)"

definition number_digits :: "char \<Rightarrow> number \<Rightarrow> number option" where
  \<comment> \<open>after a digit of the integral part\<close>
  "number_digits c s =
     (case digit_value (nb_hex s) c of
        Some d \<Rightarrow> Some (add_digit Whole d s)
      | None \<Rightarrow> if c = CHR ''.'' then Some (s\<lparr>nb_phase := Fraction\<rparr>) else number_exponent c s)"

definition exponent_digit :: "char \<Rightarrow> number \<Rightarrow> number option" where
  "exponent_digit c s =
     map_option (\<lambda>d. s\<lparr>nb_phase := Exponent, nb_exp := nb_exp s * 10 + d\<rparr>) (digit_value False c)"

definition number_step :: "number \<Rightarrow> char \<Rightarrow> number option" where
  "number_step s c =
     (case nb_phase s of
        At_sign \<Rightarrow>
          if c = CHR ''+'' \<or> c = CHR ''-''
          then Some (s\<lparr>nb_phase := At_first, nb_neg := (c = CHR ''-'')\<rparr>) else number_start c s
      | At_first \<Rightarrow> number_start c s
      | Zero \<Rightarrow>
          if lower_case c = CHR ''x'' then Some (s\<lparr>nb_phase := Hex_mark, nb_hex := True\<rparr>)
          else number_digits c s
      | Whole \<Rightarrow> number_digits c s
      | Hex_mark \<Rightarrow>
          (case digit_value True c of
             Some d \<Rightarrow> Some (add_digit Whole d s)
           | None \<Rightarrow> if c = CHR ''.'' then Some (s\<lparr>nb_phase := Bare_point\<rparr>) else None)
      | Bare_point \<Rightarrow> map_option (\<lambda>d. add_digit Fraction d s) (digit_value (nb_hex s) c)
      | Fraction \<Rightarrow>
          (case digit_value (nb_hex s) c of
             Some d \<Rightarrow> Some (add_digit Fraction d s)
           | None \<Rightarrow> number_exponent c s)
      | Exp_mark \<Rightarrow>
          if c = CHR ''+'' \<or> c = CHR ''-''
          then Some (s\<lparr>nb_phase := Exp_sign, nb_exp_neg := (c = CHR ''-'')\<rparr>) else exponent_digit c s
      | Exp_sign \<Rightarrow> exponent_digit c s
      | Exponent \<Rightarrow> exponent_digit c s
      | Letters w p \<Rightarrow>
          (case w of
             [] \<Rightarrow> None
           | l # ls \<Rightarrow>
               if lower_case c = l then Some (s\<lparr>nb_phase := (if ls = [] then p else Letters ls p)\<rparr>) else None)
      | Infinite \<Rightarrow> if lower_case c = CHR ''i'' then Some (s\<lparr>nb_phase := Letters ''nity'' Infinite_full\<rparr>) else None
      | Infinite_full \<Rightarrow> None
      | Not_a_number \<Rightarrow> if c = CHR ''('' then Some (s\<lparr>nb_phase := Nan_chars\<rparr>) else None
      | Nan_chars \<Rightarrow>
          if c = CHR '')'' then Some (s\<lparr>nb_phase := Nan_closed\<rparr>)
          else if digit_value False c \<noteq> None \<or> c = CHR ''_'' \<or>
            (97 \<le> char_code (lower_case c) \<and> char_code (lower_case c) \<le> 122) then Some s
          else None
      | Nan_closed \<Rightarrow> None)"

definition number_complete :: "number \<Rightarrow> bool" where
  "number_complete s \<longleftrightarrow>
     nb_phase s \<in> {Zero, Whole, Fraction, Exponent, Infinite, Infinite_full, Not_a_number, Nan_closed}"

definition number_value :: "number \<Rightarrow> double" where
  "number_value s =
     (if nb_phase s \<in> {Infinite, Infinite_full} then dinf (nb_neg s)
      else if nb_phase s \<in> {Not_a_number, Nan_closed} then NaN
      else let q = of_nat (nb_digits s) / (if nb_hex s then 16 else 10) ^ nb_fraction s
                 * (if nb_hex s then 2 else 10) powi (if nb_exp_neg s then - int (nb_exp s) else int (nb_exp s))
           in to_double (nb_neg s) (if nb_neg s then - q else q))"

fun scan_number :: "number \<Rightarrow> string \<Rightarrow> number \<times> string" where
  "scan_number s [] = (s, [])"
| "scan_number s (c # cs) =
     (case number_step s c of None \<Rightarrow> (s, c # cs) | Some s' \<Rightarrow> scan_number s' cs)"

definition scan_double :: "string \<Rightarrow> double scan" where
  "scan_double input =
     (let cs = dropWhile isspace input in
      if cs = [] then Scan_eof
      else case scan_number no_number cs of (s, rest) \<Rightarrow>
        if number_complete s then Scanned (number_value s) rest else Scan_failed rest)"

subsection \<open>Integers\<close>

definition isdigit :: "char \<Rightarrow> bool" where
  "isdigit c \<longleftrightarrow> digit_value False c \<noteq> None"

definition decimal :: "string \<Rightarrow> int" where
  "decimal = foldl (\<lambda>n c. n * 10 + int (the (digit_value False c))) 0"

definition scan_integer :: "string \<Rightarrow> int scan" where
  "scan_integer input =
     (let cs = dropWhile isspace input in
      if cs = [] then Scan_eof
      else let signed = hd cs \<in> {CHR ''+'', CHR ''-''};
               ds = (if signed then tl cs else cs); rest = dropWhile isdigit ds in
        if takeWhile isdigit ds = [] then Scan_failed rest
        else Scanned ((if hd cs = CHR ''-'' then - 1 else 1) * decimal (takeWhile isdigit ds)) rest)"

text \<open>The values \<open>strtoul\<close> and \<open>strtol\<close> give to integers outside their types.\<close>

definition to_ulong :: "int \<Rightarrow> nat" where
  "to_ulong i = (if 2 ^ 64 \<le> \<bar>i\<bar> then 2 ^ 64 - 1 else nat (i mod 2 ^ 64))"

definition to_long :: "int \<Rightarrow> int" where
  "to_long i = max (- (2 ^ 63)) (min (2 ^ 63 - 1) i)"

fun map_scan :: "('a \<Rightarrow> 'b) \<Rightarrow> 'a scan \<Rightarrow> 'b scan" where
  "map_scan f Scan_eof = Scan_eof"
| "map_scan f (Scan_failed rest) = Scan_failed rest"
| "map_scan f (Scanned x rest) = Scanned (f x) rest"

definition scan_ulong :: "string \<Rightarrow> nat scan" where
  "scan_ulong input = map_scan to_ulong (scan_integer input)"

definition scan_long :: "string \<Rightarrow> int scan" where
  "scan_long input = map_scan to_long (scan_integer input)"

text \<open>
  \<open>sscanf\<close> with one conversion: the value behind the pointer afterwards, \<open>None\<close> when \<open>sscanf\<close>
  returns 0. At the end of the string it returns \<open>EOF\<close>, which is not 0, and writes nothing.
\<close>

definition sscanf1 :: "'a scan \<Rightarrow> 'a \<Rightarrow> 'a option" where
  "sscanf1 sc old = (case sc of Scan_eof \<Rightarrow> Some old | Scan_failed rest \<Rightarrow> None | Scanned x rest \<Rightarrow> Some x)"

subsection \<open>Printing\<close>

text \<open>
  The formats \<open>%ld\<close> and \<open>%.8f\<close> of \<open>printf\<close>; the second rounds the exact value to eight decimals,
  ties to even.
\<close>

definition digit_char :: "nat \<Rightarrow> char" where
  "digit_char d = char_of (48 + d)"

fun show_nat :: "nat \<Rightarrow> string" where
  "show_nat n = (if n < 10 then [digit_char n] else show_nat (n div 10) @ [digit_char (n mod 10)])"

declare show_nat.simps [simp del]

definition show_long :: "int \<Rightarrow> string" where
  "show_long i = (if i < 0 then CHR ''-'' # show_nat (nat (- i)) else show_nat (nat i))"

fun show_padded :: "nat \<Rightarrow> nat \<Rightarrow> string" where
  "show_padded 0 n = []"
| "show_padded (Suc k) n = show_padded k (n div 10) @ [digit_char (n mod 10)]"

definition round8 :: "double \<Rightarrow> nat" where
  \<comment> \<open>the absolute value in units of the eighth decimal\<close>
  "round8 x = nat (round_half_even (\<bar>val x\<bar> * 10 ^ 8))"

definition show_fixed8 :: "double \<Rightarrow> string" where
  "show_fixed8 x =
     (if isnan x then ''nan''
      else if is_inf x then (if sign_bit x then ''-inf'' else ''inf'')
      else (if sign_bit x then [CHR ''-''] else []) @
        show_nat (round8 x div 10 ^ 8) @ CHR ''.'' # show_padded 8 (round8 x mod 10 ^ 8))"

text \<open>
  What a program finds when it starts: the state \<open>srand\<close> gives to the built-in generator for a
  seed, the time, whether the environment asks \<open>getopt\<close> for POSIX rules, the files that can be
  opened with their contents, and the standard input.
\<close>

record environment =
  c_srand :: "nat \<Rightarrow> nat"
  c_time :: nat
  posixly_correct :: bool
  input_files :: "string \<Rightarrow> string option"
  standard_input :: string

definition seeded :: "environment \<Rightarrow> bool \<Rightarrow> nat \<Rightarrow> nat" where
  \<comment> \<open>\<open>srand\<close> takes an \<open>unsigned int\<close>\<close>
  "seeded E use_seed seed = c_srand E ((if use_seed then seed else c_time E) mod 2 ^ 32)"

subsection \<open>Facts\<close>

lemma scan_number_suffix: "scan_number s cs = (s', rest) \<Longrightarrow> length rest \<le> length cs"
  by (induction s cs rule: scan_number.induct) (auto split: option.splits)

text \<open>A conversion that succeeds has read something, and one that fails has not lengthened the stream.\<close>

lemma scan_double_progress:
  "scan_double cs = Scanned x rest \<Longrightarrow> length rest < length cs"
  "scan_double cs = Scan_failed rest \<Longrightarrow> length rest \<le> length cs"
proof -
  have le: "length (dropWhile isspace cs) \<le> length cs" by (rule length_dropWhile_le)
  { assume "scan_double cs = Scan_failed rest"
    then have "\<exists>s. scan_number no_number (dropWhile isspace cs) = (s, rest)"
      by (auto simp: scan_double_def Let_def split: if_splits prod.splits)
    with scan_number_suffix le show "length rest \<le> length cs" by fastforce }
  assume x: "scan_double cs = Scanned x rest"
  then obtain c ds s where c: "dropWhile isspace cs = c # ds" "scan_number no_number (c # ds) = (s, rest)"
    "number_complete s"
    by (cases "dropWhile isspace cs") (auto simp: scan_double_def Let_def split: if_splits prod.splits)
  have "\<not> number_complete no_number" by (simp add: number_complete_def no_number_def)
  with c have "\<exists>s'. number_step no_number c = Some s' \<and> scan_number s' ds = (s, rest)"
    by (auto split: option.splits)
  with scan_number_suffix have "length rest \<le> length ds" by blast
  with c(1) le show "length rest < length cs" by simp
qed

end
