(* ===== verification/Getopt.thy ===== *)
theory Getopt
  imports Clib "HOL-Library.Multiset"
begin

text \<open>
  \<open>src/getopt.c\<close>, which both programs are linked with. The static variables and the globals
  \<open>optarg\<close>, \<open>optind\<close> and \<open>optopt\<close> are a record. The argument vector is a list of strings; the
  null pointer that closes it is \<open>None\<close>, an access behind it is undefined, and so is an access
  behind the byte that closes a string. The programs set \<open>opterr\<close> to 0, so the messages are
  left out.
\<close>

record getopt_state =
  argv :: "string list"
  started :: bool  \<comment> \<open>\<open>prev_argv\<close> and \<open>prev_argc\<close> are those of the current call\<close>
  argv_index :: nat
  argv_index2 :: nat
  opt_offset :: nat
  dashdash :: bool
  nonopt :: nat
  optarg :: "string option"
  optind :: nat
  optopt :: char

abbreviation argc :: "getopt_state \<Rightarrow> nat" where
  "argc s \<equiv> length (argv s)"

datatype opt_result = No_more | Plain_argument | Option char

abbreviation NUL :: char where "NUL \<equiv> CHR 0x00"

definition arg_at :: "string list \<Rightarrow> nat \<Rightarrow> string option result" where
  "arg_at args i =
     (if i < length args then Inr (Some (args ! i)) else if i = length args then Inr None else Inl Undefined)"

definition char_at :: "string \<Rightarrow> nat \<Rightarrow> char result" where
  "char_at w k = (if k < length w then Inr (w ! k) else if k = length w then Inr NUL else Inl Undefined)"

definition first_char :: "string \<Rightarrow> char" where
  "first_char w = (case w of [] \<Rightarrow> NUL | c # _ \<Rightarrow> c)"

text \<open>\<open>strchr\<close>, which finds the closing byte too.\<close>

definition strchr :: "string \<Rightarrow> char \<Rightarrow> string option" where
  "strchr w c =
     (case dropWhile (\<lambda>d. d \<noteq> c) w of [] \<Rightarrow> (if c = NUL then Some [] else None) | p \<Rightarrow> Some p)"

text \<open>The loop of \<open>increment_index\<close>, after its first increment.\<close>

function increment_scan :: "string list \<Rightarrow> nat \<Rightarrow> nat \<Rightarrow> nat result" where
  "increment_scan args i2 i =
     plfit_check (arg_at args i) (\<lambda>a.
       case a of
         None \<Rightarrow> Inr i
       | Some w \<Rightarrow> if first_char w \<noteq> CHR ''-'' \<and> i < i2 + 1 then increment_scan args i2 (i + 1) else Inr i)"
  by pat_completeness auto
termination by (relation "measure (\<lambda>(args, i2, i). i2 + 1 - i)") auto

declare increment_scan.simps [simp del]

definition increment_index :: "getopt_state \<Rightarrow> getopt_state result" where
  "increment_index s =
     plfit_check
       (if argv_index s < argv_index2 s then increment_scan (argv s) (argv_index2 s) (argv_index s + 1)
        else Inr (argv_index s + 1)) (\<lambda>i.
     Inr (s\<lparr>argv_index := i, opt_offset := 1\<rparr>))"

definition permute_argv_once :: "getopt_state \<Rightarrow> getopt_state option" where
  \<comment> \<open>\<open>None\<close> when nothing can be moved (the code returns 1)\<close>
  "permute_argv_once s =
     (if argc s \<le> argv_index s + nonopt s then None
      else Some (s\<lparr>argv := take (argv_index s) (argv s) @ drop (argv_index s + 1) (argv s) @ [argv s ! argv_index s],
                   nonopt := nonopt s + 1\<rparr>))"

text \<open>The search for the argument of an option, after its first increment.\<close>

function find_argument :: "string list \<Rightarrow> nat \<Rightarrow> nat result" where
  "find_argument args i =
     plfit_check (arg_at args i) (\<lambda>a.
       case a of
         None \<Rightarrow> Inr i
       | Some w \<Rightarrow> if first_char w = CHR ''-'' then find_argument args (i + 1) else Inr i)"
  by pat_completeness auto
termination by (relation "measure (\<lambda>(args, i). Suc (length args) - i)") (auto simp: arg_at_def split: if_splits)

declare find_argument.simps [simp del]

definition option_argument :: "string \<Rightarrow> char \<Rightarrow> string \<Rightarrow> getopt_state \<Rightarrow> (opt_result \<times> getopt_state) result" where
  \<comment> \<open>an option \<open>c\<close> that takes an argument; \<open>p\<close> is its place in the option string\<close>
  "option_argument p c arg s =
     plfit_check (char_at p 2) (\<lambda>second.
     plfit_check (char_at arg (opt_offset s)) (\<lambda>d.
     plfit_check
       (if d \<noteq> NUL then increment_index (s\<lparr>optarg := Some (drop (opt_offset s) arg)\<rparr>)
        else if second \<noteq> CHR '':'' then
          plfit_check (find_argument (argv s) (max (argv_index2 s) (argv_index s) + 1)) (\<lambda>i2.
          plfit_check (arg_at (argv s) i2) (\<lambda>a.
          increment_index (s\<lparr>argv_index2 := i2,
            optarg := (if argc s \<le> i2 + nonopt s then None else a)\<rparr>)))
        else increment_index s) (\<lambda>s.
     if optarg s = None \<and> second \<noteq> CHR '':'' then Inr (Option CHR ''?'', s\<lparr>optopt := c\<rparr>)
     else Inr (Option c, s))))"

definition option_letter :: "string \<Rightarrow> string \<Rightarrow> getopt_state \<Rightarrow> (opt_result \<times> getopt_state) result" where
  "option_letter optstr arg s =
     plfit_check (char_at arg (opt_offset s)) (\<lambda>c.
     let s = s\<lparr>opt_offset := opt_offset s + 1\<rparr> in
     case strchr (if first_char optstr = CHR ''-'' then tl optstr else optstr) c of
       None \<Rightarrow> plfit_check (increment_index (s\<lparr>optopt := c\<rparr>)) (\<lambda>s. Inr (Option CHR ''?'', s))
     | Some p \<Rightarrow>
         plfit_check (char_at p 1) (\<lambda>colon.
         if colon = CHR '':'' then option_argument p c arg s
         else plfit_check (char_at arg (opt_offset s)) (\<lambda>d.
           if d = NUL then plfit_check (increment_index s) (\<lambda>s. Inr (Option c, s)) else Inr (Option c, s))))"

definition skip_dash_dash :: "getopt_state \<Rightarrow> getopt_state result" where
  "skip_dash_dash s =
     plfit_check (arg_at (argv s) (argv_index s)) (\<lambda>a.
       if a = Some ''--'' then increment_index (s\<lparr>dashdash := True\<rparr>) else Inr s)"

lemma arg_at_eq_Inr:
  "arg_at args i = Inr a \<longleftrightarrow> i \<le> length args \<and> a = (if i < length args then Some (args ! i) else None)"
  by (auto simp: arg_at_def)

lemma increment_scan_total:
  "i \<le> length args \<Longrightarrow> \<exists>j. increment_scan args i2 i = Inr j \<and> i \<le> j \<and> j \<le> length args"
proof (induction args i2 i rule: increment_scan.induct)
  case (1 args i2 i)
  show ?case
  proof (cases "i < length args \<and> first_char (args ! i) \<noteq> CHR ''-'' \<and> i < i2 + 1")
    case True
    then have "arg_at args i = Inr (Some (args ! i))" by (simp add: arg_at_def)
    from "1.IH" [OF this refl] True
    have "\<exists>j. increment_scan args i2 (i + 1) = Inr j \<and> i + 1 \<le> j \<and> j \<le> length args" by auto
    with True show ?thesis by (subst increment_scan.simps) (auto simp: arg_at_def)
  next
    case False
    with "1.prems" show ?thesis by (subst increment_scan.simps) (auto simp: arg_at_def)
  qed
qed

lemma increment_scan_ge: "increment_scan args i2 i = Inr j \<Longrightarrow> i \<le> j"
  using increment_scan_total [of i args i2]
  by (subst (asm) increment_scan.simps) (auto simp: plfit_check_eq_Inr arg_at_eq_Inr increment_scan.simps [of args i2 i])

lemma increment_index_frame:
  "increment_index s = Inr s' \<Longrightarrow>
     argv_index s < argv_index s' \<and> opt_offset s' = 1 \<and> argv s' = argv s \<and> nonopt s' = nonopt s \<and>
     argv_index2 s' = argv_index2 s \<and> dashdash s' = dashdash s \<and> optarg s' = optarg s \<and> started s' = started s \<and>
     optopt s' = optopt s"
  by (auto simp: increment_index_def plfit_check_eq_Inr split: if_splits dest!: increment_scan_ge)

lemma skip_dash_dash_frame:
  "skip_dash_dash s = Inr s' \<Longrightarrow> argv s' = argv s \<and> nonopt s' = nonopt s \<and> argv_index s \<le> argv_index s'"
  by (auto simp: skip_dash_dash_def plfit_check_eq_Inr split: if_splits dest!: increment_index_frame)

text \<open>The function from the label \<open>getopt_top\<close> on.\<close>

function getopt_top :: "bool \<Rightarrow> string \<Rightarrow> getopt_state \<Rightarrow> (opt_result \<times> getopt_state) result" where
  "getopt_top posix optstr s =
     plfit_check (skip_dash_dash (s\<lparr>optarg := None\<rparr>)) (\<lambda>s1.
     plfit_check (arg_at (argv s1) (argv_index s1)) (\<lambda>a.
     case a of
       None \<Rightarrow> Inr (No_more, s1)
     | Some arg \<Rightarrow>
         if dashdash s1 \<or> first_char arg \<noteq> CHR ''-'' \<or> arg = ''-'' then
           if first_char optstr = CHR ''-'' then
             plfit_check (increment_index (s1\<lparr>optarg := Some arg\<rparr>)) (\<lambda>s2. Inr (Plain_argument, s2))
           else if first_char optstr = CHR ''+'' \<or> posix then
             Inr (No_more, s1\<lparr>nonopt := argc s1 - argv_index s1\<rparr>)
           else (case permute_argv_once s1 of
               Some s2 \<Rightarrow> getopt_top posix optstr s2
             | None \<Rightarrow> Inr (No_more, s1))
         else option_letter optstr arg s1))"
  by pat_completeness auto
termination
  by (relation "measure (\<lambda>(posix, optstr, s). argc s - nonopt s)")
    (auto simp: permute_argv_once_def split: if_splits dest!: skip_dash_dash_frame)

declare getopt_top.simps [simp del]

definition getopt_start :: "getopt_state \<Rightarrow> getopt_state" where
  "getopt_start s =
     (if started s then s
      else s\<lparr>started := True, argv_index := 1, argv_index2 := 1, opt_offset := 1, dashdash := False, nonopt := 0\<rparr>)"

definition getopt :: "bool \<Rightarrow> string \<Rightarrow> getopt_state \<Rightarrow> (opt_result \<times> getopt_state) result" where
  \<comment> \<open>\<open>posix\<close>: the environment has a variable \<open>POSIXLY_CORRECT\<close>\<close>
  "getopt posix optstr s =
     plfit_check (getopt_top posix optstr (getopt_start s)) (\<lambda>(c, s).
     Inr (c, s\<lparr>optind := (if c = No_more then argc s - nonopt s else argv_index s)\<rparr>))"

definition initial_getopt :: "string list \<Rightarrow> getopt_state" where
  \<comment> \<open>the static variables when the program starts, with the arguments it is called with\<close>
  "initial_getopt args =
     \<lparr>argv = args, started = False, argv_index = 0, argv_index2 = 0, opt_offset = 0, dashdash = False,
      nonopt = 0, optarg = None, optind = 0, optopt = CHR ''?''\<rparr>"

subsection \<open>A loop over the options\<close>

text \<open>
  Both programs call \<open>getopt\<close> until it returns -1 and branch on the letter. Their branches are
  a function \<open>handle\<close> that goes on with new options, leaves the parsing function with a status,
  or calls \<open>abort\<close>.
\<close>

datatype 'o step = Go_on 'o | Leave int | Abort

datatype 'o parsed = Parsed 'o getopt_state | Left int | Aborted_parse

definition with_optarg :: "getopt_state \<Rightarrow> (string \<Rightarrow> 'a result) \<Rightarrow> 'a result" where
  "with_optarg s k = (case optarg s of None \<Rightarrow> Inl Undefined | Some w \<Rightarrow> k w)"

fun option_loop ::
  "nat \<Rightarrow> bool \<Rightarrow> string \<Rightarrow> (char \<Rightarrow> getopt_state \<Rightarrow> 'o \<Rightarrow> 'o step result) \<Rightarrow> getopt_state \<Rightarrow> 'o \<Rightarrow> 'o parsed result" where
  "option_loop 0 posix optstr handle s opts = Inl Out_of_fuel"
| "option_loop (Suc fuel) posix optstr handle s opts =
     plfit_check (getopt posix optstr s) (\<lambda>(r, s').
       let go = (\<lambda>c. plfit_check (handle c s' opts) (\<lambda>st.
         case st of
           Go_on opts' \<Rightarrow> option_loop fuel posix optstr handle s' opts'
         | Leave n \<Rightarrow> Inr (Left n)
         | Abort \<Rightarrow> Inr Aborted_parse)) in
       case r of
         No_more \<Rightarrow> Inr (Parsed opts s')
       | Plain_argument \<Rightarrow> go (CHR 0x01)
       | Option c \<Rightarrow> go c)"

subsection \<open>The state between two calls\<close>

definition is_option :: "string \<Rightarrow> bool" where
  "is_option w \<longleftrightarrow> first_char w = CHR ''-'' \<and> w \<noteq> ''-'' \<and> w \<noteq> ''--''"

definition args_ok :: "string list \<Rightarrow> bool" where
  "args_ok args \<longleftrightarrow> args \<noteq> [] \<and> (\<forall>w \<in> set args. NUL \<notin> set w)"

definition getopt_ok :: "getopt_state \<Rightarrow> bool" where
  "getopt_ok s \<longleftrightarrow>
     started s \<and> args_ok (argv s) \<and> 1 \<le> argv_index s \<and> argv_index s \<le> argc s \<and>
     (argv_index2 s = 1 \<or> argv_index2 s < argc s) \<and> nonopt s < argc s \<and>
     (opt_offset s = 1 \<or>
        \<not> dashdash s \<and> argv_index s < argc s \<and> is_option (argv s ! argv_index s) \<and>
        1 < opt_offset s \<and> opt_offset s < length (argv s ! argv_index s))"

text \<open>What is still to be looked at: the bytes from the current place on.\<close>

definition getopt_left :: "getopt_state \<Rightarrow> nat" where
  "getopt_left s = sum_list (map (\<lambda>w. Suc (length w)) (drop (argv_index s) (argv s))) - opt_offset s"

definition takes_argument :: "string \<Rightarrow> char \<Rightarrow> bool" where
  "takes_argument optstr c =
     (case strchr optstr c of
        None \<Rightarrow> False
      | Some p \<Rightarrow> char_at p 1 = Inr CHR '':'' \<and> char_at p 2 \<noteq> Inr CHR '':'')"

lemma find_argument_total:
  "i \<le> length args \<Longrightarrow> \<exists>j. find_argument args i = Inr j \<and> i \<le> j \<and> j \<le> length args"
proof (induction args i rule: find_argument.induct)
  case (1 args i)
  show ?case
  proof (cases "i < length args \<and> first_char (args ! i) = CHR ''-''")
    case True
    then have "arg_at args i = Inr (Some (args ! i))" by (simp add: arg_at_def)
    from "1.IH" [OF this refl] True
    have "\<exists>j. find_argument args (i + 1) = Inr j \<and> i + 1 \<le> j \<and> j \<le> length args" by auto
    with True show ?thesis by (subst find_argument.simps) (auto simp: arg_at_def)
  next
    case False
    with "1.prems" show ?thesis by (subst find_argument.simps) (auto simp: arg_at_def)
  qed
qed

lemma increment_index_total:
  assumes "argv_index s < argc s"
  shows "\<exists>i. increment_index s = Inr (s\<lparr>argv_index := i, opt_offset := 1\<rparr>) \<and> argv_index s < i \<and> i \<le> argc s"
  using assms increment_scan_total [of "argv_index s + 1" "argv s" "argv_index2 s"]
  by (auto simp: increment_index_def)

lemma left_after_increment:
  assumes "k < i" "i \<le> length args" "k < length args"
  shows "sum_list (map (\<lambda>w. Suc (length w)) (drop i args)) + Suc (length (args ! k))
    \<le> sum_list (map (\<lambda>w. Suc (length w)) (drop k args))"
proof -
  have d: "drop k args = args ! k # drop (Suc k) args" using assms(3) by (simp add: Cons_nth_drop_Suc)
  have "drop (Suc k) args = take (i - Suc k) (drop (Suc k) args) @ drop i args"
    using assms(1) by (metis Suc_leI append_take_drop_id drop_drop le_add_diff_inverse2)
  then have "sum_list (map (\<lambda>w. Suc (length w)) (drop i args)) \<le> sum_list (map (\<lambda>w. Suc (length w)) (drop (Suc k) args))"
    by (metis le_add2 map_append sum_list_append)
  with d show ?thesis by simp
qed

lemma char_at_total: "k \<le> length w \<Longrightarrow> \<exists>c. char_at w k = Inr c"
  by (auto simp: char_at_def)

lemma strchr_nonempty: "strchr w c = Some p \<Longrightarrow> c \<noteq> NUL \<Longrightarrow> p \<noteq> []"
  by (auto simp: strchr_def split: list.splits)

text \<open>
  One letter of an option: the call succeeds, the place moves on, and the letter comes with
  its argument.
\<close>

definition letter_outcome :: "string \<Rightarrow> getopt_state \<Rightarrow> opt_result \<times> getopt_state \<Rightarrow> bool" where
  "letter_outcome optstr s r \<longleftrightarrow>
     (case r of (c, s') \<Rightarrow> \<exists>l. c = Option l \<and> argv s' = argv s \<and> getopt_left s' < getopt_left s \<and>
        (l \<noteq> CHR ''?'' \<longrightarrow> getopt_ok s' \<and> (takes_argument optstr l \<longrightarrow> optarg s' \<noteq> None)))"

lemma moved_on:
  assumes "getopt_ok s" "argv_index s < argc s" "opt_offset s < length (argv s ! argv_index s)"
    "argv s' = argv s" "argv_index s < argv_index s'" "argv_index s' \<le> argc s" "opt_offset s' = 1"
  shows "getopt_left s' < getopt_left s"
proof -
  have "sum_list (map (\<lambda>w. Suc (length w)) (drop (argv_index s') (argv s))) + Suc (length (argv s ! argv_index s))
      \<le> sum_list (map (\<lambda>w. Suc (length w)) (drop (argv_index s) (argv s)))"
    by (rule left_after_increment) (use assms in auto)
  with assms show ?thesis by (simp add: getopt_left_def)
qed

lemma still_here:
  assumes "argv_index s < argc s" "opt_offset s < length (argv s ! argv_index s)"
    "argv s' = argv s" "argv_index s' = argv_index s" "opt_offset s' = opt_offset s + 1"
  shows "getopt_left s' < getopt_left s"
proof -
  have "Suc (length (argv s ! argv_index s)) \<le> sum_list (map (\<lambda>w. Suc (length w)) (drop (argv_index s) (argv s)))"
    using assms(1) by (simp add: Cons_nth_drop_Suc [symmetric])
  with assms show ?thesis by (simp add: getopt_left_def)
qed

lemma option_letter_outcome:
  assumes "getopt_ok s" "argv_index s < argc s" "is_option (argv s ! argv_index s)" "\<not> dashdash s"
    "first_char optstr \<noteq> CHR ''-''" "optarg s = None"
  shows "\<exists>r. option_letter optstr (argv s ! argv_index s) s = Inr r \<and> letter_outcome optstr s r"
proof -
  let ?arg = "argv s ! argv_index s" and ?s = "s\<lparr>opt_offset := opt_offset s + 1\<rparr>"
  obtain x y where "?arg = CHR ''-'' # x # y"
    using assms(3) by (cases ?arg rule: remdups_adj.cases) (auto simp: is_option_def first_char_def)
  then have off: "opt_offset s < length ?arg" using assms(1) by (auto simp: getopt_ok_def)
  define c where "c = ?arg ! opt_offset s"
  have nul: "NUL \<notin> set ?arg" using assms(1,2) by (auto simp: getopt_ok_def args_ok_def)
  have at: "char_at ?arg k = Inr (if k < length ?arg then ?arg ! k else NUL)" if "k \<le> length ?arg" for k
    using that by (auto simp: char_at_def)
  have in_arg: "?arg ! k \<noteq> NUL" if "k < length ?arg" for k using nul nth_mem [OF that] by metis
  have c: "char_at ?arg (opt_offset s) = Inr c" "c \<noteq> NUL" using off at in_arg by (auto simp: c_def)
  have inc: "\<exists>i. increment_index t = Inr (t\<lparr>argv_index := i, opt_offset := 1\<rparr>) \<and> argv_index s < i \<and> i \<le> argc s"
    if "argv t = argv s" "argv_index t = argv_index s" for t
    using increment_index_total [of t] that assms(2) by auto
  have done_ok: "letter_outcome optstr s (Option l, t\<lparr>argv_index := i, opt_offset := 1\<rparr>)"
    if "argv t = argv s" "started t = started s" "nonopt t = nonopt s" "argv_index s < i" "i \<le> argc s"
      "l \<noteq> CHR ''?'' \<longrightarrow> (argv_index2 t = 1 \<or> argv_index2 t < argc s) \<and> (takes_argument optstr l \<longrightarrow> optarg t \<noteq> None)"
    for l t i
    using that assms(1) moved_on [OF assms(1,2) off, of "t\<lparr>argv_index := i, opt_offset := 1\<rparr>"]
    by (auto simp: letter_outcome_def getopt_ok_def)
  have step: "option_letter optstr ?arg s =
      (case strchr optstr c of
         None \<Rightarrow> plfit_check (increment_index (?s\<lparr>optopt := c\<rparr>)) (\<lambda>s. Inr (Option CHR ''?'', s))
       | Some p \<Rightarrow> plfit_check (char_at p 1) (\<lambda>colon.
           if colon = CHR '':'' then option_argument p c ?arg ?s
           else if opt_offset s + 1 < length ?arg then Inr (Option c, ?s)
           else plfit_check (increment_index ?s) (\<lambda>s. Inr (Option c, s))))"
    using assms(5) off at [of "opt_offset s + 1"] in_arg [of "opt_offset s + 1"]
    by (auto simp: option_letter_def c(1) Let_def intro!: option.case_cong plfit_check_cong)
  show ?thesis
  proof (cases "strchr optstr c")
    case None
    obtain i where "increment_index (?s\<lparr>optopt := c\<rparr>) = Inr (?s\<lparr>optopt := c, argv_index := i, opt_offset := 1\<rparr>)"
      "argv_index s < i" "i \<le> argc s" using inc [of "?s\<lparr>optopt := c\<rparr>"] by auto
    with done_ok [of "?s\<lparr>optopt := c\<rparr>" i "CHR ''?''"] show ?thesis by (auto simp: step None)
  next
    case (Some p)
    then have "p \<noteq> []" using c(2) by (rule strchr_nonempty)
    then obtain colon where colon: "char_at p (Suc 0) = Inr colon" using char_at_total [of 1 p] by (cases p) auto
    show ?thesis
    proof (cases "colon = CHR '':''")
      case False
      then have no: "\<not> takes_argument optstr c" using Some colon by (simp add: takes_argument_def)
      show ?thesis
      proof (cases "opt_offset s + 1 < length ?arg")
        case True
        then have "letter_outcome optstr s (Option c, ?s)"
          using still_here [of s ?s] off assms no by (auto simp: letter_outcome_def getopt_ok_def)
        with True False show ?thesis by (auto simp: step Some colon)
      next
        case end_of_arg: False
        obtain i where "increment_index ?s = Inr (?s\<lparr>argv_index := i, opt_offset := 1\<rparr>)"
          "argv_index s < i" "i \<le> argc s" using inc [of ?s] by auto
        moreover have "argv_index2 s = 1 \<or> argv_index2 s < argc s" using assms(1) by (simp add: getopt_ok_def)
        ultimately show ?thesis using done_ok [of ?s i c] no False end_of_arg by (auto simp: step Some colon)
      qed
    next
      case True
      then have len: "2 \<le> length p" using colon by (auto simp: char_at_def split: if_splits)
      then obtain second where second: "char_at p 2 = Inr second" using char_at_total [of 2 p] by auto
      then have takes: "takes_argument optstr c \<longleftrightarrow> second \<noteq> CHR '':''"
        using Some colon True by (simp add: takes_argument_def)
      have "char_at ?arg (Suc (opt_offset s)) =
          Inr (if Suc (opt_offset s) < length ?arg then ?arg ! Suc (opt_offset s) else NUL)" using at off by simp
      note arg = option_argument_def second this
      consider (attached) "opt_offset s + 1 < length ?arg" | (separate) "\<not> opt_offset s + 1 < length ?arg" "second \<noteq> CHR '':''"
        | (optional) "\<not> opt_offset s + 1 < length ?arg" "second = CHR '':''" by blast
      then show ?thesis
      proof cases
        case attached
        let ?t = "?s\<lparr>optarg := Some (drop (opt_offset s + 1) ?arg)\<rparr>"
        obtain i where i: "increment_index ?t = Inr (?t\<lparr>argv_index := i, opt_offset := 1\<rparr>)" "argv_index s < i" "i \<le> argc s"
          using inc [of ?t] by auto
        moreover have "argv_index2 s = 1 \<or> argv_index2 s < argc s" using assms(1) by (simp add: getopt_ok_def)
        ultimately show ?thesis
          using done_ok [of ?t i c] attached in_arg [of "Suc (opt_offset s)"] True by (auto simp: step Some colon arg)
      next
        case optional
        obtain i where i: "increment_index ?s = Inr (?s\<lparr>argv_index := i, opt_offset := 1\<rparr>)" "argv_index s < i" "i \<le> argc s"
          using inc [of ?s] by auto
        moreover have "argv_index2 s = 1 \<or> argv_index2 s < argc s" using assms(1) by (simp add: getopt_ok_def)
        ultimately show ?thesis
          using done_ok [of ?s i c] optional off True takes by (auto simp: step Some colon arg)
      next
        case separate
        have "Suc (max (argv_index2 s) (argv_index s)) \<le> argc s" using assms(1,2) by (auto simp: getopt_ok_def)
        from find_argument_total [OF this]
        obtain i2 where i2: "find_argument (argv s) (Suc (max (argv_index2 s) (argv_index s))) = Inr i2" "i2 \<le> argc s"
          by auto
        define a where "a = (if argc s \<le> i2 + nonopt s then None else Some (argv s ! i2))"
        have a: "arg_at (argv s) i2 = Inr (if i2 < argc s then Some (argv s ! i2) else None)" using i2(2) by (auto simp: arg_at_def)
        let ?t = "?s\<lparr>argv_index2 := i2, optarg := a\<rparr>"
        obtain i where i: "increment_index ?t = Inr (?t\<lparr>argv_index := i, opt_offset := 1\<rparr>)" "argv_index s < i" "i \<le> argc s"
          using inc [of ?t] by auto
        have r: "option_letter optstr ?arg s =
            Inr (if a = None then (Option CHR ''?'', ?t\<lparr>argv_index := i, opt_offset := 1, optopt := c\<rparr>)
                 else (Option c, ?t\<lparr>argv_index := i, opt_offset := 1\<rparr>))"
          using separate off i True by (auto simp: step Some colon arg i2(1) a a_def)
        show ?thesis
        proof (cases a)
          case None
          have "letter_outcome optstr s (Option CHR ''?'', ?t\<lparr>argv_index := i, opt_offset := 1\<rparr>)"
            using done_ok [of ?t i "CHR ''?''"] i by simp
          with None r show ?thesis by (auto simp: letter_outcome_def getopt_left_def)
        next
          case has_arg: (Some w)
          then have "i2 < argc s" by (auto simp: a_def split: if_splits)
          with r has_arg done_ok [of ?t i c] i show ?thesis by auto
        qed
      qed
    qed
  qed
qed

text \<open>
  One call of \<open>getopt\<close>: it moves arguments but loses none, and it returns an option with its
  argument, or the index of the first argument that is not an option.
\<close>

definition getopt_outcome :: "string \<Rightarrow> getopt_state \<Rightarrow> opt_result \<times> getopt_state \<Rightarrow> bool" where
  "getopt_outcome optstr s r \<longleftrightarrow>
     (case r of (c, s') \<Rightarrow>
        mset (argv s') = mset (argv s) \<and>
        (c = No_more \<and> nonopt s' < argc s' \<or>
         (\<exists>l. c = Option l \<and> getopt_left s' < getopt_left s \<and>
            (l \<noteq> CHR ''?'' \<longrightarrow> getopt_ok s' \<and> (takes_argument optstr l \<longrightarrow> optarg s' \<noteq> None)))))"

lemma getopt_outcome_trans:
  assumes "mset (argv t) = mset (argv s)" "getopt_left t \<le> getopt_left s" "getopt_outcome optstr t r"
  shows "getopt_outcome optstr s r"
  using assms(2,3) unfolding getopt_outcome_def assms(1) by (cases r) fastforce

lemma letter_is_outcome: "letter_outcome optstr s r \<Longrightarrow> getopt_outcome optstr s r"
  by (cases r) (auto simp: letter_outcome_def getopt_outcome_def)

lemma skip_dash_dash_ok:
  assumes "getopt_ok s"
  shows "\<exists>s'. skip_dash_dash s = Inr s' \<and> getopt_ok s' \<and> argv s' = argv s \<and> optarg s' = optarg s \<and>
    getopt_left s' \<le> getopt_left s \<and> (argv_index s' < argc s \<and> argv s ! argv_index s' = ''--'' \<longrightarrow> dashdash s')"
proof (cases "argv_index s < argc s \<and> argv s ! argv_index s = ''--''")
  case True
  let ?s = "s\<lparr>dashdash := True\<rparr>"
  obtain i where i: "increment_index ?s = Inr (?s\<lparr>argv_index := i, opt_offset := 1\<rparr>)" "argv_index s < i" "i \<le> argc s"
    using increment_index_total [of ?s] True by auto
  then have "sum_list (map (\<lambda>w. Suc (length w)) (drop i (argv s))) + Suc (length (argv s ! argv_index s))
      \<le> sum_list (map (\<lambda>w. Suc (length w)) (drop (argv_index s) (argv s)))"
    using True by (intro left_after_increment) auto
  moreover have "opt_offset s = 1" using True assms by (auto simp: getopt_ok_def is_option_def)
  ultimately have "getopt_left (?s\<lparr>argv_index := i, opt_offset := 1\<rparr>) \<le> getopt_left s" by (simp add: getopt_left_def)
  moreover have "getopt_ok (?s\<lparr>argv_index := i, opt_offset := 1\<rparr>)" using i assms by (auto simp: getopt_ok_def)
  ultimately show ?thesis using i True by (auto simp: skip_dash_dash_def arg_at_def)
next
  case False
  with assms show ?thesis by (auto simp: skip_dash_dash_def arg_at_def getopt_ok_def)
qed

lemma permute_ok:
  assumes "getopt_ok s" "argv_index s < argc s" "\<not> is_option (argv s ! argv_index s) \<or> dashdash s"
    "permute_argv_once s = Some s'"
  shows "getopt_ok s'" "mset (argv s') = mset (argv s)" "getopt_left s' = getopt_left s"
proof -
  let ?k = "argv_index s" and ?xs = "argv s"
  have s': "s' = s\<lparr>argv := take ?k ?xs @ drop (?k + 1) ?xs @ [?xs ! ?k], nonopt := nonopt s + 1\<rparr>"
    and room: "?k + nonopt s < argc s" using assms(4) by (auto simp: permute_argv_once_def split: if_splits)
  have d: "drop ?k ?xs = ?xs ! ?k # drop (Suc ?k) ?xs" using assms(2) by (simp add: Cons_nth_drop_Suc)
  then have "mset ?xs = mset (take ?k ?xs) + add_mset (?xs ! ?k) (mset (drop (Suc ?k) ?xs))"
    by (metis append_take_drop_id mset.simps(2) mset_append)
  then show m: "mset (argv s') = mset (argv s)" by (simp add: s')
  have off: "opt_offset s = 1" using assms(1,3) by (auto simp: getopt_ok_def)
  have "drop ?k (argv s') = drop (Suc ?k) ?xs @ [?xs ! ?k]" using assms(2) by (simp add: s')
  then show "getopt_left s' = getopt_left s" by (simp add: getopt_left_def d s')
  have "length (argv s') = argc s" "set (argv s') = set (argv s)"
    using m by (metis size_mset, metis set_mset_mset)
  then show "getopt_ok s'" using assms(1) room off by (auto simp: getopt_ok_def args_ok_def s')
qed

lemma getopt_top_outcome:
  assumes "getopt_ok s" "first_char optstr \<notin> {CHR ''-'', CHR ''+''}"
  shows "\<exists>r. getopt_top posix optstr s = Inr r \<and> getopt_outcome optstr s r"
  using assms
proof (induction posix optstr s rule: getopt_top.induct)
  case (1 posix optstr s)
  have ok0: "getopt_ok (s\<lparr>optarg := None\<rparr>)" using "1.prems"(1) by (simp add: getopt_ok_def)
  have l: "getopt_left (s\<lparr>optarg := None\<rparr>) = getopt_left s" by (simp add: getopt_left_def)
  obtain s1 where s1: "skip_dash_dash (s\<lparr>optarg := None\<rparr>) = Inr s1" "getopt_ok s1" "argv s1 = argv s"
    "optarg s1 = None" "getopt_left s1 \<le> getopt_left s"
    "argv_index s1 < argc s \<and> argv s ! argv_index s1 = ''--'' \<longrightarrow> dashdash s1"
    using skip_dash_dash_ok [OF ok0, unfolded l, simplified] by blast
  then have nonopt: "nonopt s1 < argc s1" "argv_index s1 \<le> argc s1" "1 \<le> argv_index s1" by (auto simp: getopt_ok_def)
  have stop: "getopt_outcome optstr s (No_more, s1)" "getopt_outcome optstr s (No_more, s1\<lparr>nonopt := argc s1 - argv_index s1\<rparr>)"
    using nonopt s1(3) by (auto simp: getopt_outcome_def)
  show ?case
  proof (cases "argv_index s1 < argc s1")
    case False
    then have "arg_at (argv s1) (argv_index s1) = Inr None" using nonopt by (simp add: arg_at_def)
    with stop show ?thesis by (subst getopt_top.simps) (auto simp: s1(1))
  next
    case True
    let ?arg = "argv s1 ! argv_index s1"
    have a: "arg_at (argv s1) (argv_index s1) = Inr (Some ?arg)" using True by (simp add: arg_at_def)
    show ?thesis
    proof (cases "dashdash s1 \<or> first_char ?arg \<noteq> CHR ''-'' \<or> ?arg = ''-''")
      case plain: True
      show ?thesis
      proof (cases "\<not> posix \<and> permute_argv_once s1 \<noteq> None")
        case False
        with stop plain "1.prems"(2) show ?thesis
          by (subst getopt_top.simps) (auto simp: s1(1) a)
      next
        case p: True
        then obtain s2 where s2: "permute_argv_once s1 = Some s2" by auto
        have "\<not> is_option ?arg \<or> dashdash s1" using plain by (auto simp: is_option_def)
        note ok2 = permute_ok [OF s1(2) True this s2]
        have "\<exists>r. getopt_top posix optstr s2 = Inr r \<and> getopt_outcome optstr s2 r"
          by (rule "1.IH" [OF s1(1) a refl plain _ _ s2 ok2(1) "1.prems"(2)]) (use p "1.prems"(2) in auto)
        then obtain r where r: "getopt_top posix optstr s2 = Inr r" "getopt_outcome optstr s2 r" by auto
        then have "getopt_outcome optstr s r"
          using ok2(2,3) s1(3,5) by (intro getopt_outcome_trans [of s2 s]) simp_all
        moreover have "getopt_top posix optstr s = getopt_top posix optstr s2"
          using p plain "1.prems"(2) s2 by (subst getopt_top.simps) (simp add: s1(1) a)
        ultimately show ?thesis using r by simp
      qed
    next
      case opt: False
      have "is_option ?arg" using opt s1(3,6) True by (auto simp: is_option_def)
      then obtain r where "option_letter optstr ?arg s1 = Inr r" "letter_outcome optstr s1 r"
        using option_letter_outcome [OF s1(2) True _ _ _ s1(4), of optstr] opt "1.prems"(2) by blast
      moreover from this have "getopt_outcome optstr s r"
        using s1(3,5) by (intro getopt_outcome_trans [of s1 s] letter_is_outcome) simp_all
      ultimately show ?thesis using opt by (subst getopt_top.simps) (auto simp: s1(1) a)
    qed
  qed
qed

lemma getopt_call:
  assumes "getopt_ok (getopt_start s)" "first_char optstr \<notin> {CHR ''-'', CHR ''+''}"
  shows "\<exists>c s'. getopt posix optstr s = Inr (c, s') \<and> mset (argv s') = mset (argv s) \<and>
    (c = No_more \<and> 1 \<le> optind s' \<and> optind s' \<le> argc s \<or>
     (\<exists>l. c = Option l \<and> getopt_left s' < getopt_left (getopt_start s) \<and>
       (l \<noteq> CHR ''?'' \<longrightarrow> getopt_ok s' \<and> (takes_argument optstr l \<longrightarrow> optarg s' \<noteq> None))))"
proof -
  obtain c t where t: "getopt_top posix optstr (getopt_start s) = Inr (c, t)" "getopt_outcome optstr (getopt_start s) (c, t)"
    using getopt_top_outcome [OF assms, of posix] by auto
  let ?t = "t\<lparr>optind := (if c = No_more then argc t - nonopt t else argv_index t)\<rparr>"
  have m: "mset (argv t) = mset (argv s)" using t(2) by (simp add: getopt_outcome_def getopt_start_def split: if_splits)
  then have "argc t = argc s" by (metis size_mset)
  moreover have "getopt_ok t \<Longrightarrow> getopt_ok ?t" by (simp add: getopt_ok_def)
  moreover have "getopt posix optstr s = Inr (c, ?t)" by (simp add: getopt_def t(1))
  ultimately show ?thesis using t(2) m by (auto simp: getopt_outcome_def getopt_left_def)
qed

lemma initial_getopt_ok: "args_ok args \<Longrightarrow> getopt_ok (getopt_start (initial_getopt args))"
  by (auto simp: getopt_ok_def getopt_start_def initial_getopt_def args_ok_def Suc_le_eq)

definition parse_fuel :: "string list \<Rightarrow> nat" where
  \<comment> \<open>enough calls of \<open>getopt\<close>: one for each byte of the arguments\<close>
  "parse_fuel args = sum_list (map (\<lambda>w. Suc (length w)) args) + 1"

lemma initial_getopt_left: "getopt_left (getopt_start (initial_getopt args)) < parse_fuel args"
  by (cases args) (auto simp: getopt_left_def getopt_start_def initial_getopt_def parse_fuel_def)

subsection \<open>The contract of a program's branches\<close>

text \<open>
  What a program owes the loop: its option string has no leading sign, an unknown option or a
  missing argument ends the parsing, every other letter is handled when its argument is there,
  and the handled options satisfy an invariant.
\<close>

locale getopt_client =
  fixes optstr :: string
    and handle :: "char \<Rightarrow> getopt_state \<Rightarrow> 'o \<Rightarrow> 'o step result"
    and inv :: "'o \<Rightarrow> bool"
  assumes plain_optstr: "first_char optstr \<notin> {CHR ''-'', CHR ''+''}"
    and unknown_leaves: "\<exists>n. handle CHR ''?'' s opts = Inr (Leave n)"
    and handled: "c \<noteq> CHR ''?'' \<Longrightarrow> takes_argument optstr c \<longrightarrow> optarg s \<noteq> None \<Longrightarrow> \<exists>st. handle c s opts = Inr st"
    and keeps_inv: "inv opts \<Longrightarrow> handle c s opts = Inr (Go_on opts') \<Longrightarrow> inv opts'"
begin

lemma parse_total:
  assumes "getopt_ok (getopt_start s)" "getopt_left (getopt_start s) < fuel" "inv opts"
  shows "\<exists>r. option_loop fuel posix optstr handle s opts = Inr r \<and>
    (\<forall>opts' s'. r = Parsed opts' s' \<longrightarrow> inv opts' \<and> mset (argv s') = mset (argv s) \<and> 1 \<le> optind s' \<and> optind s' \<le> argc s)"
  using assms
proof (induction fuel arbitrary: s opts)
  case 0
  then show ?case by simp
next
  case (Suc fuel)
  obtain c s1 where c: "getopt posix optstr s = Inr (c, s1)" "mset (argv s1) = mset (argv s)"
    "c = No_more \<and> 1 \<le> optind s1 \<and> optind s1 \<le> argc s \<or>
     (\<exists>l. c = Option l \<and> getopt_left s1 < getopt_left (getopt_start s) \<and>
       (l \<noteq> CHR ''?'' \<longrightarrow> getopt_ok s1 \<and> (takes_argument optstr l \<longrightarrow> optarg s1 \<noteq> None)))"
    using getopt_call [OF Suc.prems(1) plain_optstr, of posix] by blast
  show ?case
  proof (cases c)
    case No_more
    with c Suc.prems(3) show ?thesis by auto
  next
    case Plain_argument
    with c show ?thesis by auto
  next
    case (Option l)
    with c(3) have left: "getopt_left s1 < getopt_left (getopt_start s)"
      and l: "l \<noteq> CHR ''?'' \<longrightarrow> getopt_ok s1 \<and> (takes_argument optstr l \<longrightarrow> optarg s1 \<noteq> None)" by auto
    obtain st where st: "handle l s1 opts = Inr st" using l handled [of l s1 opts] unknown_leaves [of s1 opts] by blast
    show ?thesis
    proof (cases st)
      case (Go_on o1)
      then have "l \<noteq> CHR ''?''" using st unknown_leaves [of s1 opts] by auto
      then have ok: "getopt_ok s1" using l by simp
      have "inv o1" using keeps_inv Suc.prems(3) st Go_on by blast
      moreover have start: "getopt_start s1 = s1" using ok by (simp add: getopt_ok_def getopt_start_def)
      moreover have "getopt_left s1 < fuel" using left Suc.prems(2) by simp
      moreover have "argc s1 = argc s" using c(2) by (metis size_mset)
      ultimately show ?thesis using Suc.IH [of s1 o1] ok c Option st Go_on by auto
    qed (use c Option st in auto)
  qed
qed

end


text \<open>
  The options that a program meets: \<open>option_at\<close> relates the start of the loop to every letter that
  is handed to its branches, with the scanner and the options at that time. A program that leaves
  the loop, or aborts in it, does so in the branch of a letter that it meets.
\<close>

definition letter :: "opt_result \<Rightarrow> char option" where
  "letter r = (case r of No_more \<Rightarrow> None | Plain_argument \<Rightarrow> Some (CHR 0x01) | Option c \<Rightarrow> Some c)"

inductive option_at ::
  "bool \<Rightarrow> string \<Rightarrow> (char \<Rightarrow> getopt_state \<Rightarrow> 'o \<Rightarrow> 'o step result) \<Rightarrow> getopt_state \<Rightarrow> 'o \<Rightarrow>
   char \<Rightarrow> getopt_state \<Rightarrow> 'o \<Rightarrow> bool" for posix optstr handle where
  option_now: "getopt posix optstr s = Inr (r, s1) \<Longrightarrow> letter r = Some c \<Longrightarrow>
    option_at posix optstr handle s opts c s1 opts"
| option_later: "getopt posix optstr s = Inr (r, s1) \<Longrightarrow> letter r = Some c \<Longrightarrow>
    handle c s1 opts = Inr (Go_on opts1) \<Longrightarrow> option_at posix optstr handle s1 opts1 c2 s2 opts2 \<Longrightarrow>
    option_at posix optstr handle s opts c2 s2 opts2"

lemma option_loop_met:
  assumes "option_loop fuel posix optstr handle s opts = Inr x" "\<And>opts1 s1. x \<noteq> Parsed opts1 s1"
  shows "\<exists>c s1 opts1. option_at posix optstr handle s opts c s1 opts1 \<and>
    handle c s1 opts1 = Inr (case x of Left n \<Rightarrow> Leave n | _ \<Rightarrow> Abort)"
  using assms(1)
proof (induction fuel arbitrary: s opts)
  case (Suc fuel)
  obtain r s1 where r: "getopt posix optstr s = Inr (r, s1)"
    using Suc.prems by (auto simp: plfit_check_eq_Inr)
  obtain c where c: "letter r = Some c" using r Suc.prems assms(2) by (cases r) (auto simp: letter_def)
  have go: "plfit_check (handle c s1 opts) (\<lambda>st. case st of
        Go_on opts' \<Rightarrow> option_loop fuel posix optstr handle s1 opts'
      | Leave m \<Rightarrow> Inr (Left m) | Abort \<Rightarrow> Inr Aborted_parse) = Inr x"
    using r c Suc.prems by (cases r) (auto simp: letter_def Let_def)
  then obtain st where st: "handle c s1 opts = Inr st" by (auto simp: plfit_check_eq_Inr)
  show ?case
  proof (cases st)
    case (Go_on opts')
    with go st have "option_loop fuel posix optstr handle s1 opts' = Inr x" by simp
    from Suc.IH [OF this] option_later [of posix optstr s r s1 c handle opts opts'] r c st Go_on show ?thesis by blast
  qed (use option_now [OF r c] st go in \<open>auto intro!: exI\<close>)
qed simp

end
