(* ===== verification/Plgen.thy ===== *)
theory Plgen
  imports Stdio Getopt Walker
begin

text \<open>
  The program \<open>plgen\<close> of \<open>src/plgen.c\<close>: option parsing over \<open>getopt\<close>, the two samplers, and
  \<open>main\<close>. The program never installs an error handler, so an error of the library ends it
  (\<open>plfit_error_handler_abort\<close>); such a run has the result \<open>Inl (Err e)\<close>. Standard output is a
  list of lines, one value each; messages and the help text are left out.
\<close>

record cmd_options_t =
  pg_num_samples :: int
  pg_gamma :: double
  pg_kappa :: double
  pg_offset :: double
  pg_xmin :: double
  pg_continuous :: bool
  pg_use_seed :: bool
  pg_seed :: nat

datatype output_line = Long_line int | Double_line double

definition printed_line :: "output_line \<Rightarrow> string" where
  "printed_line l = (case l of Long_line i \<Rightarrow> show_long i | Double_line x \<Rightarrow> show_fixed8 x) @ [CHR 0x0A]"

datatype program_end = Exited int "output_line list" | Program_aborted

definition plgen_defaults :: cmd_options_t where
  "plgen_defaults =
     \<lparr>pg_num_samples = 0, pg_gamma = 0, pg_kappa = - 1, pg_offset = 0, pg_xmin = 1,
      pg_continuous = False, pg_use_seed = False, pg_seed = 0\<rparr>"

definition plgen_option :: "char \<Rightarrow> getopt_state \<Rightarrow> cmd_options_t \<Rightarrow> cmd_options_t step result" where
  "plgen_option c s opts =
     (if c = CHR ''c'' then Inr (Go_on (opts\<lparr>pg_continuous := True\<rparr>))
      else if c = CHR ''h'' then Inr (Leave 0)
      else if c = CHR ''k'' then with_optarg s (\<lambda>w.
        case sscanf1 (scan_double w) (pg_kappa opts) of
          None \<Rightarrow> Inr (Leave 1) | Some x \<Rightarrow> Inr (Go_on (opts\<lparr>pg_kappa := x\<rparr>)))
      else if c = CHR ''o'' then with_optarg s (\<lambda>w.
        case sscanf1 (scan_double w) (pg_offset opts) of
          None \<Rightarrow> Inr (Leave 1) | Some x \<Rightarrow> Inr (Go_on (opts\<lparr>pg_offset := x\<rparr>)))
      else if c = CHR ''s'' then with_optarg s (\<lambda>w.
        case sscanf1 (scan_ulong w) (pg_seed opts) of
          None \<Rightarrow> Inr (Leave 1) | Some n \<Rightarrow> Inr (Go_on (opts\<lparr>pg_seed := n, pg_use_seed := True\<rparr>)))
      else if c = CHR ''v'' then Inr (Leave 0)
      else if c = CHR ''x'' then with_optarg s (\<lambda>w.
        case sscanf1 (scan_double w) (pg_xmin opts) of
          None \<Rightarrow> Inr (Leave 1)
        | Some x \<Rightarrow> if x \<le> 0 then Inr (Leave 1) else Inr (Go_on (opts\<lparr>pg_xmin := x\<rparr>)))
      else if c = CHR ''?'' then Inr (Leave 1)
      else Inr Abort)"

definition plgen_optstr :: string where
  "plgen_optstr = ''chk:o:s:vx:''"

definition rounded_xmin :: "cmd_options_t \<Rightarrow> cmd_options_t" where
  "rounded_xmin opts =
     (if \<not> pg_continuous opts \<and> \<not> deq (dceil (pg_xmin opts)) (pg_xmin opts)
      then opts\<lparr>pg_xmin := dceil (pg_xmin opts)\<rparr> else opts)"

definition plgen_parse_cmd_options ::
  "environment \<Rightarrow> nat \<Rightarrow> string list \<Rightarrow> cmd_options_t parsed result" where
  "plgen_parse_cmd_options E fuel args =
     plfit_check (option_loop fuel (posixly_correct E) plgen_optstr plgen_option (initial_getopt args) plgen_defaults)
       (\<lambda>r. Inr (case r of Parsed opts s \<Rightarrow> Parsed (rounded_xmin opts) s | _ \<Rightarrow> r))"

subsection \<open>Sampling\<close>

definition BLOCK_SIZE :: nat where "BLOCK_SIZE = 16384"
definition num_probs :: nat where "num_probs = 100000"

definition neg_size :: "nat \<Rightarrow> nat" where
  \<comment> \<open>the minus sign on a \<open>size_t\<close>\<close>
  "neg_size i = (2 ^ 64 - i) mod 2 ^ 64"

definition cutoff_weight :: "clib \<Rightarrow> cmd_options_t \<Rightarrow> nat \<Rightarrow> double" where
  "cutoff_weight L opts i =
     c_exp L (double_of_nat (neg_size i) / pg_kappa opts) *
     c_pow L ((double_of_nat i + pg_xmin opts) / pg_xmin opts) (- pg_gamma opts)"

fun print_block :: "cmd_options_t \<Rightarrow> int list \<Rightarrow> output_line list result" where
  "print_block opts [] = Inr []"
| "print_block opts (x # xs) =
     plfit_check (cast_long (double_of_int x + pg_offset opts + pg_xmin opts)) (\<lambda>i.
     plfit_check (print_block opts xs) (\<lambda>ls. Inr (Long_line i # ls)))"

function cutoff_blocks ::
  "clib \<Rightarrow> cmd_options_t \<Rightarrow> walker_alias_sampler \<Rightarrow> nat \<Rightarrow> rng \<Rightarrow> output_line list drawn" where
  "cutoff_blocks L opts w m g =
     (if m = 0 then Inr ([], g)
      else let n = min m BLOCK_SIZE in
        plfit_check (walker_alias_sampler_sample L w n g) (\<lambda>(xs, g1).
        plfit_check (print_block opts xs) (\<lambda>ls.
        plfit_check (cutoff_blocks L opts w (m - n) g1) (\<lambda>(rest, g2). Inr (ls @ rest, g2)))))"
  by pat_completeness auto
termination by (relation "measure (\<lambda>(L, opts, w, m, g). m)") (auto simp: BLOCK_SIZE_def)

declare cutoff_blocks.simps [simp del]

fun zeta_lines :: "clib \<Rightarrow> nat \<Rightarrow> cmd_options_t \<Rightarrow> nat \<Rightarrow> rng \<Rightarrow> output_line list drawn" where
  "zeta_lines L fuel opts 0 g = Inr ([], g)"
| "zeta_lines L fuel opts (Suc n) g =
     plfit_check (cast_long (pg_xmin opts)) (\<lambda>xmin.
     plfit_check (plfit_rzeta L fuel xmin (pg_gamma opts) g) (\<lambda>(x, g1).
     plfit_check (cast_long (x + pg_offset opts)) (\<lambda>i.
     plfit_check (zeta_lines L fuel opts n g1) (\<lambda>(ls, g2). Inr (Long_line i # ls, g2)))))"

definition sample_discrete ::
  "clib \<Rightarrow> nat \<Rightarrow> cmd_options_t \<Rightarrow> rng \<Rightarrow> (int \<times> output_line list) result" where
  \<comment> \<open>the status 9 is never returned, since an error of the sampler aborts the program\<close>
  "sample_discrete L fuel opts g =
     (if pg_num_samples opts \<le> 0 then Inr (0, [])
      else if 0 < pg_kappa opts then
        (if \<not> c_alloc L (num_probs * sizeof_double) then Inr (7, [])
         else plfit_check (walker_alias_sampler_init L (map (cutoff_weight L opts) [0..<num_probs])) (\<lambda>w.
           plfit_check (cutoff_blocks L opts w (nat (pg_num_samples opts)) g) (\<lambda>(ls, g'). Inr (0, ls))))
      else plfit_check (zeta_lines L fuel opts (nat (pg_num_samples opts)) g) (\<lambda>(ls, g'). Inr (0, ls)))"

fun pareto_lines :: "clib \<Rightarrow> cmd_options_t \<Rightarrow> nat \<Rightarrow> rng \<Rightarrow> output_line list drawn" where
  "pareto_lines L opts 0 g = Inr ([], g)"
| "pareto_lines L opts (Suc n) g =
     plfit_check (plfit_rpareto L (pg_xmin opts) (pg_gamma opts - 1) g) (\<lambda>(x, g1).
     plfit_check (pareto_lines L opts n g1) (\<lambda>(ls, g2). Inr (Double_line (x + pg_offset opts) # ls, g2)))"

definition sample_continuous :: "clib \<Rightarrow> cmd_options_t \<Rightarrow> rng \<Rightarrow> (int \<times> output_line list) result" where
  "sample_continuous L opts g =
     (if 0 < pg_kappa opts then Inr (5, [])
      else plfit_check (pareto_lines L opts (nat (pg_num_samples opts)) g) (\<lambda>(ls, g'). Inr (0, ls)))"

definition plgen_run :: "clib \<Rightarrow> environment \<Rightarrow> nat \<Rightarrow> cmd_options_t \<Rightarrow> (int \<times> output_line list) result" where
  "plgen_run L E fuel opts =
     (let (m, st) = plfit_mt_init L (seeded E (pg_use_seed opts) (pg_seed opts)) in
      if pg_continuous opts then sample_continuous L opts (Twister m)
      else sample_discrete L fuel opts (Twister m))"

definition plgen_main :: "clib \<Rightarrow> environment \<Rightarrow> nat \<Rightarrow> string list \<Rightarrow> program_end result" where
  "plgen_main L E fuel args =
     plfit_check (plgen_parse_cmd_options E fuel args) (\<lambda>r.
     case r of
       Left n \<Rightarrow> Inr (Exited n [])
     | Aborted_parse \<Rightarrow> Inr Program_aborted
     | Parsed opts s \<Rightarrow>
         if argc s < optind s + 2 then Inr (Exited 2 [])
         else case sscanf1 (scan_long (argv s ! optind s)) (pg_num_samples opts) of
           None \<Rightarrow> Inr (Exited 3 [])
         | Some n \<Rightarrow>
             (case sscanf1 (scan_double (argv s ! (optind s + 1))) (pg_gamma opts) of
                None \<Rightarrow> Inr (Exited 4 [])
              | Some x \<Rightarrow>
                  plfit_check (plgen_run L E fuel (opts\<lparr>pg_num_samples := n, pg_gamma := x\<rparr>))
                    (\<lambda>(status, ls). Inr (Exited status ls))))"

subsection \<open>Weights that are not finite\<close>

text \<open>
  A table whose weights, from the second on, are infinite or no numbers: the normalised weights
  are zero or NaN, no stick is long, and every column of the table yields the outcome 0.
\<close>

lemma table_without_long_sticks:
  assumes "\<forall>p \<in> set prs. \<not> 1 < p" "prs \<noteq> []"
  obtains prs' where "prepare_table prs = Inr (replicate (length prs) 0, prs')" "length prs' = length prs"
    "\<forall>i < length prs. prs' ! i = (if prs ! i < 1 then 1 else prs ! i)"
proof -
  let ?n = "length prs"
  let ?Q = "\<lambda>s. longs s = [] \<and> s_indexes s = replicate (max 1 ?n) 0 \<and> s_probs s = prs \<and> shorts s = short_columns prs ?n"
  have none: "long_columns prs ?n = []" using assms(1) by (auto simp: long_columns_def filter_empty_conv)
  obtain s idx prs' where "prepare_table prs = Inr (idx, prs')" "?Q s" "idx = s_indexes s" "length prs' = max 1 ?n"
    "\<forall>i < ?n. prs' ! i = (if i \<in> set (shorts s @ longs s) then 1 else s_probs s ! i)"
    by (rule prepare_table_rule [of prs ?Q]) (use none assms(2) in \<open>auto simp: classified_def paired_def\<close>)
  moreover have "max 1 ?n = ?n" using assms(2) by (cases prs) simp_all
  ultimately show ?thesis by (intro that [of prs']) (auto simp: short_columns_def)
qed

lemma walker_init_total:
  assumes "length ps \<le> LONG_MAX" "\<And>n. c_alloc L n"
  shows "\<exists>w. walker_alias_sampler_init L ps = Inr w"
proof -
  obtain idx prs' where "prepare_table (normalize_weights ps) = Inr (idx, prs')"
    by (rule prepare_table_safe [of "normalize_weights ps"])
  with assms show ?thesis by (auto simp: walker_init_cases)
qed

lemma not_finite_sum: "\<not> isfinite x \<or> \<not> isfinite y \<Longrightarrow> \<not> isfinite (x + y)"
  by (cases x; cases y) (auto simp: plus_double_def dadd_def)

lemma not_finite_foldl: "\<not> isfinite a \<or> (\<exists>x \<in> set xs. \<not> isfinite x) \<Longrightarrow> \<not> isfinite (foldl (+) a xs)"
  by (induction xs arbitrary: a) (auto simp: not_finite_sum)

lemma quotient_by_infinite:
  "isfinite x \<Longrightarrow> \<not> isfinite y \<Longrightarrow> x div y \<in> {NaN, Fin 0, NegZero}"
  by (cases x; cases y) (auto simp: divide_double_def ddiv_def)

lemma times_zero:
  "z \<in> {NaN, Fin 0, NegZero} \<Longrightarrow> \<not> 1 < x * z"
  "z \<in> {NaN, Fin 0, NegZero} \<Longrightarrow> \<not> isfinite x \<Longrightarrow> x * z = NaN"
proof -
  assume z: "z \<in> {NaN, Fin 0, NegZero}"
  then show nan: "\<not> isfinite x \<Longrightarrow> x * z = NaN" by (cases x) (auto simp: times_double_def dmul_def)
  show "\<not> 1 < x * z"
  proof (cases "isfinite x")
    case True
    then have "x * z \<in> {NaN, Fin 0, NegZero}" using z by (auto simp: times_double_def dmul_def to_double_0)
    then show ?thesis by (auto simp: one_double_def dless_iff)
  qed (simp add: nan)
qed

lemma walker_draw_zero:
  assumes "\<And>u r. walker_choose w u r = Inr 0" "sampler_ok w" "0 < num_bins w" "rng_ok L g"
  shows "\<exists>g'. walker_alias_sampler_sample L w n g = Inr (replicate n 0, g') \<and> rng_ok L g'"
  using assms(4)
proof (induction n arbitrary: g)
  case 0
  then show ?case by simp
next
  case (Suc n)
  obtain x g1 where x: "walker_draw L w g = Inr (x, g1)" "rng_ok L g1"
    using walker_draw_ok [OF assms(2,3) Suc.prems] by auto
  then have "x = 0"
    by (auto simp: walker_draw_def assms(1) plfit_check_eq_Inr split: rng.splits prod.splits)
  with x Suc.IH [OF x(2)] show ?case by auto
qed

lemma infinite_weights_give_zero:
  assumes "\<forall>i. 0 < i \<and> i < length ps \<longrightarrow> \<not> isfinite (ps ! i)" "1 < length ps" "length ps \<le> 2 ^ 53"
    "walker_alias_sampler_init L ps = Inr w"
  shows "walker_choose w u r = Inr 0"
proof -
  let ?n = "length ps" and ?prs = "normalize_weights ps"
  let ?z = "double_of_nat ?n / sum_weights ps"
  have "ps ! 1 \<in> set ps" "\<not> isfinite (ps ! 1)" using assms(1,2) by auto
  then have "\<not> isfinite (sum_weights ps)" unfolding sum_weights_def by (intro not_finite_foldl) auto
  then have z: "?z \<in> {NaN, Fin 0, NegZero}"
    using assms(3) by (intro quotient_by_infinite) (simp_all add: double_of_nat_exact)
  have prs: "?prs = map (\<lambda>p. p * ?z) ps" by (simp add: normalize_weights_def Let_def)
  have "\<forall>p \<in> set ?prs. \<not> 1 < p" using times_zero(1) [OF z] by (auto simp: prs)
  moreover have "?prs \<noteq> []" using assms(2) by (auto simp: prs)
  ultimately obtain prs' where p: "prepare_table ?prs = Inr (replicate ?n 0, prs')" "length prs' = ?n"
    "\<forall>i < ?n. prs' ! i = (if ?prs ! i < 1 then 1 else ?prs ! i)"
    by (rule table_without_long_sticks) auto
  have nan: "prs' ! i = NaN" if "0 < i" "i < ?n" for i
    using that p(3) assms(1) times_zero(2) [OF z] by (auto simp: prs)
  have w: "num_bins w = int ?n" "indexes w = replicate ?n 0" "probs w = prs'"
    using assms(4) p(1) by (auto simp: walker_init_cases split: if_splits)
  define j where "j = r mod int ?n"
  have "0 < int ?n" using assms(2) by auto
  then have "0 \<le> j" "j < int ?n" unfolding j_def by (rule pos_mod_sign, rule pos_mod_bound)
  then have j: "0 \<le> j" "nat j < ?n" by linarith+
  have "\<not> u < prs' ! nat j" if "j \<noteq> 0" using nan [of "nat j"] j that by auto
  then show ?thesis using j p(2) assms(2) w by (auto simp: walker_choose_def Let_def j_def [symmetric])
qed

text \<open>What C requires of \<open>exp\<close> beyond the range of \<open>double\<close>: the result overflows to infinity.\<close>

definition exp_overflows :: "clib \<Rightarrow> bool" where
  "exp_overflows L \<longleftrightarrow> (\<forall>x. Fin 710 \<le> x \<longrightarrow> c_exp L x = PInf)"

lemma pow2_double:
  assumes "n < 1024"
  shows "is_double (Fin (2 ^ n))"
proof -
  have "(2 :: rat) ^ n < 2 ^ 1024" using assms by (rule power_strict_increasing) simp
  moreover have "\<bar>(2 :: rat) ^ n\<bar> = 2 ^ n" by (rule abs_of_pos) simp
  ultimately show ?thesis by (simp only: is_double_Fin representable_pow2)
qed

lemma cutoff_exponent:
  assumes "0 < kappa" "kappa \<le> Fin (2 ^ 50)" "0 < i" "i < num_probs"
  shows "Fin 710 \<le> double_of_nat (neg_size i) / kappa"
proof -
  have k: "isfinite kappa" "0 < val kappa" "val kappa \<le> 2 ^ 50"
    using assms(1,2) by (cases kappa; auto simp: zero_double_def)+
  have n: "2 ^ 63 \<le> neg_size i" "neg_size i \<le> 2 ^ 64" using assms(3,4) by (auto simp: neg_size_def num_probs_def)
  define a where "a = double_of_nat (neg_size i)"
  have lo: "Fin (2 ^ 63) \<le> a" unfolding a_def double_of_nat_def double_of_int_def
  proof (rule to_double_ge_Fin)
    have "(of_nat (2 ^ 63) :: rat) \<le> of_nat (neg_size i)" using n(1) by (simp only: of_nat_le_iff)
    then show "2 ^ 63 \<le> (of_int (int (neg_size i)) :: rat)" by simp
    show "is_double (Fin (2 ^ 63))" by (rule pow2_double) simp
  qed
  have hi: "a \<le> Fin (2 ^ 64)" unfolding a_def double_of_nat_def double_of_int_def
  proof (rule to_double_le_Fin)
    have "(of_nat (neg_size i) :: rat) \<le> of_nat (2 ^ 64)" using n(2) by (simp only: of_nat_le_iff)
    then show "(of_int (int (neg_size i)) :: rat) \<le> 2 ^ 64" by simp
    show "is_double (Fin (2 ^ 64))" by (rule pow2_double) simp
  qed
  have a: "isfinite a" "2 ^ 63 \<le> val a" using lo hi isfinite_between [of "Fin (2 ^ 63)" a "Fin (2 ^ 64)"]
    by (auto simp: dle_finite)
  have "(2 :: rat) ^ 13 * val kappa \<le> 2 ^ 13 * 2 ^ 50" using k by (intro mult_left_mono) auto
  then have "2 ^ 13 \<le> val a / val kappa" using a k by (simp add: pos_le_divide_eq)
  then have "Fin (2 ^ 13) \<le> to_double (sign_bit a \<noteq> sign_bit kappa) (val a / val kappa)"
    by (rule to_double_ge_Fin) (rule pow2_double, simp)
  moreover have "a / kappa = to_double (sign_bit a \<noteq> sign_bit kappa) (val a / val kappa)"
    using a k by (simp add: ddiv_finite)
  ultimately have "Fin (2 ^ 13) \<le> a / kappa" by simp
  then show ?thesis unfolding a_def by (rule dle_trans [rotated]) simp
qed

lemma cutoff_weight_not_finite:
  assumes "exp_overflows L" "0 < pg_kappa opts" "pg_kappa opts \<le> Fin (2 ^ 50)" "0 < i" "i < num_probs"
  shows "\<not> isfinite (cutoff_weight L opts i)"
proof -
  have "c_exp L (double_of_nat (neg_size i) / pg_kappa opts) = PInf"
    using assms(1) cutoff_exponent [OF assms(2-5)] by (simp add: exp_overflows_def)
  then show ?thesis
    by (cases "c_pow L ((double_of_nat i + pg_xmin opts) / pg_xmin opts) (- pg_gamma opts)")
      (auto simp: cutoff_weight_def times_double_def dmul_def dinf_def)
qed

lemma print_block_zeros:
  "cast_long (double_of_int 0 + pg_offset opts + pg_xmin opts) = Inr v \<Longrightarrow>
     print_block opts (replicate n 0) = Inr (replicate n (Long_line v))"
  by (induction n) auto

lemma cutoff_blocks_zeros:
  assumes "\<And>u r. walker_choose w u r = Inr 0" "sampler_ok w" "0 < num_bins w"
    "cast_long (double_of_int 0 + pg_offset opts + pg_xmin opts) = Inr v" "rng_ok L g"
  shows "\<exists>g'. cutoff_blocks L opts w m g = Inr (replicate m (Long_line v), g')"
  using assms(5)
proof (induction m arbitrary: g rule: less_induct)
  case (less m)
  show ?case
  proof (cases "m = 0")
    case True
    then show ?thesis by (simp add: cutoff_blocks.simps)
  next
    case False
    let ?n = "min m BLOCK_SIZE"
    obtain g1 where g1: "walker_alias_sampler_sample L w ?n g = Inr (replicate ?n 0, g1)" "rng_ok L g1"
      using walker_draw_zero [OF assms(1-3) less.prems] by blast
    have "m - ?n < m" using False by (simp add: BLOCK_SIZE_def)
    from less.IH [OF this g1(2)] obtain g2 where
      "cutoff_blocks L opts w (m - ?n) g1 = Inr (replicate (m - ?n) (Long_line v), g2)" by blast
    moreover have "replicate ?n x @ replicate (m - ?n) x = replicate m x" for x :: output_line
      by (simp add: replicate_add [symmetric])
    ultimately show ?thesis using False g1 print_block_zeros [OF assms(4), of ?n]
      by (subst cutoff_blocks.simps) (simp add: Let_def)
  qed
qed

text \<open>
  C38. The cutoff of \<open>plgen -k\<close> does not work: the weight of outcome \<open>i\<close> is computed with
  \<open>-i\<close> on an unsigned type, so from the second weight on the exponential overflows, all weights
  but the first are infinite or NaN, and, when memory is granted, for every cutoff up to
  \<open>2 ^ 50\<close>, every exponent, every seed and every \<open>xmin\<close> whose sum with the offset fits a
  \<open>long\<close>, the program prints one and the same number as often as samples are asked for.
\<close>

theorem plgen_cutoff_constant:
  assumes "exp_overflows L" "0 < pg_kappa opts" "pg_kappa opts \<le> Fin (2 ^ 50)" "rng_ok L g"
    "\<And>n. c_alloc L n" "cast_long (double_of_int 0 + pg_offset opts + pg_xmin opts) = Inr v"
  shows "sample_discrete L fuel opts g = Inr (0, replicate (nat (pg_num_samples opts)) (Long_line v))"
proof (cases "pg_num_samples opts \<le> 0")
  case True
  then show ?thesis by (simp add: sample_discrete_def)
next
  case False
  let ?ps = "map (cutoff_weight L opts) [0..<num_probs]"
  have "length ?ps \<le> LONG_MAX" by (simp add: num_probs_def LONG_MAX_def)
  then obtain w where w: "walker_alias_sampler_init L ?ps = Inr w"
    using walker_init_total [of ?ps L] assms(5) by blast
  have "walker_choose w u r = Inr 0" for u r
    by (rule infinite_weights_give_zero [OF _ _ _ w])
      (use cutoff_weight_not_finite [OF assms(1-3)] in \<open>auto simp: num_probs_def\<close>)
  moreover have "sampler_ok w" "0 < num_bins w" using walker_init_ok [OF w] by (auto simp: num_probs_def)
  ultimately obtain g' where
    "cutoff_blocks L opts w (nat (pg_num_samples opts)) g = Inr (replicate (nat (pg_num_samples opts)) (Long_line v), g')"
    using cutoff_blocks_zeros assms(4,6) by blast
  then show ?thesis using False w assms(2,5) by (simp add: sample_discrete_def)
qed

definition overflowing_clib :: clib where
  \<comment> \<open>a library whose exponential is 1 below 710 and infinite above\<close>
  "overflowing_clib = plain_clib\<lparr>c_exp := \<lambda>x. if Fin 710 \<le> x then PInf else 1\<rparr>"

definition cutoff_options :: cmd_options_t where
  "cutoff_options = plgen_defaults\<lparr>pg_kappa := Fin 20, pg_gamma := Fin 2, pg_num_samples := 3\<rparr>"

theorem plgen_cutoff_constant_witness:
  "sample_discrete overflowing_clib 1 cutoff_options (Builtin 0) = Inr (0, [Long_line 1, Long_line 1, Long_line 1])"
proof -
  have "0 + Fin 0 = (0 :: double)" "0 + Fin 1 = (1 :: double)"
    by (simp_all add: plus_double_def dadd_def zero_double_def one_double_def to_double_0 to_double_exact)
  then have v: "cast_long (double_of_int 0 + pg_offset cutoff_options + pg_xmin cutoff_options) = Inr 1"
    by (simp add: cutoff_options_def plgen_defaults_def double_of_int_def to_double_0 zero_double_def one_double_def
        cast_long_def cast_range_def trunc_rat_def)
  have "sample_discrete overflowing_clib 1 cutoff_options (Builtin 0) =
      Inr (0, replicate (nat (pg_num_samples cutoff_options)) (Long_line 1))"
  proof (rule plgen_cutoff_constant [OF _ _ _ _ _ v])
    show "rng_ok overflowing_clib (Builtin 0)"
      using plain_rng_ok [of 0] by (simp add: rng_ok_def rand_in_range_def overflowing_clib_def)
  qed (simp_all add: exp_overflows_def overflowing_clib_def plain_clib_def cutoff_options_def zero_double_def)
  then show ?thesis by (simp add: cutoff_options_def numeral_3_eq_3)
qed

subsection \<open>Parsing the command line\<close>

definition plgen_letters :: "char set" where
  \<comment> \<open>the options with an argument\<close>
  "plgen_letters = {CHR ''k'', CHR ''o'', CHR ''x'', CHR ''s''}"

lemma plgen_takes_argument: "\<forall>c \<in> plgen_letters. takes_argument plgen_optstr c"
  by code_simp

lemma plgen_other_letters:
  "c \<notin> plgen_letters \<Longrightarrow> \<exists>st. plgen_option c s opts = Inr st"
  "c \<notin> plgen_letters \<Longrightarrow> plgen_option c s opts = Inr (Go_on opts') \<Longrightarrow> \<not> pg_xmin opts \<le> 0 \<Longrightarrow> \<not> pg_xmin opts' \<le> 0"
  by (auto simp: plgen_option_def plgen_letters_def split: if_splits)

lemma plgen_argument_letters:
  "c \<in> plgen_letters \<Longrightarrow> optarg s \<noteq> None \<Longrightarrow> \<exists>st. plgen_option c s opts = Inr st"
  "c \<in> plgen_letters \<Longrightarrow> plgen_option c s opts = Inr (Go_on opts') \<Longrightarrow> \<not> pg_xmin opts \<le> 0 \<Longrightarrow> \<not> pg_xmin opts' \<le> 0"
  unfolding plgen_letters_def
  by (elim insertE emptyE; auto simp: plgen_option_def with_optarg_def split: option.splits if_splits)+

interpretation plgen: getopt_client plgen_optstr plgen_option "\<lambda>opts. \<not> pg_xmin opts \<le> 0"
proof
  fix c opts and s :: getopt_state
  assume "takes_argument plgen_optstr c \<longrightarrow> optarg s \<noteq> None"
  then show "\<exists>st. plgen_option c s opts = Inr st"
    using plgen_takes_argument plgen_other_letters(1) plgen_argument_letters(1) by blast
next
  fix c opts opts' and s :: getopt_state
  assume "\<not> pg_xmin opts \<le> 0" "plgen_option c s opts = Inr (Go_on opts')"
  then show "\<not> pg_xmin opts' \<le> 0"
    using plgen_other_letters(2) plgen_argument_letters(2) by blast
qed (simp_all add: plgen_optstr_def first_char_def plgen_option_def)

lemma rounded_xmin_ok:
  assumes "\<not> pg_xmin opts \<le> 0"
  shows "\<not> pg_xmin (rounded_xmin opts) \<le> 0 \<and>
    (pg_continuous (rounded_xmin opts) \<or> pg_xmin (rounded_xmin opts) = NaN \<or> 1 \<le> pg_xmin (rounded_xmin opts))"
proof (cases "pg_xmin opts")
  case (Fin q)
  with assms have q: "0 < q" by (simp add: zero_double_def)
  then have "1 \<le> \<lceil>q\<rceil>" by simp
  then have c: "dceil (Fin q) = Fin (of_int \<lceil>q\<rceil>)" "(1 :: rat) \<le> of_int \<lceil>q\<rceil>"
    by (simp_all add: dceil_def integral_double_def)
  have "deq (Fin (of_int \<lceil>q\<rceil>)) (Fin q) \<Longrightarrow> 1 \<le> q"
    using order_trans [OF c(2), of q] by (simp add: deq_iff)
  with Fin c q show ?thesis by (auto simp: rounded_xmin_def one_double_def zero_double_def)
qed (use assms in \<open>auto simp: rounded_xmin_def dceil_def deq_iff zero_double_def one_double_def\<close>)

text \<open>
  \<open>plgen\<close> parses every command line: \<open>getopt\<close> stays inside the argument vector and its
  strings, every option that needs an argument has one when it is used, and the loop ends after
  at most one call for each byte of the arguments. When the parsing succeeds, the vector is a
  permutation of the original one, the first operand is in it, and \<open>xmin\<close> is positive, and at
  least 1 for discrete samples, or not a number.
\<close>

theorem plgen_parse_total:
  assumes "args_ok args" "parse_fuel args \<le> fuel"
  shows "\<exists>r. plgen_parse_cmd_options E fuel args = Inr r \<and>
    (case r of
       Parsed opts s \<Rightarrow> mset (argv s) = mset args \<and> 1 \<le> optind s \<and> optind s \<le> length args \<and>
         \<not> pg_xmin opts \<le> 0 \<and> (pg_continuous opts \<or> pg_xmin opts = NaN \<or> 1 \<le> pg_xmin opts)
     | Left n \<Rightarrow> True | Aborted_parse \<Rightarrow> True)"
proof -
  have "\<not> pg_xmin plgen_defaults \<le> 0" by (simp add: plgen_defaults_def one_double_def zero_double_def)
  then obtain r where "option_loop fuel (posixly_correct E) plgen_optstr plgen_option (initial_getopt args) plgen_defaults = Inr r"
    "\<forall>opts s. r = Parsed opts s \<longrightarrow> \<not> pg_xmin opts \<le> 0 \<and> mset (argv s) = mset args \<and> 1 \<le> optind s \<and> optind s \<le> length args"
    using plgen.parse_total [OF initial_getopt_ok [OF assms(1)], of fuel plgen_defaults "posixly_correct E"]
      initial_getopt_left [of args] assms(2) by (auto simp: initial_getopt_def)
  then show ?thesis using rounded_xmin_ok by (auto simp: plgen_parse_cmd_options_def split: parsed.splits)
qed

theorem plgen_parse_total_witness:
  "\<exists>r. plgen_parse_cmd_options \<lparr>c_srand = id, c_time = 0, posixly_correct = False, input_files = \<lambda>_. None, standard_input = []\<rparr>
      100 [''plgen'', ''10'', ''-x'', ''3'', ''2.5''] = Inr r \<and>
    (case r of
       Parsed opts s \<Rightarrow> mset (argv s) = mset [''plgen'', ''10'', ''-x'', ''3'', ''2.5''] \<and> 1 \<le> optind s \<and>
         optind s \<le> length [''plgen'', ''10'', ''-x'', ''3'', ''2.5''] \<and>
         \<not> pg_xmin opts \<le> 0 \<and> (pg_continuous opts \<or> pg_xmin opts = NaN \<or> 1 \<le> pg_xmin opts)
     | Left n \<Rightarrow> True | Aborted_parse \<Rightarrow> True)"
  by (rule plgen_parse_total) (simp_all add: args_ok_def parse_fuel_def)

subsection \<open>Continuous samples\<close>

lemma length_seed_words: "seed_words L n st = (ws, st') \<Longrightarrow> length ws = n"
  by (induction n arbitrary: st ws) (auto split: prod.splits)

lemma plfit_mt_init_ok: "plfit_mt_init L st = (m, st') \<Longrightarrow> mt_ok m"
  by (auto simp: plfit_mt_init_def mt_ok_def mt_consts dest: length_seed_words split: prod.splits)

lemma add_finite_mono:
  assumes "x \<le> y" "isfinite z"
  shows "x + z \<le> y + (z :: double)"
proof -
  have n: "w + z \<noteq> NaN" if "w \<noteq> NaN" for w
    using that assms(2) by (cases w; cases z) (simp_all add: plus_double_def dadd_def)
  have "x \<noteq> NaN" "y \<noteq> NaN" "z \<noteq> NaN" using dle_not_nan [OF assms(1)] assms(2) by auto
  then show ?thesis by (intro dadd_mono assms(1) n) simp_all
qed

lemma plfit_rpareto_ge:
  assumes "pow_ge_one L" "0 < alpha" "0 < xmin" "is_double xmin" "rng_ok L g"
  shows "\<exists>x g'. plfit_rpareto L xmin alpha g = Inr (x, g') \<and> xmin \<le> x \<and> rng_ok L g'"
proof -
  obtain u g1 where u: "plfit_runif_01 L g = Inr (u, g1)" "rng_ok L g1" "0 \<le> u" "u \<le> 1" "is_double u"
    using runif.draw_ok [OF assms(5)] by blast
  have "1 \<le> c_pow L (1 - u) (- 1 / alpha)"
    using assms(1) one_minus_unit [OF u(3-5)] minus_one_over_pos [OF assms(2)] by (simp add: pow_ge_one_def)
  then have "xmin \<le> c_pow L (1 - u) (- 1 / alpha) * xmin" using assms(3,4) by (rule ge_one_times)
  moreover have "\<not> alpha \<le> 0" "\<not> xmin \<le> 0" using assms(2,3) by (simp_all add: dless_iff)
  ultimately show ?thesis using u by (simp add: plfit_rpareto_def)
qed

lemma pareto_lines_ok:
  assumes "pow_ge_one L" "0 < pg_gamma opts - 1" "0 < pg_xmin opts" "is_double (pg_xmin opts)"
    "isfinite (pg_offset opts)" "rng_ok L g"
  shows "\<exists>ys g'. pareto_lines L opts n g = Inr (map Double_line ys, g') \<and> length ys = n \<and>
    (\<forall>y \<in> set ys. pg_xmin opts + pg_offset opts \<le> y)"
  using assms(6)
proof (induction n arbitrary: g)
  case 0
  then show ?case by simp
next
  case (Suc n)
  obtain x g1 where x: "plfit_rpareto L (pg_xmin opts) (pg_gamma opts - 1) g = Inr (x, g1)" "pg_xmin opts \<le> x" "rng_ok L g1"
    using plfit_rpareto_ge [OF assms(1-4) Suc.prems] by blast
  obtain ys g2 where "pareto_lines L opts n g1 = Inr (map Double_line ys, g2)" "length ys = n"
    "\<forall>y \<in> set ys. pg_xmin opts + pg_offset opts \<le> y" using Suc.IH [OF x(3)] by blast
  with x add_finite_mono [OF x(2) assms(5)] show ?case
    by (auto intro!: exI [of _ "(x + pg_offset opts) # ys"])
qed

text \<open>
  C39. \<open>plgen -c\<close> always finishes and prints what it is asked for: with an exponent greater than 1
  and no cutoff the program, started with any seed, ends with the status 0 after printing exactly
  as many numbers as requested, none of them below \<open>xmin\<close> plus the offset.
\<close>

theorem plgen_continuous_samples:
  assumes "pow_ge_one L" "pg_continuous opts" "\<not> 0 < pg_kappa opts" "0 < pg_gamma opts - 1"
    "0 < pg_xmin opts" "is_double (pg_xmin opts)" "isfinite (pg_offset opts)"
  shows "\<exists>ys. plgen_run L E fuel opts = Inr (0, map Double_line ys) \<and> length ys = nat (pg_num_samples opts) \<and>
    list_all (\<lambda>y. pg_xmin opts + pg_offset opts \<le> y) ys"
proof -
  obtain m st where m: "plfit_mt_init L (seeded E (pg_use_seed opts) (pg_seed opts)) = (m, st)" by fastforce
  then have "rng_ok L (Twister m)" using plfit_mt_init_ok by (simp add: rng_ok_def)
  from pareto_lines_ok [OF assms(1,4-7) this, of "nat (pg_num_samples opts)"] show ?thesis
    using assms(2,3) m by (auto simp: plgen_run_def sample_continuous_def list_all_iff)
qed

theorem plgen_continuous_samples_witness:
  "\<exists>ys. plgen_run plain_clib \<lparr>c_srand = id, c_time = 0, posixly_correct = False, input_files = \<lambda>_. None, standard_input = []\<rparr>
      1 (plgen_defaults\<lparr>pg_continuous := True, pg_gamma := Fin 3, pg_num_samples := 5\<rparr>) = Inr (0, map Double_line ys) \<and>
    length ys = 5 \<and> list_all (\<lambda>y. 1 + 0 \<le> y) ys"
proof -
  let ?o = "plgen_defaults\<lparr>pg_continuous := True, pg_gamma := Fin 3, pg_num_samples := 5\<rparr>"
  have "0 < Fin 3 - 1" by code_simp
  moreover have "\<not> 0 < (- 1 :: double)" by code_simp
  moreover have "is_double 1" by (simp add: one_double_def is_double_Fin)
  ultimately show ?thesis
    using plgen_continuous_samples [of plain_clib ?o]
    by (simp add: pow_ge_one_def plain_clib_def plgen_defaults_def)
qed

end
