(* ===== verification/Plfit_Main.thy ===== *)
theory Plfit_Main
  imports Stdio Getopt Stats Continuous_P Discrete_Search Discrete_Pvalue
begin

text \<open>
  The program \<open>plfit\<close> of \<open>src/main.c\<close>: option parsing over \<open>getopt\<close>, the reader for the input
  files, the choice of the library's function and its options, and the report. As in \<open>Plgen\<close> an
  error that the library reports ends the program and is the result \<open>Inl (Err e)\<close>. The model of
  the library lets a handler return, and goes on where \<open>plfit_i_continuous_xmin_opt_evaluate\<close>
  ignores an error; that is only reached with data that are not positive, when the program
  aborts and the model is undefined. What is printed is recorded as labels and numbers; messages
  on the error stream and the help text are left out.
\<close>

record cmd_options_t =
  cm_alpha_min :: double
  cm_alpha_step :: double
  cm_alpha_max :: double
  cm_brief_mode :: bool
  cm_divisor :: double
  cm_finite_size_correction :: bool
  cm_force_continuous :: bool
  cm_print_moments :: bool
  cm_p_value_method :: plfit_p_value_method_t
  cm_p_value_precision :: double
  cm_seed :: nat
  cm_use_seed :: bool
  cm_xmin :: double

definition plfit_defaults :: cmd_options_t where
  "plfit_defaults =
     \<lparr>cm_alpha_min = lit (3 / 2), cm_alpha_step = 0, cm_alpha_max = lit (7 / 2), cm_brief_mode = False,
      cm_divisor = 1, cm_finite_size_correction = False, cm_force_continuous = False,
      cm_print_moments = False, cm_p_value_method = PLFIT_P_VALUE_SKIP,
      cm_p_value_precision = lit (1 / 100), cm_seed = 0, cm_use_seed = False, cm_xmin = - 1\<rparr>"

text \<open>
  \<open>sscanf\<close> with the format \<open>%lf:%lf:%lf\<close>: \<open>None\<close> unless all three conversions are made. A colon
  has to follow a number immediately.
\<close>

definition scan_colon :: "string \<Rightarrow> string option" where
  "scan_colon w = (case w of c # cs \<Rightarrow> if c = CHR '':'' then Some cs else None | [] \<Rightarrow> None)"

definition scan_range :: "string \<Rightarrow> (double \<times> double \<times> double) option" where
  "scan_range w =
     (case scan_double w of Scanned a r1 \<Rightarrow>
       (case scan_colon r1 of Some w2 \<Rightarrow>
         (case scan_double w2 of Scanned b r2 \<Rightarrow>
           (case scan_colon r2 of Some w3 \<Rightarrow>
             (case scan_double w3 of Scanned c r3 \<Rightarrow> Some (a, b, c) | _ \<Rightarrow> None)
           | None \<Rightarrow> None)
         | _ \<Rightarrow> None)
       | None \<Rightarrow> None)
     | _ \<Rightarrow> None)"

definition p_value_method_of :: "string \<Rightarrow> plfit_p_value_method_t option" where
  "p_value_method_of w =
     (if w = ''none'' \<or> w = ''skip'' then Some PLFIT_P_VALUE_SKIP
      else if w = ''approximate'' \<or> w = ''approx'' then Some PLFIT_P_VALUE_APPROXIMATE
      else if w = ''exact'' then Some PLFIT_P_VALUE_EXACT
      else None)"

definition plfit_option :: "char \<Rightarrow> getopt_state \<Rightarrow> cmd_options_t \<Rightarrow> cmd_options_t step result" where
  "plfit_option c s opts =
     (if c = CHR ''a'' then with_optarg s (\<lambda>w.
        case scan_range w of
          None \<Rightarrow> Inr (Leave 1)
        | Some (lo, st, hi) \<Rightarrow>
            Inr (Go_on (opts\<lparr>cm_alpha_min := lo, cm_alpha_step := st, cm_alpha_max := hi\<rparr>)))
      else if c = CHR ''b'' then Inr (Go_on (opts\<lparr>cm_brief_mode := True\<rparr>))
      else if c = CHR ''c'' then Inr (Go_on (opts\<lparr>cm_force_continuous := True\<rparr>))
      else if c = CHR ''D'' then with_optarg s (\<lambda>w.
        case sscanf1 (scan_double w) (cm_divisor opts) of
          None \<Rightarrow> Inr (Leave 1)
        | Some x \<Rightarrow> if x \<le> 0 then Inr (Leave 1) else Inr (Go_on (opts\<lparr>cm_divisor := x\<rparr>)))
      else if c = CHR ''e'' then with_optarg s (\<lambda>w.
        case sscanf1 (scan_double w) (cm_p_value_precision opts) of
          None \<Rightarrow> Inr (Leave 1)
        | Some x \<Rightarrow> if x \<le> 0 then Inr (Leave 1) else Inr (Go_on (opts\<lparr>cm_p_value_precision := x\<rparr>)))
      else if c = CHR ''f'' then Inr (Go_on (opts\<lparr>cm_finite_size_correction := True\<rparr>))
      else if c = CHR ''h'' then Inr (Leave 0)
      else if c = CHR ''m'' then with_optarg s (\<lambda>w.
        case sscanf1 (scan_double w) (cm_xmin opts) of
          None \<Rightarrow> Inr (Leave 1)
        | Some x \<Rightarrow> if x < 0 then Inr (Leave 1) else Inr (Go_on (opts\<lparr>cm_xmin := x\<rparr>)))
      else if c = CHR ''M'' then Inr (Go_on (opts\<lparr>cm_print_moments := True\<rparr>))
      else if c = CHR ''p'' then with_optarg s (\<lambda>w.
        case p_value_method_of w of
          None \<Rightarrow> Inr (Leave 1) | Some m \<Rightarrow> Inr (Go_on (opts\<lparr>cm_p_value_method := m\<rparr>)))
      else if c = CHR ''s'' then with_optarg s (\<lambda>w.
        case sscanf1 (scan_ulong w) (cm_seed opts) of
          None \<Rightarrow> Inr (Leave 1) | Some n \<Rightarrow> Inr (Go_on (opts\<lparr>cm_seed := n, cm_use_seed := True\<rparr>)))
      else if c = CHR ''v'' then Inr (Leave 0)
      else if c = CHR ''?'' then Inr (Leave 1)
      else Inr Abort)"

definition plfit_optstr :: string where
  "plfit_optstr = ''a:bcD:e:fhm:Mp:ts:v''"

definition plfit_parse_cmd_options ::
  "environment \<Rightarrow> nat \<Rightarrow> string list \<Rightarrow> cmd_options_t parsed result" where
  "plfit_parse_cmd_options E fuel args =
     option_loop fuel (posixly_correct E) plfit_optstr plfit_option (initial_getopt args) plfit_defaults"

subsection \<open>Reading a file\<close>

record reading =
  rd_data :: "double list"
  rd_nalloc :: nat
  rd_warned :: "16 word"
  rd_discrete :: bool

datatype read_end = Read_data reading | No_memory

text \<open>
  The loop over the rest of a comment. It compares with the newline only; at the end of the file
  \<open>fgetc\<close> keeps returning \<open>EOF\<close>.
\<close>

fun skip_comment :: "nat \<Rightarrow> string \<Rightarrow> string result" where
  "skip_comment 0 stream = Inl Out_of_fuel"
| "skip_comment (Suc fuel) stream =
     (case stream of
        [] \<Rightarrow> skip_comment fuel []
      | c # cs \<Rightarrow> if c = CHR 0x0A then Inr cs else skip_comment fuel cs)"

definition add_number :: "double \<Rightarrow> reading \<Rightarrow> reading" where
  \<comment> \<open>the number has been stored at the end of the data\<close>
  "add_number x r =
     r\<lparr>rd_data := rd_data r @ [x],
       rd_discrete := rd_discrete r \<and> deq (dfloor x) x\<rparr>"

lemma skip_comment_shorter: "skip_comment fuel cs = Inr rest \<Longrightarrow> length rest < length cs"
  by (induction fuel cs rule: skip_comment.induct) (auto split: list.splits if_splits dest: Suc_lessD)

function read_loop :: "clib \<Rightarrow> nat \<Rightarrow> reading \<Rightarrow> string \<Rightarrow> read_end result" where
  "read_loop L fuel r stream =
     (case scan_double stream of
        Scan_eof \<Rightarrow> Inr (Read_data r)
      | Scan_failed [] \<Rightarrow> read_loop L fuel (r\<lparr>rd_warned := rd_warned r + 1\<rparr>) []
      | Scan_failed (c # cs) \<Rightarrow>
          if c = CHR ''#'' then plfit_check (skip_comment fuel cs) (read_loop L fuel r)
          else read_loop L fuel (r\<lparr>rd_warned := rd_warned r + 1\<rparr>) cs
      | Scanned x rest \<Rightarrow>
          if rd_nalloc r \<le> length (rd_data r) then Inl Undefined
          else let r = add_number x r in
            if length (rd_data r) = rd_nalloc r then
              (if c_alloc L (sizeof_double * (rd_nalloc r * 2))
               then read_loop L fuel (r\<lparr>rd_nalloc := rd_nalloc r * 2\<rparr>) rest
               else Inr No_memory)
            else read_loop L fuel r rest)"
  by pat_completeness auto

lemma scan_double_nil [simp]: "scan_double [] = Scan_eof"
  by (simp add: scan_double_def)

lemma scan_failed_shorter: "scan_double cs = Scan_failed rest \<Longrightarrow> cs \<noteq> [] \<and> length rest \<le> length cs"
  using scan_double_progress(2) [of cs rest] by (cases cs) auto

lemma after_comment_shorter:
  "scan_double cs = Scan_failed (c # ds) \<Longrightarrow> skip_comment fuel ds = Inr rest \<Longrightarrow> length rest < length cs"
  using scan_failed_shorter [of cs "c # ds"] skip_comment_shorter [of fuel ds rest] by simp

termination read_loop
  by (relation "measure (\<lambda>(L, fuel, r, stream). length stream)")
    (auto dest: scan_failed_shorter scan_double_progress(1) after_comment_shorter)

declare read_loop.simps [simp del]

definition read_file :: "clib \<Rightarrow> nat \<Rightarrow> cmd_options_t \<Rightarrow> string \<Rightarrow> read_end result" where
  "read_file L fuel opts stream =
     (if \<not> c_alloc L (100 * sizeof_double) then Inr No_memory
      else read_loop L fuel \<lparr>rd_data = [], rd_nalloc = 100, rd_warned = 0,
        rd_discrete = (\<not> cm_force_continuous opts)\<rparr> stream)"

subsection \<open>Fitting and reporting\<close>

definition scale_data :: "double \<Rightarrow> bool \<Rightarrow> double list \<Rightarrow> double list" where
  "scale_data divisor discrete xs =
     (if deq divisor 1 then xs
      else let ys = map (\<lambda>x. x / divisor) xs in if discrete then map dround ys else ys)"

definition continuous_options :: "cmd_options_t \<Rightarrow> plfit_continuous_options_t" where
  "continuous_options opts =
     plfit_continuous_default_options
       \<lparr>co_finite_size_correction := cm_finite_size_correction opts,
        co_p_value_method := cm_p_value_method opts, co_p_value_precision := cm_p_value_precision opts\<rparr>"

definition discrete_options :: "cmd_options_t \<Rightarrow> plfit_discrete_options_t" where
  "discrete_options opts =
     (let d = plfit_discrete_default_options
        \<lparr>do_finite_size_correction := cm_finite_size_correction opts,
         do_p_value_method := cm_p_value_method opts, do_p_value_precision := cm_p_value_precision opts\<rparr> in
      if 0 < cm_alpha_step opts then
        d\<lparr>do_alpha_method := PLFIT_LINEAR_SCAN, do_alpha_min := cm_alpha_min opts,
          do_alpha_max := cm_alpha_max opts, do_alpha_step := cm_alpha_step opts\<rparr>
      else d\<lparr>do_alpha_method := PLFIT_LBFGS\<rparr>)"

definition fit_data ::
  "clib \<Rightarrow> nat \<Rightarrow> cmd_options_t \<Rightarrow> bool \<Rightarrow> double list \<Rightarrow> env \<Rightarrow> (plfit_result_t \<times> env) result" where
  "fit_data L fuel opts discrete xs e =
     (if discrete then
        if cm_xmin opts < 0 then plfit_discrete L fuel xs (Some (discrete_options opts)) e
        else plfit_estimate_alpha_discrete L fuel xs (cm_xmin opts) (Some (discrete_options opts)) e
      else
        if cm_xmin opts < 0 then plfit_continuous L fuel xs (Some (continuous_options opts)) e
        else plfit_estimate_alpha_continuous L fuel xs (cm_xmin opts) (Some (continuous_options opts)) e)"

type_synonym report = "(string \<times> double list) list"

text \<open>
  The local structure \<open>moments\<close>, which is zero unless the moments are asked for: mean, variance,
  skewness and kurtosis.
\<close>

type_synonym four_moments = "double \<times> double \<times> double \<times> double"

definition file_moments :: "clib \<Rightarrow> cmd_options_t \<Rightarrow> double list \<Rightarrow> four_moments result" where
  "file_moments L opts xs =
     (if cm_print_moments opts then
        plfit_check (plfit_moments L xs True True True True) (\<lambda>m.
          let written = (\<lambda>x. case x of None \<Rightarrow> 0 | Some y \<Rightarrow> y) in
          Inr (written (mean m), written (variance m), written (skewness m), written (kurtosis m)))
      else Inr (0, 0, 0, 0))"

definition moments_report :: "clib \<Rightarrow> four_moments \<Rightarrow> report" where
  "moments_report L m =
     (case m of (mean0, variance0, skewness0, kurtosis0) \<Rightarrow>
        [(''Central moments'', []), (''mean'', [mean0]), (''variance'', [variance0]),
         (''std.dev.'', [c_sqrt L variance0]), (''skewness'', [skewness0]), (''kurtosis'', [kurtosis0]),
         (''ex.kurt.'', [kurtosis0 - Fin 3])])"

definition file_report ::
  "clib \<Rightarrow> cmd_options_t \<Rightarrow> string \<Rightarrow> nat \<Rightarrow> bool \<Rightarrow> four_moments \<Rightarrow> plfit_result_t \<Rightarrow> report" where
  "file_report L opts fname n discrete m res =
     (if cm_brief_mode opts then
        (if cm_print_moments opts
         then case m of (a, b, c, d) \<Rightarrow> [(fname @ '': S'', [a, b, c, d])] else []) @
        [(fname @ (if discrete then '': D'' else '': C''),
          [res_alpha res, res_xmin res, res_L res, res_D res, res_p res])]
      else
        [(fname, [])] @
        (if \<not> cm_finite_size_correction opts \<and> n < 50
         then [(''WARNING: finite size bias may be present'', [])] else []) @
        (if cm_print_moments opts then moments_report L m else []) @
        [((if discrete then ''Discrete'' else ''Continuous'') @ '' MLE'' @
            (if cm_finite_size_correction opts then '' with finite size correction'' else ''''), []),
         (''alpha'', [res_alpha res]), (''xmin'', [res_xmin res]), (''L'', [res_L res]), (''D'', [res_D res])] @
        (if isnan (res_p res) then []
         else [(if cm_p_value_method opts = PLFIT_P_VALUE_APPROXIMATE then ''p (approximation)'' else ''p'',
                [res_p res])]))"

datatype file_end = Printed report | Not_processed | Exits int

definition EX_DATAERR :: int where "EX_DATAERR = 65"

definition process_file ::
  "clib \<Rightarrow> nat \<Rightarrow> cmd_options_t \<Rightarrow> string \<Rightarrow> string \<Rightarrow> env \<Rightarrow> (file_end \<times> env) result" where
  "process_file L fuel opts fname stream e =
     plfit_check (read_file L fuel opts stream) (\<lambda>r.
     case r of
       No_memory \<Rightarrow> Inr (Not_processed, e)
     | Read_data rd \<Rightarrow>
         if rd_warned rd \<noteq> 0 \<or> rd_data rd = [] then Inr (Exits EX_DATAERR, e)
         else
           let xs = scale_data (cm_divisor opts) (rd_discrete rd) (rd_data rd) in
           plfit_check (fit_data L fuel opts (rd_discrete rd) xs e) (\<lambda>(res, e').
           plfit_check (file_moments L opts xs) (\<lambda>m.
           Inr (Printed (file_report L opts fname (length xs) (rd_discrete rd) m res), e'))))"

subsection \<open>The program\<close>

datatype run_end = Run_exits int report | Run_aborted

text \<open>
  The loop over the operands: \<open>used\<close> says that the standard input has been closed, when using
  it again is undefined; \<open>out\<close> is what has been printed.
\<close>

fun process_files ::
  "clib \<Rightarrow> environment \<Rightarrow> nat \<Rightarrow> cmd_options_t \<Rightarrow> string list \<Rightarrow> bool \<Rightarrow> env \<Rightarrow> int \<Rightarrow> report \<Rightarrow> run_end result" where
  "process_files L E fuel opts [] used e retval out = Inr (Run_exits retval out)"
| "process_files L E fuel opts (w # ws) used e retval out =
     (let std = (first_char w = CHR ''-'') in
      if std \<and> used then Inl Undefined
      else case (if std then Some (standard_input E) else input_files E w) of
        None \<Rightarrow> process_files L E fuel opts ws used e 2 out
      | Some stream \<Rightarrow>
          plfit_check (process_file L fuel opts w stream e) (\<lambda>(end_of_file, e').
          case end_of_file of
            Exits n \<Rightarrow> Inr (Run_exits n out)
          | Not_processed \<Rightarrow> process_files L E fuel opts ws (used \<or> std) e' retval out
          | Printed lines \<Rightarrow> process_files L E fuel opts ws (used \<or> std) e' retval (out @ lines)))"

definition plfit_main :: "clib \<Rightarrow> environment \<Rightarrow> nat \<Rightarrow> string list \<Rightarrow> run_end result" where
  "plfit_main L E fuel args =
     plfit_check (plfit_parse_cmd_options E fuel args) (\<lambda>r.
     case r of
       Left n \<Rightarrow> Inr (Run_exits n [])
     | Aborted_parse \<Rightarrow> Inr Run_aborted
     | Parsed opts s \<Rightarrow>
         let (m, st) = plfit_mt_init L (seeded E (cm_use_seed opts) (cm_seed opts));
             e = (rbinom_initial, Twister m) in
         if optind s = argc s then
           plfit_check (process_file L fuel opts ''-'' (standard_input E) e) (\<lambda>(end_of_file, e').
           Inr (case end_of_file of
             Exits n \<Rightarrow> Run_exits n []
           | Not_processed \<Rightarrow> Run_exits 0 []
           | Printed lines \<Rightarrow> Run_exits 0 lines))
         else process_files L E fuel opts (drop (optind s) (argv s)) False e 0 [])"

subsection \<open>Parsing the command line\<close>

definition options_ok :: "cmd_options_t \<Rightarrow> bool" where
  "options_ok opts \<longleftrightarrow>
     is_double (cm_alpha_min opts) \<and> is_double (cm_alpha_step opts) \<and>
     \<not> cm_divisor opts \<le> 0 \<and> \<not> cm_p_value_precision opts \<le> 0 \<and> (cm_xmin opts = - 1 \<or> \<not> cm_xmin opts < 0)"

definition plfit_letters :: "char set" where
  \<comment> \<open>the options with an argument\<close>
  "plfit_letters = {CHR ''a'', CHR ''D'', CHR ''e'', CHR ''m'', CHR ''p'', CHR ''s''}"

lemma is_double_scan: "scan_double w = Scanned x rest \<Longrightarrow> is_double x"
  by (auto simp: scan_double_def Let_def number_value_def dinf_def split: if_splits prod.splits)

lemma scan_range_double: "scan_range w = Some (a, b, c) \<Longrightarrow> is_double a \<and> is_double b"
  by (auto simp: scan_range_def split: scan.splits option.splits dest: is_double_scan)

lemma plfit_takes_argument: "\<forall>c \<in> plfit_letters. takes_argument plfit_optstr c"
  by code_simp

lemma plfit_other_letters:
  "c \<notin> plfit_letters \<Longrightarrow> \<exists>st. plfit_option c s opts = Inr st"
  "c \<notin> plfit_letters \<Longrightarrow> plfit_option c s opts = Inr (Go_on opts') \<Longrightarrow> options_ok opts \<Longrightarrow> options_ok opts'"
  by (auto simp: plfit_option_def plfit_letters_def options_ok_def split: if_splits)

lemma plfit_argument_letters:
  "c \<in> plfit_letters \<Longrightarrow> optarg s \<noteq> None \<Longrightarrow> \<exists>st. plfit_option c s opts = Inr st"
  "c \<in> plfit_letters \<Longrightarrow> plfit_option c s opts = Inr (Go_on opts') \<Longrightarrow> options_ok opts \<Longrightarrow> options_ok opts'"
  unfolding plfit_letters_def
  by (elim insertE emptyE; auto simp: plfit_option_def with_optarg_def options_ok_def dest!: scan_range_double split: option.splits if_splits)+

interpretation plfit: getopt_client plfit_optstr plfit_option "options_ok"
proof
  fix c opts and s :: getopt_state
  assume "takes_argument plfit_optstr c \<longrightarrow> optarg s \<noteq> None"
  then show "\<exists>st. plfit_option c s opts = Inr st"
    using plfit_takes_argument plfit_other_letters(1) plfit_argument_letters(1) by blast
next
  fix c opts opts' and s :: getopt_state
  assume "options_ok opts" "plfit_option c s opts = Inr (Go_on opts')"
  then show "options_ok opts'"
    using plfit_other_letters(2) plfit_argument_letters(2) by blast
qed (simp_all add: plfit_optstr_def first_char_def plfit_option_def)

lemma plfit_defaults_ok: "options_ok plfit_defaults"
proof -
  have "lit (1 / 100) = Fin (5764607523034235 / 576460752303423488)" by code_simp
  then show ?thesis by (simp add: options_ok_def plfit_defaults_def one_double_def zero_double_def is_double_Fin)
qed

text \<open>
  C34. \<open>plfit\<close> parses every command line: \<open>getopt\<close> stays inside the argument vector and its
  strings, every option that needs an argument has one when it is used, and the loop ends after
  at most one call for each byte of the arguments. When the parsing succeeds, the vector is a
  permutation of the original one, the operands are in it, and the numbers given pass the checks
  of the options: a divisor and a precision that are not zero or negative, and an \<open>xmin\<close> that is
  -1 (search for it) or not negative; the grid of exponents consists of doubles.
\<close>

theorem plfit_parse_total:
  assumes "args_ok args" "parse_fuel args \<le> fuel"
  shows "\<exists>r. plfit_parse_cmd_options E fuel args = Inr r \<and>
    (case r of
       Parsed opts s \<Rightarrow> mset (argv s) = mset args \<and> 1 \<le> optind s \<and> optind s \<le> length args \<and> options_ok opts
     | Left n \<Rightarrow> True | Aborted_parse \<Rightarrow> True)"
proof -
  obtain r where "option_loop fuel (posixly_correct E) plfit_optstr plfit_option (initial_getopt args) plfit_defaults = Inr r"
    "\<forall>opts s. r = Parsed opts s \<longrightarrow> options_ok opts \<and> mset (argv s) = mset args \<and> 1 \<le> optind s \<and> optind s \<le> length args"
    using plfit.parse_total [OF initial_getopt_ok [OF assms(1)] _ plfit_defaults_ok, of fuel "posixly_correct E"]
      initial_getopt_left [of args] assms(2) by (auto simp: initial_getopt_def)
  then show ?thesis by (auto simp: plfit_parse_cmd_options_def split: parsed.splits)
qed

definition empty_environment :: environment where
  "empty_environment =
     \<lparr>c_srand = id, c_time = 0, posixly_correct = False, input_files = \<lambda>_. None, standard_input = []\<rparr>"

theorem plfit_parse_total_witness:
  "\<exists>r. plfit_parse_cmd_options empty_environment 100 [''plfit'', ''data'', ''-bm'', ''3''] = Inr r \<and>
    (case r of
       Parsed opts s \<Rightarrow> mset (argv s) = mset [''plfit'', ''data'', ''-bm'', ''3''] \<and> 1 \<le> optind s \<and>
         optind s \<le> length [''plfit'', ''data'', ''-bm'', ''3''] \<and> options_ok opts
     | Left n \<Rightarrow> True | Aborted_parse \<Rightarrow> True)"
  by (rule plfit_parse_total) (simp_all add: args_ok_def parse_fuel_def)

text \<open>The option string announces a letter that has no branch: the program aborts.\<close>

lemma plfit_t_aborts: "plfit_main plain_clib empty_environment 100 [''plfit'', ''-t'', ''x''] = Inr Run_aborted"
proof -
  have "plfit_parse_cmd_options empty_environment 100 [''plfit'', ''-t'', ''x''] = Inr Aborted_parse" by code_simp
  then show ?thesis by (simp add: plfit_main_def)
qed

subsection \<open>What a file means\<close>

text \<open>
  The contents of a file as a list of items: the numbers, and the bytes that begin neither a
  number nor a comment. A file in which a comment is not ended by a newline has no such list.
\<close>

datatype item = Number double | Bad_byte

inductive file_items :: "string \<Rightarrow> item list \<Rightarrow> bool" where
  at_eof: "scan_double s = Scan_eof \<Longrightarrow> file_items s []"
| at_number: "scan_double s = Scanned x rest \<Longrightarrow> file_items rest is \<Longrightarrow> file_items s (Number x # is)"
| at_comment: "scan_double s = Scan_failed (CHR ''#'' # comment @ CHR 0x0A # rest) \<Longrightarrow>
    CHR 0x0A \<notin> set comment \<Longrightarrow> file_items rest is \<Longrightarrow> file_items s is"
| at_bad_end: "scan_double s = Scan_failed [] \<Longrightarrow> file_items s [Bad_byte]"
| at_bad_byte: "scan_double s = Scan_failed (c # cs) \<Longrightarrow> c \<noteq> CHR ''#'' \<Longrightarrow> file_items cs is \<Longrightarrow>
    file_items s (Bad_byte # is)"

inductive unterminated :: "string \<Rightarrow> bool" where
  in_comment: "scan_double s = Scan_failed (CHR ''#'' # comment) \<Longrightarrow> CHR 0x0A \<notin> set comment \<Longrightarrow> unterminated s"
| past_number: "scan_double s = Scanned x rest \<Longrightarrow> unterminated rest \<Longrightarrow> unterminated s"
| past_comment: "scan_double s = Scan_failed (CHR ''#'' # comment @ CHR 0x0A # rest) \<Longrightarrow>
    CHR 0x0A \<notin> set comment \<Longrightarrow> unterminated rest \<Longrightarrow> unterminated s"
| past_bad_byte: "scan_double s = Scan_failed (c # cs) \<Longrightarrow> c \<noteq> CHR ''#'' \<Longrightarrow> unterminated cs \<Longrightarrow> unterminated s"

fun numbers :: "item list \<Rightarrow> double list" where
  "numbers [] = []"
| "numbers (Number x # is) = x # numbers is"
| "numbers (Bad_byte # is) = numbers is"

fun bad_bytes :: "item list \<Rightarrow> nat" where
  "bad_bytes [] = 0"
| "bad_bytes (Number x # is) = bad_bytes is"
| "bad_bytes (Bad_byte # is) = Suc (bad_bytes is)"

lemma skip_comment_line:
  "CHR 0x0A \<notin> set comment \<Longrightarrow> length comment < fuel \<Longrightarrow>
     skip_comment fuel (comment @ CHR 0x0A # rest) = Inr rest"
proof (induction comment arbitrary: fuel)
  case Nil
  then show ?case by (cases fuel) auto
next
  case (Cons c comment)
  then show ?case by (cases fuel) auto
qed

lemma skip_comment_end: "CHR 0x0A \<notin> set comment \<Longrightarrow> skip_comment fuel comment = Inl Out_of_fuel"
proof (induction fuel arbitrary: comment)
  case (Suc fuel)
  then show ?case by (cases comment) auto
qed simp

lemma skip_comment_short:
  "CHR 0x0A \<notin> set comment \<Longrightarrow> fuel \<le> length comment \<Longrightarrow> skip_comment fuel (comment @ rest) = Inl Out_of_fuel"
proof (induction fuel arbitrary: comment)
  case (Suc fuel)
  then show ?case by (cases comment) auto
qed simp

definition reading_ok :: "reading \<Rightarrow> bool" where
  "reading_ok r \<longleftrightarrow> length (rd_data r) < rd_nalloc r"

definition reads :: "reading \<Rightarrow> item list \<Rightarrow> reading \<Rightarrow> bool" where
  "reads r is r' \<longleftrightarrow>
     reading_ok r' \<and> rd_data r' = rd_data r @ numbers is \<and> rd_warned r' = rd_warned r + of_nat (bad_bytes is) \<and>
     rd_discrete r' = (rd_discrete r \<and> (\<forall>x \<in> set (numbers is). deq (dfloor x) x))"

lemma read_loop_items:
  assumes "\<And>n. c_alloc L n" "file_items stream is" "length stream \<le> fuel" "reading_ok r"
  shows "\<exists>r'. read_loop L fuel r stream = Inr (Read_data r') \<and> reads r is r'"
  using assms(2-4)
proof (induction stream "is" arbitrary: r rule: file_items.induct)
  case (at_eof s)
  then show ?case by (subst read_loop.simps) (simp add: reads_def)
next
  case (at_number s x rest "is")
  let ?r = "add_number x r"
  let ?r' = "if length (rd_data ?r) = rd_nalloc r then ?r\<lparr>rd_nalloc := rd_nalloc r * 2\<rparr> else ?r"
  have "length rest \<le> fuel" using scan_double_progress(1) [OF at_number.hyps(1)] at_number.prems(1) by simp
  moreover have "reading_ok ?r'" using at_number.prems(2) by (auto simp: reading_ok_def add_number_def)
  ultimately obtain r' where r': "read_loop L fuel ?r' rest = Inr (Read_data r')" "reads ?r' is r'"
    using at_number.IH by blast
  have n: "rd_nalloc ?r = rd_nalloc r" by (simp add: add_number_def)
  have "read_loop L fuel r s = read_loop L fuel ?r' rest"
    using at_number.hyps(1) at_number.prems(2) assms(1)
    by (subst read_loop.simps) (auto simp: reading_ok_def Let_def n)
  moreover have "reads r (Number x # is) r'"
    using r'(2) by (auto simp: reads_def add_number_def split: if_splits)
  ultimately show ?case using r'(1) by auto
next
  case (at_comment s comment rest "is")
  have l: "length (CHR ''#'' # comment @ CHR 0x0A # rest) \<le> length s"
    using scan_double_progress(2) [OF at_comment.hyps(1)] .
  then have "length rest \<le> fuel" "length comment < fuel" using at_comment.prems(1) by auto
  with at_comment show ?case
    by (subst read_loop.simps) (simp add: skip_comment_line)
next
  case (at_bad_end s)
  have "reads r [Bad_byte] (r\<lparr>rd_warned := rd_warned r + 1\<rparr>)"
    using at_bad_end.prems(2) by (simp add: reads_def reading_ok_def)
  with at_bad_end.hyps show ?case
    by (subst read_loop.simps) (simp add: read_loop.simps [of _ _ _ "[]"])
next
  case (at_bad_byte s c cs "is")
  let ?r = "r\<lparr>rd_warned := rd_warned r + 1\<rparr>"
  have "length (c # cs) \<le> length s" using scan_double_progress(2) [OF at_bad_byte.hyps(1)] .
  then have "length cs \<le> fuel" using at_bad_byte.prems(1) by simp
  moreover have "reading_ok ?r" using at_bad_byte.prems(2) by (simp add: reading_ok_def)
  ultimately obtain r' where r': "read_loop L fuel ?r cs = Inr (Read_data r')" "reads ?r is r'"
    using at_bad_byte.IH by blast
  have "read_loop L fuel r s = read_loop L fuel ?r cs"
    using at_bad_byte.hyps(1,2) by (subst read_loop.simps) simp
  moreover have "reads r (Bad_byte # is) r'" using r'(2) by (simp add: reads_def add.assoc)
  ultimately show ?case using r'(1) by auto
qed

lemma read_loop_hangs:
  assumes "\<And>n. c_alloc L n" "unterminated stream" "reading_ok r"
  shows "read_loop L fuel r stream = Inl Out_of_fuel"
  using assms(2,3)
proof (induction stream arbitrary: r rule: unterminated.induct)
  case (in_comment s comment)
  then show ?case by (subst read_loop.simps) (simp add: skip_comment_end)
next
  case (past_number s x rest)
  let ?r = "add_number x r"
  let ?r' = "if length (rd_data ?r) = rd_nalloc r then ?r\<lparr>rd_nalloc := rd_nalloc r * 2\<rparr> else ?r"
  have "reading_ok ?r'" using past_number.prems by (auto simp: reading_ok_def add_number_def)
  then have "read_loop L fuel ?r' rest = Inl Out_of_fuel" by (rule past_number.IH)
  moreover have "rd_nalloc ?r = rd_nalloc r" by (simp add: add_number_def)
  ultimately show ?case using past_number.hyps(1) past_number.prems assms(1)
    by (subst read_loop.simps) (auto simp: reading_ok_def Let_def split: if_splits)
next
  case (past_comment s comment rest)
  show ?case
  proof (cases "length comment < fuel")
    case True
    with past_comment show ?thesis by (subst read_loop.simps) (simp add: skip_comment_line)
  next
    case False
    have "skip_comment fuel (comment @ CHR 0x0A # rest) = Inl Out_of_fuel"
      using past_comment.hyps(2) False by (intro skip_comment_short) auto
    with past_comment show ?thesis by (subst read_loop.simps) simp
  qed
next
  case (past_bad_byte s c cs)
  then show ?case by (subst read_loop.simps) (simp add: reading_ok_def)
qed

lemma file_items_or_unterminated: "(\<exists>is. file_items stream is) \<or> unterminated stream"
proof (induction stream rule: measure_induct_rule [of length])
  case (less s)
  show ?case
  proof (cases "scan_double s")
    case Scan_eof
    then show ?thesis by (blast intro: at_eof)
  next
    case (Scanned x rest)
    with less scan_double_progress(1) show ?thesis by (blast intro: at_number past_number)
  next
    case (Scan_failed rest)
    note failed = this
    show ?thesis
    proof (cases rest)
      case Nil
      with failed show ?thesis by (blast intro: at_bad_end)
    next
      case (Cons c cs)
      have len: "length (c # cs) \<le> length s" using scan_double_progress(2) failed Cons by blast
      show ?thesis
      proof (cases "c = CHR ''#''")
        case False
        moreover have "(\<exists>is. file_items cs is) \<or> unterminated cs" using less len by simp
        ultimately show ?thesis using failed Cons by (blast intro: at_bad_byte past_bad_byte)
      next
        case True
        show ?thesis
        proof (cases "CHR 0x0A \<in> set cs")
          case False
          with True failed Cons show ?thesis by (blast intro: in_comment)
        next
          case newline: True
          then obtain comment r where cs: "cs = comment @ CHR 0x0A # r" "CHR 0x0A \<notin> set comment"
            by (metis split_list_first)
          then have "(\<exists>is. file_items r is) \<or> unterminated r" using less len by simp
          with True failed Cons cs show ?thesis by (blast intro: at_comment past_comment)
        qed
      qed
    qed
  qed
qed

lemma read_file_items:
  assumes "\<And>n. c_alloc L n" "file_items stream is" "length stream \<le> fuel"
  shows "\<exists>rd. read_file L fuel opts stream = Inr (Read_data rd) \<and> rd_data rd = numbers is \<and>
    rd_warned rd = of_nat (bad_bytes is) \<and> length (rd_data rd) < rd_nalloc rd \<and>
    rd_discrete rd = (\<not> cm_force_continuous opts \<and> (\<forall>x \<in> set (numbers is). deq (dfloor x) x))"
proof -
  let ?r = "\<lparr>rd_data = [], rd_nalloc = 100, rd_warned = 0, rd_discrete = (\<not> cm_force_continuous opts)\<rparr>"
  have "reading_ok ?r" by (simp add: reading_ok_def)
  from read_loop_items [OF assms this] show ?thesis
    using assms(1) by (auto simp: read_file_def reads_def reading_ok_def)
qed

text \<open>
  C32. The reader: when memory is granted, either the file consists of numbers, bad bytes and
  comments that end, and then the program has read its numbers in order, never writing behind the
  buffer it doubles, has counted the bad bytes modulo \<open>2 ^ 16\<close>, and takes the sample to be
  discrete exactly if all numbers are integers and continuous fitting is not forced; or some
  comment is not ended by a newline, and then the program never leaves its loop.
\<close>

theorem plfit_read_file:
  assumes "\<And>n. c_alloc L n" "length stream \<le> fuel"
  shows "(\<exists>is rd. file_items stream is \<and> read_file L fuel opts stream = Inr (Read_data rd) \<and>
      rd_data rd = numbers is \<and> length (rd_data rd) < rd_nalloc rd \<and> unat (rd_warned rd) = bad_bytes is mod 2 ^ 16 \<and>
      rd_discrete rd = (\<not> cm_force_continuous opts \<and> (\<forall>x \<in> set (numbers is). deq (dfloor x) x))) \<or>
    (unterminated stream \<and> (\<forall>n. read_file L n opts stream = Inl Out_of_fuel))"
proof (cases "\<exists>is. file_items stream is")
  case True
  then obtain "is" where "file_items stream is" by blast
  with read_file_items [OF assms(1) this assms(2), of opts] show ?thesis by (auto simp: unat_of_nat)
next
  case False
  then have u: "unterminated stream" using file_items_or_unterminated by blast
  then have "read_file L n opts stream = Inl Out_of_fuel" for n
    using assms(1) by (simp add: read_file_def read_loop_hangs reading_ok_def)
  with u show ?thesis by blast
qed

theorem plfit_read_file_witness:
  "(\<exists>is rd. file_items ''1 2.5x'' is \<and> read_file plain_clib 9 plfit_defaults ''1 2.5x'' = Inr (Read_data rd) \<and>
      rd_data rd = numbers is \<and> length (rd_data rd) < rd_nalloc rd \<and> unat (rd_warned rd) = bad_bytes is mod 2 ^ 16 \<and>
      rd_discrete rd = (\<not> cm_force_continuous plfit_defaults \<and> (\<forall>x \<in> set (numbers is). deq (dfloor x) x))) \<or>
    (unterminated ''1 2.5x'' \<and> (\<forall>n. read_file plain_clib n plfit_defaults ''1 2.5x'' = Inl Out_of_fuel))"
  by (rule plfit_read_file) (simp_all add: plain_clib_def)

text \<open>
  C33. When memory is granted, a file in which every comment ends is rejected with the status 65
  exactly if it has no number, or if its bad bytes are not a multiple of 65536 in number: the
  counter is an \<open>unsigned short\<close> that wraps around, so a file with 65536 bad bytes is taken for a
  correct one. (With a comment that does not end the program never returns from reading the file.)
\<close>

theorem plfit_file_verdict:
  assumes "\<And>n. c_alloc L n" "file_items stream is" "length stream \<le> fuel"
  shows "process_file L fuel opts fname stream e = Inr (Exits EX_DATAERR, e) \<longleftrightarrow>
    bad_bytes is mod 2 ^ 16 \<noteq> 0 \<or> numbers is = []"
proof -
  obtain rd where rd: "read_file L fuel opts stream = Inr (Read_data rd)" "rd_data rd = numbers is"
    "rd_warned rd = of_nat (bad_bytes is)" using read_file_items [OF assms, of opts] by auto
  have "rd_warned rd \<noteq> 0 \<longleftrightarrow> unat (rd_warned rd) \<noteq> 0" by (simp add: unat_eq_zero)
  also have "\<dots> \<longleftrightarrow> bad_bytes is mod 2 ^ 16 \<noteq> 0" by (simp only: rd(3) unat_of_nat) simp
  finally have w: "rd_warned rd \<noteq> 0 \<longleftrightarrow> bad_bytes is mod 2 ^ 16 \<noteq> 0" .
  show ?thesis
    unfolding w [symmetric] rd(2) [symmetric]
    by (auto simp: process_file_def rd(1) Let_def plfit_check_eq_Inr split: prod.splits)
qed

theorem plfit_file_verdict_witness:
  "process_file plain_clib 9 plfit_defaults ''f'' ''1 x'' (rbinom_initial, Builtin 0) =
     Inr (Exits EX_DATAERR, (rbinom_initial, Builtin 0))"
proof -
  have s: "scan_double ''1 x'' = Scanned (Fin 1) '' x''" "scan_double '' x'' = Scan_failed ''x''" by code_simp+
  have "file_items [] []" by (rule at_eof) simp
  then have "file_items '' x'' [Bad_byte]" using s(2) by (intro at_bad_byte) auto
  then have "file_items ''1 x'' [Number (Fin 1), Bad_byte]" using s(1) by (intro at_number)
  from plfit_file_verdict [OF _ this, of plain_clib 9 plfit_defaults "''f''" "(rbinom_initial, Builtin 0)"]
  show ?thesis by (simp add: plain_clib_def)
qed

subsection \<open>A run with a grid of exponents\<close>

lemma moments_defined: "\<exists>m. plfit_moments L xs a b c d = Inr m"
  by (simp add: plfit_moments_def Let_def split: prod.split)

lemma file_moments_defined: "\<exists>m. file_moments L opts xs = Inr m"
  using moments_defined [of L xs True True True True] by (auto simp: file_moments_def Let_def)

lemma dround_nan [simp]: "dround x = NaN \<longleftrightarrow> x = NaN"
  by (cases x) (auto simp: dround_def integral_double_def)

lemma quotient_not_nan: "x \<noteq> NaN \<Longrightarrow> isfinite d \<Longrightarrow> 0 < d \<Longrightarrow> x div d \<noteq> (NaN :: double)"
  by (cases x; cases d) (auto simp: divide_double_def ddiv_def zero_double_def dinf_def)

lemma scale_data_not_nan:
  "NaN \<notin> set xs \<Longrightarrow> isfinite d \<Longrightarrow> \<not> d \<le> 0 \<Longrightarrow> NaN \<notin> set (scale_data d discrete xs)"
proof -
  assume n: "NaN \<notin> set xs" and d: "isfinite d" "\<not> d \<le> 0"
  then have "0 < d" using dnot_le [of d 0] isfinite_not_nan(1) [OF d(1)] by simp
  with n d have "\<forall>x \<in> set xs. x / d \<noteq> NaN" using quotient_not_nan [of _ d] by metis
  with n show ?thesis by (auto simp: scale_data_def Let_def image_iff dest!: sym [of NaN])
qed

lemma scan_fit_defined:
  assumes "options_ok opts" "0 < cm_alpha_step opts" "cm_p_value_method opts = PLFIT_P_VALUE_SKIP"
    "cm_xmin opts \<noteq> NaN" "NaN \<notin> set xs"
  shows "fit_data L fuel opts True xs e \<noteq> Inl Undefined"
proof -
  let ?o = "discrete_options opts"
  have o: "double_grid ?o" "do_alpha_method ?o = PLFIT_LINEAR_SCAN" "do_p_value_method ?o = PLFIT_P_VALUE_SKIP"
    using assms(1-3) by (simp_all add: double_grid_def discrete_options_def Let_def options_ok_def)
  have d: "fit_discrete L fuel ?o xs \<noteq> Inl Undefined" "estimate_core_discrete L fuel ?o xs (cm_xmin opts) \<noteq> Inl Undefined"
    using discrete_scan_defined [OF o(1,2) assms(5), of "cm_xmin opts" L fuel] assms(4) by (auto split: sum.splits)
  have core: "discrete_core L fuel ?o (qsort double_comparator xs) \<noteq> Inl Undefined"
    if "xs \<noteq> []" "\<not> bad_scan ?o" "c_alloc L (sizeof_double * length xs)"
    using d(1) that by (auto simp: fit_discrete_def report_check_def plfit_i_copy_and_sort_def with_alloc_def)
  have p: "with_p_value_discrete L fuel ?o fixed ys e fit \<noteq> Inl Undefined" if "fit \<noteq> Inl Undefined" for fixed ys fit
    using that o(3)
    by (auto simp: with_p_value_discrete_def plfit_i_calculate_p_value_discrete_def plfit_check_eq_Inl split: fit_report.splits)
  show ?thesis
  proof (cases "cm_xmin opts < 0")
    case False
    then show ?thesis using p [OF d(2)] by (simp add: fit_data_def plfit_estimate_alpha_discrete_def Let_def)
  next
    case True
    then show ?thesis using p [OF core]
      by (auto simp: fit_data_def plfit_discrete_def Let_def plfit_i_copy_and_sort_def with_alloc_def)
  qed
qed

text \<open>
  A run with a grid of exponents (\<open>-a\<close>) on a file of integers, without a p-value, is defined
  from the first byte of the file to the report: with options that passed the parser, whatever
  the numbers in the file are, the file is rejected, the library reports an error, the report is
  printed, or the grid has more points than the fuel allows.
\<close>

theorem plfit_scan_run_defined:
  assumes "options_ok opts" "0 < cm_alpha_step opts" "cm_p_value_method opts = PLFIT_P_VALUE_SKIP"
    "cm_xmin opts \<noteq> NaN" "isfinite (cm_divisor opts)" "\<not> cm_force_continuous opts"
    "\<And>n. c_alloc L n" "file_items stream is" "length stream \<le> fuel" "list_all (\<lambda>x. deq (dfloor x) x) (numbers is)"
  shows "process_file L fuel opts fname stream e \<noteq> Inl Undefined"
proof -
  obtain rd where rd: "read_file L fuel opts stream = Inr (Read_data rd)" "rd_data rd = numbers is" "rd_discrete rd"
    using read_file_items [OF assms(7-9), of opts] assms(6,10) by (auto simp: list_all_iff)
  have "NaN \<notin> set (numbers is)" using assms(10) by (auto simp: list_all_iff deq_iff dfloor_def)
  then have n: "NaN \<notin> set (scale_data (cm_divisor opts) True (numbers is))"
    using assms(1,5) by (intro scale_data_not_nan) (auto simp: options_ok_def)
  obtain m where "file_moments L opts (scale_data (cm_divisor opts) True (numbers is)) = Inr m"
    using file_moments_defined by blast
  with rd scan_fit_defined [OF assms(1-4) n, of L fuel e] show ?thesis
    by (auto simp: process_file_def Let_def plfit_check_eq_Inl split: prod.splits)
qed

definition grid_run :: cmd_options_t where
  \<comment> \<open>the options of \<open>plfit -a 1.5:0.5:2\<close>\<close>
  "grid_run = plfit_defaults\<lparr>cm_alpha_min := Fin (3 / 2), cm_alpha_step := Fin (1 / 2), cm_alpha_max := Fin 2\<rparr>"

theorem plfit_scan_run_defined_witness:
  "process_file zero_clib 9 grid_run ''f'' ''1 2 2'' (rbinom_initial, Builtin 0) \<noteq> Inl Undefined"
proof (rule plfit_scan_run_defined)
  have s: "scan_double ''1 2 2'' = Scanned (Fin 1) '' 2 2''" "scan_double '' 2 2'' = Scanned (Fin 2) '' 2''"
    "scan_double '' 2'' = Scanned (Fin 2) []" by code_simp+
  have "file_items [] []" by (rule at_eof) simp
  then show "file_items ''1 2 2'' [Number (Fin 1), Number (Fin 2), Number (Fin 2)]"
    by (rule at_number [OF s(1) at_number [OF s(2) at_number [OF s(3)]]])
  show "list_all (\<lambda>x. deq (dfloor x) x) (numbers [Number (Fin 1), Number (Fin 2), Number (Fin 2)])" by code_simp
  have "representable (3 / 2)" "representable (1 / 2)"
    using representable_quotient [of 3 1] representable_quotient [of 1 1] by simp_all
  then have "is_double (Fin (3 / 2))" "is_double (Fin (1 / 2))" by (simp_all add: is_double_Fin)
  then show "options_ok grid_run" using plfit_defaults_ok by (simp add: options_ok_def grid_run_def plfit_defaults_def)
qed (simp_all add: grid_run_def plfit_defaults_def zero_clib_def plain_clib_def one_double_def zero_double_def uminus_double_def)

end
