(* ===== verification/Pipeline.thy ===== *)
theory Pipeline
  imports Plgen Plfit_Main
begin

text \<open>
  The two programs together: what \<open>plgen\<close> prints is what \<open>plfit\<close> reads. The decimal digits that
  the formats \<open>%ld\<close> and \<open>%.8f\<close> produce are scanned back by the automaton for numbers.
\<close>

lemma char_code_digit [simp]: "d < 10 \<Longrightarrow> char_code (digit_char d) = 48 + d"
  by (simp add: char_code_def digit_char_def)

lemma digit_value_digit [simp]: "d < 10 \<Longrightarrow> digit_value hex (digit_char d) = Some d"
  by (simp add: digit_value_def Let_def)

lemma digit_char_other [simp]:
  assumes "d < 10"
  shows "\<not> isspace (digit_char d)" "digit_char d \<noteq> CHR ''+''" "digit_char d \<noteq> CHR ''-''"
proof -
  have "char_code (CHR ''+'') = 43" "char_code (CHR ''-'') = 45" by (simp_all add: char_code_def)
  then show "digit_char d \<noteq> CHR ''+''" "digit_char d \<noteq> CHR ''-''" using char_code_digit [OF assms] by auto
  show "\<not> isspace (digit_char d)" using char_code_digit [OF assms] by (simp add: isspace_def)
qed

definition fresh :: "number \<Rightarrow> bool" where
  \<comment> \<open>nothing but a sign has been read\<close>
  "fresh s \<longleftrightarrow> nb_phase s \<in> {At_sign, At_first} \<and> \<not> nb_hex s \<and> nb_digits s = 0 \<and> nb_fraction s = 0 \<and>
     \<not> nb_exp_neg s \<and> nb_exp s = 0"

lemma scan_whole_digit:
  "nb_phase s = Whole \<Longrightarrow> \<not> nb_hex s \<Longrightarrow> d < 10 \<Longrightarrow>
     scan_number s (digit_char d # r) = scan_number (s\<lparr>nb_digits := nb_digits s * 10 + d\<rparr>) r"
  by (cases s) (simp add: number_step_def number_digits_def add_digit_def)

lemma scan_fraction_digit:
  "nb_phase s = Fraction \<Longrightarrow> \<not> nb_hex s \<Longrightarrow> d < 10 \<Longrightarrow>
     scan_number s (digit_char d # r) =
     scan_number (s\<lparr>nb_digits := nb_digits s * 10 + d, nb_fraction := nb_fraction s + 1\<rparr>) r"
  by (cases s) (simp add: number_step_def add_digit_def)

lemma number_step_first_digit:
  assumes "fresh s" "n < 10"
  shows "number_step s (digit_char n) = Some (s\<lparr>nb_phase := (if n = 0 then Zero else Whole), nb_digits := n\<rparr>)"
proof -
  have "number_start (digit_char n) s = Some (s\<lparr>nb_phase := (if n = 0 then Zero else Whole), nb_digits := n\<rparr>)"
    using assms by (cases s) (simp add: fresh_def number_start_def add_digit_def)
  then show ?thesis using assms by (auto simp: fresh_def number_step_def)
qed

lemma scan_show_nat:
  assumes "fresh s"
  shows "scan_number s (show_nat n @ r) =
    scan_number (s\<lparr>nb_phase := (if n = 0 then Zero else Whole), nb_digits := n\<rparr>) r"
proof (induction n arbitrary: r rule: show_nat.induct)
  case (1 n)
  show ?case
  proof (cases "n < 10")
    case True
    then show ?thesis using number_step_first_digit [OF assms] by (subst show_nat.simps) simp
  next
    case False
    let ?w = "s\<lparr>nb_phase := Whole, nb_digits := n div 10\<rparr>"
    have d: "n div 10 \<noteq> 0" "n \<noteq> 0" "n div 10 * 10 + n mod 10 = n" using False by auto
    have "scan_number s (show_nat n @ r) = scan_number ?w (digit_char (n mod 10) # r)"
      using "1.IH" [OF False, of "digit_char (n mod 10) # r"] False d(1) by (subst show_nat.simps) simp
    also have "\<dots> = scan_number (?w\<lparr>nb_digits := nb_digits ?w * 10 + n mod 10\<rparr>) r"
      by (rule scan_whole_digit) (use assms in \<open>simp_all add: fresh_def\<close>)
    finally show ?thesis using d(2,3) by (simp del: div_mult_mod_eq)
  qed
qed

lemma scan_show_padded:
  assumes "nb_phase s = Fraction" "\<not> nb_hex s" "n < 10 ^ k"
  shows "scan_number s (show_padded k n @ r) =
    scan_number (s\<lparr>nb_digits := nb_digits s * 10 ^ k + n, nb_fraction := nb_fraction s + k\<rparr>) r"
  using assms(3)
proof (induction k arbitrary: n r)
  case 0
  then show ?case by (cases s) simp
next
  case (Suc k)
  then have "n div 10 < 10 ^ k" by (simp add: less_mult_imp_div_less mult.commute)
  from Suc.IH [OF this, of "digit_char (n mod 10) # r"]
  have "scan_number s (show_padded (Suc k) n @ r) =
      scan_number (s\<lparr>nb_digits := nb_digits s * 10 ^ k + n div 10, nb_fraction := nb_fraction s + k\<rparr>) (digit_char (n mod 10) # r)"
    by simp
  also have "\<dots> = scan_number (s\<lparr>nb_digits := (nb_digits s * 10 ^ k + n div 10) * 10 + n mod 10,
      nb_fraction := nb_fraction s + k + 1\<rparr>) r"
    by (subst scan_fraction_digit) (use assms in simp_all)
  also have "(nb_digits s * 10 ^ k + n div 10) * 10 + n mod 10 = nb_digits s * 10 ^ Suc k + n"
    by (simp add: algebra_simps)
  finally show ?case by simp
qed

lemma scan_newline:
  "nb_phase s \<in> {Zero, Whole, Fraction} \<Longrightarrow> \<not> nb_hex s \<Longrightarrow> scan_number s (CHR 0x0A # r) = (s, CHR 0x0A # r)"
  by (cases s) (auto simp: number_step_def number_digits_def number_exponent_def digit_value_def lower_case_def
      char_code_def Let_def)

subsection \<open>The value of a printed number\<close>

definition read_fixed8 :: "double \<Rightarrow> double" where
  \<comment> \<open>a number after printing to eight decimals and reading again\<close>
  "read_fixed8 x =
     (let q = of_nat (round8 x) / 10 ^ 8 in to_double (sign_bit x) (if sign_bit x then - q else q))"

lemma to_double_sign: "1 \<le> \<bar>q\<bar> \<Longrightarrow> to_double s q = to_double t q"
proof -
  assume q: "1 \<le> \<bar>q\<bar>"
  then have "rnd q \<noteq> 0" using rnd_ge [of 1 q] rnd_ge [of 1 "- q"] by (cases "0 \<le> q") auto
  then show ?thesis by (simp add: to_double_def Let_def)
qed

definition signed :: "bool \<Rightarrow> number" where
  \<comment> \<open>the automaton after an optional minus sign\<close>
  "signed neg = (if neg then no_number\<lparr>nb_phase := At_first, nb_neg := True\<rparr> else no_number)"

lemma fresh_signed: "fresh (signed neg)" "nb_neg (signed neg) = neg" "nb_exp (signed neg) = 0" "\<not> nb_hex (signed neg)"
  "nb_fraction (signed neg) = 0"
  by (simp_all add: signed_def fresh_def no_number_def)

lemma scan_sign:
  "scan_number no_number ((if neg then [CHR ''-''] else []) @ r) = scan_number (signed neg) r"
  by (simp add: signed_def number_step_def no_number_def)

lemma show_nat_first: "\<exists>d r. show_nat n = digit_char d # r \<and> d < 10"
proof (induction n rule: show_nat.induct)
  case (1 n)
  then show ?case by (cases "n < 10") (subst show_nat.simps, auto)+
qed

lemma scan_double_digits:
  assumes "scan_number (signed neg) (show_nat n @ r) = (s, rest)" "number_complete s"
  shows "scan_double ((if neg then [CHR ''-''] else []) @ show_nat n @ r) = Scanned (number_value s) rest"
proof -
  let ?cs = "(if neg then [CHR ''-''] else []) @ show_nat n @ r"
  obtain d t where "show_nat n = digit_char d # t" "d < 10" using show_nat_first by blast
  moreover have "\<not> isspace (CHR ''-'')" by (simp add: isspace_def char_code_def)
  ultimately have "dropWhile isspace ?cs = ?cs" "?cs \<noteq> []" by simp_all
  with assms show ?thesis by (simp add: scan_double_def scan_sign [simplified])
qed

lemma scan_show_long:
  assumes "\<bar>i\<bar> \<le> 2 ^ 53"
  shows "scan_double (show_long i @ CHR 0x0A # r) = Scanned (double_of_int i) (CHR 0x0A # r)"
proof -
  let ?neg = "i < 0" and ?n = "nat \<bar>i\<bar>"
  let ?s = "(signed ?neg)\<lparr>nb_phase := (if ?n = 0 then Zero else Whole), nb_digits := ?n\<rparr>"
  have "scan_number (signed ?neg) (show_nat ?n @ CHR 0x0A # r) = (?s, CHR 0x0A # r)"
    using scan_show_nat [OF fresh_signed(1), of ?neg ?n] scan_newline [of ?s r] fresh_signed by simp
  moreover have "number_complete ?s" by (simp add: number_complete_def)
  ultimately have "scan_double ((if ?neg then [CHR ''-''] else []) @ show_nat ?n @ CHR 0x0A # r)
      = Scanned (number_value ?s) (CHR 0x0A # r)" by (rule scan_double_digits)
  moreover have "(if ?neg then [CHR ''-''] else []) @ show_nat ?n @ CHR 0x0A # r = show_long i @ CHR 0x0A # r"
    by (simp add: show_long_def)
  moreover have "number_value ?s = double_of_int i"
  proof -
    have "number_value ?s = to_double ?neg (of_int i)"
      using fresh_signed by (simp add: number_value_def Let_def)
    also have "\<dots> = double_of_int i"
      unfolding double_of_int_def by (cases ?neg) (auto intro!: to_double_sign)
    finally show ?thesis .
  qed
  ultimately show ?thesis by simp
qed

lemma scan_show_fixed8:
  assumes "isfinite x"
  shows "scan_double (show_fixed8 x @ CHR 0x0A # r) = Scanned (read_fixed8 x) (CHR 0x0A # r)"
proof -
  let ?neg = "sign_bit x" and ?k = "round8 x div 10 ^ 8" and ?f = "round8 x mod 10 ^ 8"
  let ?a = "(signed ?neg)\<lparr>nb_phase := (if ?k = 0 then Zero else Whole), nb_digits := ?k\<rparr>"
  let ?b = "?a\<lparr>nb_phase := Fraction\<rparr>"
  let ?s = "?b\<lparr>nb_digits := ?k * 10 ^ 8 + ?f, nb_fraction := 8\<rparr>"
  have "scan_number (signed ?neg) (show_nat ?k @ CHR ''.'' # show_padded 8 ?f @ CHR 0x0A # r) =
      scan_number ?a (CHR ''.'' # show_padded 8 ?f @ CHR 0x0A # r)"
    by (rule scan_show_nat) (rule fresh_signed)
  also have "\<dots> = scan_number ?b (show_padded 8 ?f @ CHR 0x0A # r)"
    using fresh_signed by (auto simp: number_step_def number_digits_def digit_value_def lower_case_def char_code_def Let_def)
  also have "\<dots> = scan_number ?s (CHR 0x0A # r)"
    using scan_show_padded [of ?b ?f 8 "CHR 0x0A # r"] fresh_signed by simp
  also have "\<dots> = (?s, CHR 0x0A # r)" by (rule scan_newline) (use fresh_signed in simp_all)
  finally have "scan_number (signed ?neg) (show_nat ?k @ CHR ''.'' # show_padded 8 ?f @ CHR 0x0A # r) = (?s, CHR 0x0A # r)" .
  moreover have "number_complete ?s" by (simp add: number_complete_def)
  ultimately have "scan_double ((if ?neg then [CHR ''-''] else []) @ show_nat ?k @ CHR ''.'' # show_padded 8 ?f @ CHR 0x0A # r)
      = Scanned (number_value ?s) (CHR 0x0A # r)" by (rule scan_double_digits)
  moreover have "number_value ?s = read_fixed8 x"
    using fresh_signed by (simp add: number_value_def read_fixed8_def Let_def)
  ultimately show ?thesis using assms by (auto simp: show_fixed8_def)
qed

subsection \<open>Files of printed lines\<close>

lemma file_items_newline:
  assumes "file_items s is"
  shows "file_items (CHR 0x0A # s) is"
proof -
  have e: "scan_double (CHR 0x0A # s) = scan_double s" by (simp add: scan_double_def isspace_def char_code_def)
  from assms show ?thesis
    by (cases rule: file_items.cases) (auto intro: file_items.intros simp: e)
qed

definition line_value :: "output_line \<Rightarrow> double" where
  "line_value l = (case l of Long_line i \<Rightarrow> double_of_int i | Double_line x \<Rightarrow> read_fixed8 x)"

definition line_ok :: "output_line \<Rightarrow> bool" where
  \<comment> \<open>an integer that a double represents exactly, or a finite number\<close>
  "line_ok l = (case l of Long_line i \<Rightarrow> \<bar>i\<bar> \<le> 2 ^ 53 | Double_line x \<Rightarrow> isfinite x)"

definition printed :: "output_line list \<Rightarrow> string" where
  "printed ls = concat (map printed_line ls)"

lemma scan_printed_line:
  "line_ok l \<Longrightarrow> scan_double (printed_line l @ r) = Scanned (line_value l) (CHR 0x0A # r)"
  by (cases l) (simp_all add: line_ok_def line_value_def printed_line_def scan_show_long scan_show_fixed8)

lemma printed_items: "list_all line_ok ls \<Longrightarrow> file_items (printed ls) (map (\<lambda>l. Number (line_value l)) ls)"
proof (induction ls)
  case Nil
  show ?case by (auto simp: printed_def intro: at_eof)
next
  case (Cons l ls)
  then have "file_items (CHR 0x0A # printed ls) (map (\<lambda>l. Number (line_value l)) ls)"
    by (intro file_items_newline) simp
  with Cons.prems show ?case
    by (auto simp: printed_def scan_printed_line intro: at_number)
qed

lemma numbers_of_lines:
  "numbers (map (\<lambda>l. Number (f l)) ls) = map f ls" "bad_bytes (map (\<lambda>l. Number (f l)) ls) = 0"
  by (induction ls) auto

lemma integral_double_of_int: "\<bar>i\<bar> \<le> 2 ^ 53 \<Longrightarrow> deq (dfloor (double_of_int i)) (double_of_int i)"
  by (auto simp: double_of_int_exact dfloor_def integral_double_def deq_iff)

lemma printed_file_read:
  assumes "\<And>n. c_alloc L n" "list_all line_ok ls" "length (printed ls) \<le> fuel"
  shows "\<exists>rd. read_file L fuel opts (printed ls) = Inr (Read_data rd) \<and> rd_data rd = map line_value ls \<and>
    rd_warned rd = 0 \<and>
    rd_discrete rd = (\<not> cm_force_continuous opts \<and> list_all (\<lambda>l. deq (dfloor (line_value l)) (line_value l)) ls)"
  using read_file_items [OF assms(1) printed_items [OF assms(2)] assms(3), of opts]
  by (auto simp: numbers_of_lines list_all_iff)

end
