(* ===== verification/Runs.thy ===== *)
theory Runs
  imports Pipeline
begin

text \<open>
  Whole runs of the two programs: their exit statuses, a run of \<open>plfit\<close> over files of integers
  from the command line to the end, and the two programs connected by a pipe.
\<close>

subsection \<open>Why a program leaves its options\<close>

definition refused_number :: "(double \<Rightarrow> bool) \<Rightarrow> string \<Rightarrow> double \<Rightarrow> bool" where
  \<comment> \<open>the argument \<open>w\<close> is no number or a number that is not allowed; an empty argument keeps the old one\<close>
  "refused_number bad w old \<longleftrightarrow> (case sscanf1 (scan_double w) old of None \<Rightarrow> True | Some x \<Rightarrow> bad x)"

definition plfit_refuses :: "char \<Rightarrow> string \<Rightarrow> Plfit_Main.cmd_options_t \<Rightarrow> bool" where
  "plfit_refuses c w opts \<longleftrightarrow>
     c = CHR ''a'' \<and> scan_range w = None \<or>
     c = CHR ''D'' \<and> refused_number (\<lambda>x. x \<le> 0) w (cm_divisor opts) \<or>
     c = CHR ''e'' \<and> refused_number (\<lambda>x. x \<le> 0) w (cm_p_value_precision opts) \<or>
     c = CHR ''m'' \<and> refused_number (\<lambda>x. x < 0) w (cm_xmin opts) \<or>
     c = CHR ''p'' \<and> p_value_method_of w = None \<or>
     c = CHR ''s'' \<and> sscanf1 (scan_ulong w) (cm_seed opts) = None"

definition plgen_refuses :: "char \<Rightarrow> string \<Rightarrow> Plgen.cmd_options_t \<Rightarrow> bool" where
  "plgen_refuses c w opts \<longleftrightarrow>
     c = CHR ''k'' \<and> refused_number (\<lambda>_. False) w (pg_kappa opts) \<or>
     c = CHR ''o'' \<and> refused_number (\<lambda>_. False) w (pg_offset opts) \<or>
     c = CHR ''s'' \<and> sscanf1 (scan_ulong w) (pg_seed opts) = None \<or>
     c = CHR ''x'' \<and> refused_number (\<lambda>x. x \<le> 0) w (pg_xmin opts)"

text \<open>
  The status with which a letter ends a program: 0 for the help and the version, 1 for a wrong
  option (an unknown one, or a missing argument) and for an argument that is refused.
\<close>

definition letter_status :: "(char \<Rightarrow> string \<Rightarrow> 'o \<Rightarrow> bool) \<Rightarrow> char \<Rightarrow> getopt_state \<Rightarrow> 'o \<Rightarrow> int option" where
  "letter_status refuses c s opts =
     (if c \<in> {CHR ''h'', CHR ''v''} then Some 0
      else if c = CHR ''?'' \<or> (\<exists>w. optarg s = Some w \<and> refuses c w opts) then Some 1
      else None)"

lemma plfit_option_leaves:
  "plfit_option c s opts = Inr (Leave n) \<Longrightarrow> letter_status plfit_refuses c s opts = Some n"
  by (auto simp: plfit_option_def with_optarg_def letter_status_def plfit_refuses_def refused_number_def
      split: if_splits option.splits)

lemma plgen_option_leaves:
  "plgen_option c s opts = Inr (Leave n) \<Longrightarrow> letter_status plgen_refuses c s opts = Some n"
  by (auto simp: plgen_option_def with_optarg_def letter_status_def plgen_refuses_def refused_number_def
      split: if_splits option.splits)

lemma plfit_option_aborts: "plfit_option c s opts = Inr Abort \<Longrightarrow> c \<notin> set ''abcDefhmMpsv?''"
  by (auto simp: plfit_option_def with_optarg_def split: if_splits option.splits)

lemma plgen_option_aborts: "plgen_option c s opts = Inr Abort \<Longrightarrow> c \<notin> set ''chkosvx?''"
  by (auto simp: plgen_option_def with_optarg_def split: if_splits option.splits)

definition plfit_meets :: "environment \<Rightarrow> string list \<Rightarrow> char \<Rightarrow> getopt_state \<Rightarrow> Plfit_Main.cmd_options_t \<Rightarrow> bool" where
  "plfit_meets E args =
     option_at (posixly_correct E) plfit_optstr plfit_option (initial_getopt args) plfit_defaults"

definition plgen_meets :: "environment \<Rightarrow> string list \<Rightarrow> char \<Rightarrow> getopt_state \<Rightarrow> Plgen.cmd_options_t \<Rightarrow> bool" where
  "plgen_meets E args =
     option_at (posixly_correct E) plgen_optstr plgen_option (initial_getopt args) plgen_defaults"

lemma plfit_parse_left:
  assumes "plfit_parse_cmd_options E fuel args = Inr (Left n)"
  obtains c s opts where "plfit_meets E args c s opts" "letter_status plfit_refuses c s opts = Some n"
  using option_loop_met [OF assms [unfolded plfit_parse_cmd_options_def]]
  by (auto simp: plfit_meets_def dest: plfit_option_leaves)

lemma plfit_parse_aborted:
  assumes "plfit_parse_cmd_options E fuel args = Inr Aborted_parse"
  obtains c s opts where "plfit_meets E args c s opts" "c \<notin> set ''abcDefhmMpsv?''"
  using option_loop_met [OF assms [unfolded plfit_parse_cmd_options_def]]
  by (auto simp: plfit_meets_def dest: plfit_option_aborts)

lemma plgen_loop_result:
  assumes "plgen_parse_cmd_options E fuel args = Inr x" "\<And>opts s. x \<noteq> Parsed opts s"
  shows "option_loop fuel (posixly_correct E) plgen_optstr plgen_option (initial_getopt args) plgen_defaults = Inr x"
proof -
  obtain r where "option_loop fuel (posixly_correct E) plgen_optstr plgen_option (initial_getopt args) plgen_defaults = Inr r"
    "(case r of Parsed opts s \<Rightarrow> Parsed (rounded_xmin opts) s | _ \<Rightarrow> r) = x"
    using assms(1) by (auto simp: plgen_parse_cmd_options_def plfit_check_eq_Inr)
  with assms(2) show ?thesis by (cases r) auto
qed

lemma plgen_parse_left:
  assumes "plgen_parse_cmd_options E fuel args = Inr (Left n)"
  obtains c s opts where "plgen_meets E args c s opts" "letter_status plgen_refuses c s opts = Some n"
  using option_loop_met [OF plgen_loop_result [OF assms]]
  by (auto simp: plgen_meets_def dest: plgen_option_leaves)

lemma plgen_parse_aborted:
  assumes "plgen_parse_cmd_options E fuel args = Inr Aborted_parse"
  obtains c s opts where "plgen_meets E args c s opts" "c \<notin> set ''chkosvx?''"
  using option_loop_met [OF plgen_loop_result [OF assms]]
  by (auto simp: plgen_meets_def dest: plgen_option_aborts)

subsection \<open>The operands of plfit\<close>

definition operand_stream :: "environment \<Rightarrow> string \<Rightarrow> string option" where
  "operand_stream E w = (if first_char w = CHR ''-'' then Some (standard_input E) else input_files E w)"

definition rejected :: "clib \<Rightarrow> nat \<Rightarrow> Plfit_Main.cmd_options_t \<Rightarrow> string \<Rightarrow> bool" where
  \<comment> \<open>reading the stream gives warnings (counted in 16 bits) or no number\<close>
  "rejected L fuel opts stream \<longleftrightarrow>
     (\<exists>rd. read_file L fuel opts stream = Inr (Read_data rd) \<and> (rd_warned rd \<noteq> 0 \<or> rd_data rd = []))"

text \<open>
  What becomes of an operand, and of the operands in their order: a rejected one ends the program,
  and the operands behind it are not looked at; the caches and the generator pass from one to the
  next.
\<close>

datatype operand_end = Not_opened | Rejected | Fitted_report report | Without_memory

inductive operands ::
  "clib \<Rightarrow> environment \<Rightarrow> nat \<Rightarrow> Plfit_Main.cmd_options_t \<Rightarrow> string list \<Rightarrow> env \<Rightarrow> operand_end list \<Rightarrow> bool"
  for L E fuel opts where
  no_operands: "operands L E fuel opts [] e []"
| not_opened: "operand_stream E w = None \<Longrightarrow> operands L E fuel opts ws e ends \<Longrightarrow>
    operands L E fuel opts (w # ws) e (Not_opened # ends)"
| stopped: "operand_stream E w = Some stream \<Longrightarrow> rejected L fuel opts stream \<Longrightarrow>
    operands L E fuel opts (w # ws) e [Rejected]"
| fitted: "operand_stream E w = Some stream \<Longrightarrow> \<not> rejected L fuel opts stream \<Longrightarrow>
    process_file L fuel opts w stream e = Inr (Printed lines, e1) \<Longrightarrow> operands L E fuel opts ws e1 ends \<Longrightarrow>
    operands L E fuel opts (w # ws) e (Fitted_report lines # ends)"
| without_memory: "operand_stream E w = Some stream \<Longrightarrow> read_file L fuel opts stream = Inr No_memory \<Longrightarrow>
    operands L E fuel opts ws e ends \<Longrightarrow> operands L E fuel opts (w # ws) e (Without_memory # ends)"

definition status_of :: "operand_end list \<Rightarrow> int" where
  "status_of ends = (if Rejected \<in> set ends then 65 else if Not_opened \<in> set ends then 2 else 0)"

definition reports_of :: "operand_end list \<Rightarrow> report" where
  "reports_of ends = concat (map (\<lambda>x. case x of Fitted_report lines \<Rightarrow> lines | _ \<Rightarrow> []) ends)"

lemma process_file_ends:
  assumes "process_file L fuel opts fname stream e = Inr (r, e1)"
  shows "(r = Exits EX_DATAERR \<and> e1 = e \<and> rejected L fuel opts stream) \<or>
    (r = Not_processed \<and> e1 = e \<and> read_file L fuel opts stream = Inr No_memory) \<or>
    (\<exists>lines. r = Printed lines \<and> \<not> rejected L fuel opts stream)"
proof -
  obtain x where x: "read_file L fuel opts stream = Inr x" using assms by (auto simp: process_file_def plfit_check_eq_Inr)
  with assms show ?thesis
    by (cases x) (auto simp: process_file_def rejected_def plfit_check_eq_Inr Let_def split: if_splits)
qed

lemma process_files_operands:
  assumes "process_files L E fuel opts ws used e retval out = Inr run"
  shows "\<exists>ends. operands L E fuel opts ws e ends \<and>
    run = Run_exits (if status_of ends = 0 then retval else status_of ends) (out @ reports_of ends)"
  using assms
proof (induction ws arbitrary: used e retval out)
  case Nil
  then show ?case by (auto simp: status_of_def reports_of_def intro!: exI [of _ "[]"] no_operands)
next
  case (Cons w ws)
  let ?std = "first_char w = CHR ''-''"
  show ?case
  proof (cases "operand_stream E w")
    case None
    then have "process_files L E fuel opts ws used e 2 out = Inr run"
      using Cons.prems by (auto simp: operand_stream_def Let_def split: if_splits)
    from Cons.IH [OF this] obtain ends where "operands L E fuel opts ws e ends"
      "run = Run_exits (if status_of ends = 0 then 2 else status_of ends) (out @ reports_of ends)" by blast
    with not_opened [OF None] show ?thesis
      by (intro exI [of _ "Not_opened # ends"]) (auto simp: status_of_def reports_of_def)
  next
    case (Some stream)
    then obtain r e1 where r: "process_file L fuel opts w stream e = Inr (r, e1)"
      using Cons.prems by (auto simp: operand_stream_def Let_def plfit_check_eq_Inr split: if_splits)
    with Some Cons.prems have go: "(case r of
          Exits n \<Rightarrow> Inr (Run_exits n out)
        | Not_processed \<Rightarrow> process_files L E fuel opts ws (used \<or> ?std) e1 retval out
        | Printed lines \<Rightarrow> process_files L E fuel opts ws (used \<or> ?std) e1 retval (out @ lines)) = Inr run"
      by (auto simp: operand_stream_def Let_def split: if_splits)
    from process_file_ends [OF r] show ?thesis
    proof (elim disjE exE conjE)
      assume "r = Exits EX_DATAERR" "rejected L fuel opts stream"
      with stopped [OF Some] go show ?thesis
        by (intro exI [of _ "[Rejected]"]) (auto simp: status_of_def reports_of_def EX_DATAERR_def)
    next
      assume n: "r = Not_processed" "e1 = e" "read_file L fuel opts stream = Inr No_memory"
      with go Cons.IH obtain ends where "operands L E fuel opts ws e ends"
        "run = Run_exits (if status_of ends = 0 then retval else status_of ends) (out @ reports_of ends)" by fastforce
      with without_memory [OF Some n(3)] show ?thesis
        by (intro exI [of _ "Without_memory # ends"]) (auto simp: status_of_def reports_of_def)
    next
      fix lines
      assume p: "r = Printed lines" "\<not> rejected L fuel opts stream"
      with go Cons.IH obtain ends where "operands L E fuel opts ws e1 ends"
        "run = Run_exits (if status_of ends = 0 then retval else status_of ends) ((out @ lines) @ reports_of ends)" by fastforce
      with fitted [OF Some p(2) r [unfolded p(1)]] show ?thesis
        by (intro exI [of _ "Fitted_report lines # ends"]) (auto simp: status_of_def reports_of_def)
    qed
  qed
qed

text \<open>After the command line: the operands, or the standard input when there are none.\<close>

definition operands_of :: "getopt_state \<Rightarrow> string list" where
  "operands_of s = (if optind s = argc s then [''-''] else drop (optind s) (argv s))"

definition initial_env :: "clib \<Rightarrow> environment \<Rightarrow> Plfit_Main.cmd_options_t \<Rightarrow> env" where
  "initial_env L E opts = (rbinom_initial, Twister (fst (plfit_mt_init L (seeded E (cm_use_seed opts) (cm_seed opts)))))"

lemma main_operands:
  assumes "plfit_parse_cmd_options E fuel args = Inr (Parsed opts s)" "plfit_main L E fuel args = Inr run"
  shows "\<exists>ends. operands L E fuel opts (operands_of s) (initial_env L E opts) ends \<and>
    run = Run_exits (status_of ends) (reports_of ends)"
proof (cases "optind s = argc s")
  case False
  with assms have "process_files L E fuel opts (drop (optind s) (argv s)) False (initial_env L E opts) 0 [] = Inr run"
    by (simp add: plfit_main_def initial_env_def Let_def case_prod_beta)
  from process_files_operands [OF this] False show ?thesis
    by (auto simp: operands_of_def status_of_def split: if_splits)
next
  case True
  let ?e = "initial_env L E opts"
  obtain r e1 where r: "process_file L fuel opts ''-'' (standard_input E) ?e = Inr (r, e1)"
    "run = (case r of Exits n \<Rightarrow> Run_exits n [] | Not_processed \<Rightarrow> Run_exits 0 [] | Printed lines \<Rightarrow> Run_exits 0 lines)"
    using assms True by (auto simp: plfit_main_def initial_env_def Let_def case_prod_beta plfit_check_eq_Inr)
  then have "process_files L E fuel opts [''-''] False ?e 0 [] = Inr run"
    by (cases r) (simp_all add: first_char_def)
  from process_files_operands [OF this] True show ?thesis
    by (auto simp: operands_of_def status_of_def split: if_splits)
qed

subsection \<open>Exit statuses\<close>

definition plfit_exit :: "clib \<Rightarrow> environment \<Rightarrow> nat \<Rightarrow> string list \<Rightarrow> run_end \<Rightarrow> bool" where
  "plfit_exit L E fuel args run \<longleftrightarrow>
     (\<exists>c s opts n. plfit_meets E args c s opts \<and> letter_status plfit_refuses c s opts = Some n \<and> run = Run_exits n []) \<or>
     (\<exists>c s opts. plfit_meets E args c s opts \<and> c \<notin> set ''abcDefhmMpsv?'' \<and> run = Run_aborted) \<or>
     (\<exists>opts s ends. plfit_parse_cmd_options E fuel args = Inr (Parsed opts s) \<and>
        operands L E fuel opts (operands_of s) (initial_env L E opts) ends \<and>
        run = Run_exits (status_of ends) (reports_of ends))"

definition plgen_exit :: "clib \<Rightarrow> environment \<Rightarrow> nat \<Rightarrow> string list \<Rightarrow> program_end \<Rightarrow> bool" where
  "plgen_exit L E fuel args run \<longleftrightarrow>
     (\<exists>c s opts n. plgen_meets E args c s opts \<and> letter_status plgen_refuses c s opts = Some n \<and> run = Exited n []) \<or>
     (\<exists>c s opts. plgen_meets E args c s opts \<and> c \<notin> set ''chkosvx?'' \<and> run = Program_aborted) \<or>
     (\<exists>opts s. plgen_parse_cmd_options E fuel args = Inr (Parsed opts s) \<and>
       (if argc s < optind s + 2 then run = Exited 2 []
        else case sscanf1 (scan_long (argv s ! optind s)) (pg_num_samples opts) of
          None \<Rightarrow> run = Exited 3 []
        | Some n \<Rightarrow>
           (if sscanf1 (scan_double (argv s ! (optind s + 1))) (pg_gamma opts) = None then run = Exited 4 []
            else if pg_continuous opts \<and> 0 < pg_kappa opts then run = Exited 5 []
            else if \<not> pg_continuous opts \<and> 0 < n \<and> 0 < pg_kappa opts \<and> \<not> c_alloc L (num_probs * sizeof_double)
            then run = Exited 7 []
            else \<exists>lines. run = Exited 0 lines)))"

lemma plgen_run_status:
  assumes "plgen_run L E fuel opts = Inr (n, ls)"
  shows "if pg_continuous opts \<and> 0 < pg_kappa opts then n = 5 \<and> ls = []
    else if \<not> pg_continuous opts \<and> 0 < pg_num_samples opts \<and> 0 < pg_kappa opts \<and>
      \<not> c_alloc L (num_probs * sizeof_double) then n = 7 \<and> ls = []
    else n = 0"
  using assms
  by (auto simp: plgen_run_def sample_continuous_def sample_discrete_def plfit_check_eq_Inr
      split: prod.split_asm if_split_asm)



subsection \<open>A run over files of integers\<close>

definition integer_file :: "nat \<Rightarrow> string \<Rightarrow> bool" where
  \<comment> \<open>every comment ends, and every number is an integer\<close>
  "integer_file fuel stream \<longleftrightarrow>
     length stream \<le> fuel \<and> (\<exists>is. file_items stream is \<and> list_all (\<lambda>x. deq (dfloor x) x) (numbers is))"

definition grid_options :: "Plfit_Main.cmd_options_t \<Rightarrow> bool" where
  "grid_options opts \<longleftrightarrow>
     0 < cm_alpha_step opts \<and> cm_p_value_method opts = PLFIT_P_VALUE_SKIP \<and> cm_xmin opts \<noteq> NaN \<and>
     isfinite (cm_divisor opts) \<and> \<not> cm_force_continuous opts"

definition dashes :: "string list \<Rightarrow> nat" where
  \<comment> \<open>how many operands stand for the standard input\<close>
  "dashes ws = length (filter (\<lambda>w. first_char w = CHR ''-'') ws)"

lemma process_file_grid:
  assumes "options_ok opts" "grid_options opts" "\<And>n. c_alloc L n" "integer_file fuel stream"
  shows "process_file L fuel opts fname stream e \<noteq> Inl Undefined"
proof -
  obtain "is" where "file_items stream is" "list_all (\<lambda>x. deq (dfloor x) x) (numbers is)"
    using assms(4) by (auto simp: integer_file_def)
  with assms show ?thesis
    by (intro plfit_scan_run_defined) (auto simp: grid_options_def integer_file_def)
qed

lemma process_files_grid:
  assumes "options_ok opts" "grid_options opts" "\<And>n. c_alloc L n" "integer_file fuel (standard_input E)"
    and "\<And>w stream. input_files E w = Some stream \<Longrightarrow> integer_file fuel stream"
    and "dashes ws + of_bool used \<le> 1"
  shows "process_files L E fuel opts ws used e retval out \<noteq> Inl Undefined"
  using assms(6)
proof (induction ws arbitrary: used e retval out)
  case (Cons w ws)
  let ?std = "first_char w = CHR ''-''"
  have d: "dashes ws + of_bool (used \<or> ?std) \<le> 1" "\<not> (?std \<and> used)"
    using Cons.prems by (auto simp: dashes_def split: if_splits)
  show ?case
  proof (cases "if ?std then Some (standard_input E) else input_files E w")
    case None
    then have n: "\<not> ?std" "input_files E w = None" by (auto split: if_splits)
    then have "dashes ws + of_bool used \<le> 1" using d(1) by simp
    then show ?thesis using Cons.IH n by simp
  next
    case (Some stream)
    then have "integer_file fuel stream" using assms(4,5) by (auto split: if_splits)
    then have p: "process_file L fuel opts w stream e \<noteq> Inl Undefined" by (rule process_file_grid [OF assms(1-3)])
    have "(case r of Exits n \<Rightarrow> Inr (Run_exits n out)
        | Not_processed \<Rightarrow> process_files L E fuel opts ws (used \<or> ?std) e' retval out
        | Printed lines \<Rightarrow> process_files L E fuel opts ws (used \<or> ?std) e' retval (out @ lines)) \<noteq> Inl Undefined" for r e'
      using Cons.IH [OF d(1)] by (cases r) auto
    with p Some d(2) show ?thesis by (auto simp: Let_def plfit_check_eq_Inl)
  qed
qed simp

text \<open>
  C35. A whole run of \<open>plfit\<close> that selects a grid of exponents is defined: for every command line
  whose options, once parsed, have a positive step of the grid, no p-value, no \<open>-c\<close>, an \<open>xmin\<close> that
  is not NaN and a finite divisor, when memory is granted, every input holds integers only, every
  comment in it ends, and at most one operand names the standard input (reading it again after it
  was closed is undefined), the program ends with an exit status, aborts with an error of the
  library, or the grid has more points than the fuel allows; no array, argument or stream is used
  outside its bounds or its life. The texts that it prints about wrong options are not modelled.
\<close>

theorem plfit_main_grid_defined:
  assumes "args_ok args" "parse_fuel args \<le> fuel" "\<And>n. c_alloc L n"
    and "\<And>opts s. plfit_parse_cmd_options E fuel args = Inr (Parsed opts s) \<Longrightarrow>
      grid_options opts \<and> dashes (drop (optind s) (argv s)) \<le> 1"
    and "integer_file fuel (standard_input E)"
    and "\<And>w stream. input_files E w = Some stream \<Longrightarrow> integer_file fuel stream"
  shows "plfit_main L E fuel args \<noteq> Inl Undefined"
proof -
  obtain r where r: "plfit_parse_cmd_options E fuel args = Inr r" "\<forall>opts s. r = Parsed opts s \<longrightarrow> options_ok opts"
    using plfit.parse_total [OF initial_getopt_ok [OF assms(1)] _ plfit_defaults_ok, of fuel "posixly_correct E"]
      initial_getopt_left [of args] assms(2) by (auto simp: plfit_parse_cmd_options_def)
  show ?thesis
  proof (cases r)
    case (Parsed opts s)
    then have o: "options_ok opts" "grid_options opts" "dashes (drop (optind s) (argv s)) + of_bool False \<le> 1"
      using r assms(4) by auto
    show ?thesis
      using process_file_grid [OF o(1,2) assms(3,5)] process_files_grid [OF o(1,2) assms(3,5,6) o(3)] r Parsed
      by (auto simp: plfit_main_def Let_def plfit_check_eq_Inl split: prod.split)
  qed (use r in \<open>auto simp: plfit_main_def\<close>)
qed


definition one_file :: environment where
  "one_file = empty_environment\<lparr>input_files := (\<lambda>w. if w = ''f'' then Some ''1 2 2'' else None)\<rparr>"

lemma one_file_integers: "integer_file 100 ''1 2 2''" "integer_file 100 []"
proof -
  have s: "scan_double ''1 2 2'' = Scanned (Fin 1) '' 2 2''" "scan_double '' 2 2'' = Scanned (Fin 2) '' 2''"
    "scan_double '' 2'' = Scanned (Fin 2) []" by code_simp+
  have e: "file_items [] []" by (rule at_eof) simp
  then have "file_items ''1 2 2'' [Number (Fin 1), Number (Fin 2), Number (Fin 2)]"
    by (rule at_number [OF s(1) at_number [OF s(2) at_number [OF s(3)]]])
  moreover have "list_all (\<lambda>x. deq (dfloor x) x) (numbers [Number (Fin 1), Number (Fin 2), Number (Fin 2)])" by code_simp
  ultimately show "integer_file 100 ''1 2 2''" unfolding integer_file_def by (intro conjI exI) (simp, assumption+)
  show "integer_file 100 []" using e by (auto simp: integer_file_def intro!: exI [of _ "[]"])
qed

theorem plfit_main_grid_defined_witness:
  "plfit_main plain_clib one_file 100 [''plfit'', ''-a'', ''1.5:0.5:2'', ''f''] \<noteq> Inl Undefined"
proof (rule plfit_main_grid_defined)
  let ?args = "[''plfit'', ''-a'', ''1.5:0.5:2'', ''f'']"
  have p: "case plfit_parse_cmd_options one_file 100 ?args of
      Inr (Parsed opts s) \<Rightarrow> grid_options opts \<and> dashes (drop (optind s) (argv s)) \<le> 1 | _ \<Rightarrow> False"
    by code_simp
  show "grid_options opts \<and> dashes (drop (optind s) (argv s)) \<le> 1"
    if "plfit_parse_cmd_options one_file 100 ?args = Inr (Parsed opts s)" for opts s
    using p that by simp
  show "integer_file 100 (standard_input one_file)"
    using one_file_integers by (simp add: one_file_def empty_environment_def)
  show "integer_file 100 stream" if "input_files one_file w = Some stream" for w stream
    using that one_file_integers by (simp add: one_file_def split: if_splits)
qed (simp_all add: args_ok_def parse_fuel_def plain_clib_def)


subsection \<open>The two programs in a pipe\<close>

lemma read_fixed8_ge_one:
  assumes "1 \<le> y" "isfinite y"
  shows "1 \<le> read_fixed8 y"
proof -
  have q: "1 \<le> val y" "\<not> sign_bit y" using assms by (cases y; simp add: one_double_def)+
  have "(10 :: rat) ^ 8 \<le> \<bar>val y\<bar> * 10 ^ 8" using q by simp
  then have "10 ^ 8 \<le> round_half_even (\<bar>val y\<bar> * 10 ^ 8)" by (intro round_half_even_ge_int) simp
  then have "(10 :: rat) ^ 8 \<le> of_nat (round8 y)" by (simp add: round8_def)
  then have "1 \<le> (of_nat (round8 y) :: rat) / 10 ^ 8" by simp
  moreover have "is_double (Fin 1)" using is_double_simps(6) by (simp add: one_double_def)
  ultimately show ?thesis using q(2) by (simp add: read_fixed8_def one_double_def to_double_ge_Fin)
qed

text \<open>
  A continuous fit of a positive sample by the program, with a search for \<open>xmin\<close>: the fit of the
  tail from one of the points on, with the p-value left out.
\<close>

lemma fit_data_continuous:
  assumes "positive_sample xs" "\<And>b. c_alloc L b" "cm_xmin opts < 0" "cm_p_value_method opts = PLFIT_P_VALUE_SKIP"
  shows "(\<exists>r off. fit_data L fuel opts False xs e = Inr (r, e) \<and> off < length xs \<and>
      fit_of L (continuous_options opts) (qsort double_comparator xs) off r) \<or>
    fit_data L fuel opts False xs e = plfit_fail PLFIT_EINVAL"
proof -
  let ?o = "continuous_options opts" and ?data = "qsort double_comparator xs"
  have o: "co_xmin_method ?o \<noteq> PLFIT_GSS_OR_LINEAR" "co_p_value_method ?o = PLFIT_P_VALUE_SKIP"
    using assms(4) by (simp_all add: continuous_options_def plfit_continuous_default_options_def)
  have fit: "fit_data L fuel opts False xs e = with_p_value L fuel ?o False ?data e (continuous_core L fuel ?o ?data)"
    using assms by (auto simp: fit_data_def plfit_continuous_def plfit_i_copy_and_sort_def positive_sample_def Let_def)
  from core_outcome [OF positive_sample_sorted [OF assms(1)] _ o(1), of L fuel] assms(2)
  consider r off where "continuous_core L fuel ?o ?data = Inr (Fitted r)" "off < length xs" "fit_of L ?o ?data off r"
    | D where "continuous_core L fuel ?o ?data = Inr (Failed PLFIT_EINVAL (Some D))" by fastforce
  then show ?thesis
  proof cases
    case 1
    then have "fit_data L fuel opts False xs e = Inr (r, e)"
      using fit_of_simps(5) [OF 1(3)] by (simp add: fit with_p_value_def skip_p_value [OF o(2)])
    with 1 show ?thesis by blast
  next
    case 2
    then show ?thesis by (simp add: fit with_p_value_def)
  qed
qed

text \<open>
  C37. The pipe \<open>plgen -c | plfit -c\<close>: when \<open>plgen\<close> draws a continuous sample of 1 to 2^31 numbers
  with an exponent greater than 1 and a positive bound, which with the finite offset is at least
  1, and all the numbers it prints are finite, and when every allocation is granted, \<open>plfit\<close>,
  reading them from its standard input with continuous fitting forced, the divisor 1, a search for
  \<open>xmin\<close> and no p-value, exits with the status 0 and a report about all the numbers: a point of
  the sorted numbers as \<open>xmin\<close>, which is one of the numbers printed, rounded to eight decimals,
  and at least 1, and the distance, the estimate of the exponent and the log-likelihood of the
  tail from that point on, where the exponent is not at most 1 (it may be NaN); or it aborts
  because the library reports \<open>PLFIT_EINVAL\<close>.
\<close>

theorem plgen_piped_to_plfit:
  assumes "pow_ge_one L" "\<And>b. c_alloc L b"
    and "pg_continuous pg" "0 < pg_gamma pg - 1" "0 < pg_xmin pg" "is_double (pg_xmin pg)"
      "isfinite (pg_offset pg)" "1 \<le> pg_xmin pg + pg_offset pg" "0 < pg_num_samples pg" "pg_num_samples pg \<le> 2 ^ 31"
    and "plgen_run L E f pg = Inr (0, ls)" "list_all line_ok ls"
    and "plfit_parse_cmd_options E' fuel args = Inr (Parsed opts s)" "optind s = argc s"
      "standard_input E' = printed ls" "length (printed ls) \<le> fuel"
    and "cm_force_continuous opts" "cm_xmin opts < 0" "deq (cm_divisor opts) 1"
      "cm_p_value_method opts = PLFIT_P_VALUE_SKIP"
  shows "(\<exists>r m off. plfit_main L E' fuel args =
        Inr (Run_exits 0 (file_report L opts ''-'' (nat (pg_num_samples pg)) False m r)) \<and>
      off < length ls \<and> fit_of L (continuous_options opts) (qsort double_comparator (map line_value ls)) off r \<and>
      res_xmin r \<in> set (map line_value ls) \<and> 1 \<le> res_xmin r \<and> \<not> res_alpha r \<le> 1) \<or>
    plfit_main L E' fuel args = plfit_fail PLFIT_EINVAL"
proof -
  obtain m st where mt: "plfit_mt_init L (seeded E (pg_use_seed pg) (pg_seed pg)) = (m, st)" by fastforce
  then have "rng_ok L (Twister m)" using plfit_mt_init_ok by (simp add: rng_ok_def)
  then obtain ys where ys: "ls = map Double_line ys" "length ys = nat (pg_num_samples pg)"
      "\<forall>y \<in> set ys. pg_xmin pg + pg_offset pg \<le> y"
    using pareto_lines_ok [OF assms(1,4-7), of "Twister m" "nat (pg_num_samples pg)"] assms(3,11) mt
    by (auto simp: plgen_run_def sample_continuous_def split: if_splits)
  let ?xs = "map line_value ls"
  have ge: "1 \<le> x" if x: "x \<in> set ?xs" for x
  proof -
    obtain y where y: "y \<in> set ys" "x = read_fixed8 y" using x by (auto simp: ys(1) line_value_def)
    then have "isfinite y" using assms(12) by (auto simp: ys(1) line_ok_def list_all_iff)
    moreover have "1 \<le> y" using dle_trans [OF assms(8)] ys(3) y(1) by blast
    ultimately show ?thesis using read_fixed8_ge_one y(2) by blast
  qed
  have "0 < x" if "x \<in> set ?xs" for x using dless_le_trans [OF _ ge [OF that]] by simp
  moreover have n: "length ?xs = nat (pg_num_samples pg)" using ys by simp
  ultimately have pos: "positive_sample ?xs" "?xs \<noteq> []" using assms(9,10) by (auto simp: positive_sample_def)
  obtain rd where rd: "read_file L fuel opts (printed ls) = Inr (Read_data rd)" "rd_data rd = ?xs" "rd_warned rd = 0"
      "\<not> rd_discrete rd"
    using printed_file_read [OF assms(2,12,16), of opts] assms(17) by auto
  obtain mo where mo: "file_moments L opts ?xs = Inr mo" using file_moments_defined by blast
  have run: "process_file L fuel opts ''-'' (printed ls) e =
      plfit_check (fit_data L fuel opts False ?xs e) (\<lambda>(r, e').
        Inr (Printed (file_report L opts ''-'' (length ?xs) False mo r), e'))" for e
    using rd pos(2) mo assms(19) by (simp add: process_file_def Let_def scale_data_def)
  obtain m' st' where mt': "plfit_mt_init L (seeded E' (cm_use_seed opts) (cm_seed opts)) = (m', st')" by fastforce
  from fit_data_continuous [OF pos(1) assms(2,18,20), of fuel "(rbinom_initial, Twister m')"] show ?thesis
  proof (elim disjE exE conjE)
    fix r off
    assume r: "fit_data L fuel opts False ?xs (rbinom_initial, Twister m') = Inr (r, rbinom_initial, Twister m')"
      "off < length ?xs" "fit_of L (continuous_options opts) (qsort double_comparator ?xs) off r"
    have "res_xmin r \<in> set (qsort double_comparator ?xs)" unfolding fit_of_simps(1) [OF r(3)] by (rule nth_mem) (use r(2) in simp)
    then have x: "res_xmin r \<in> set ?xs" by simp
    from r have "plfit_main L E' fuel args =
        Inr (Run_exits 0 (file_report L opts ''-'' (nat (pg_num_samples pg)) False mo r))"
      using assms(13-15) run n by (simp add: plfit_main_def mt' Let_def)
    moreover have "off < length ls" using r(2) by simp
    ultimately show ?thesis using r(3) x ge [OF x] fit_of_simps(4) [OF r(3)] by blast
  qed (use assms(13-15) run in \<open>simp add: plfit_main_def mt' Let_def\<close>)
qed

theorem plgen_piped_to_plfit_witness:
  "\<exists>ls E'. plgen_run plain_clib empty_environment 1
        (plgen_defaults\<lparr>pg_continuous := True, pg_gamma := Fin 3, pg_num_samples := 1\<rparr>) = Inr (0, ls) \<and>
      standard_input E' = printed ls \<and>
      ((\<exists>n lines. plfit_main plain_clib E' 100 [''plfit'', ''-c'', ''-p'', ''skip''] = Inr (Run_exits n lines)) \<or>
        plfit_main plain_clib E' 100 [''plfit'', ''-c'', ''-p'', ''skip''] = plfit_fail PLFIT_EINVAL)"
proof -
  let ?pg = "plgen_defaults\<lparr>pg_continuous := True, pg_gamma := Fin 3, pg_num_samples := 1\<rparr>"
  let ?args = "[''plfit'', ''-c'', ''-p'', ''skip'']"
  define ls where "ls = [Double_line (1 * 1 + 0)]"
  define E' where "E' = empty_environment\<lparr>standard_input := printed ls\<rparr>"
  define X where "X = plfit_parse_cmd_options empty_environment 100 ?args"
  have p: "case X of
      Inr (Parsed opts s) \<Rightarrow> optind s = argc s \<and> cm_force_continuous opts \<and> cm_xmin opts < 0 \<and>
        deq (cm_divisor opts) 1 \<and> cm_p_value_method opts = PLFIT_P_VALUE_SKIP | _ \<Rightarrow> False"
    unfolding X_def by code_simp
  have e: "plfit_parse_cmd_options E' 100 ?args = X"
    by (simp add: plfit_parse_cmd_options_def E'_def empty_environment_def X_def)
  from p obtain opts s where o: "X = Inr (Parsed opts s)" "optind s = argc s"
      "cm_force_continuous opts" "cm_xmin opts < 0" "deq (cm_divisor opts) 1" "cm_p_value_method opts = PLFIT_P_VALUE_SKIP"
    by (simp split: sum.split_asm parsed.split_asm)
  have one: "1 * 1 + 0 = (Fin 1 :: double)" by code_simp
  have "round8 (Fin 1) = 10 ^ 8" using round_half_even_of_int [of "10 ^ 8"] by (simp add: round8_def)
  moreover have "length (show_padded k n) = k" for k n by (induction k arbitrary: n) simp_all
  moreover have "length (show_nat 1) = 1" by (subst show_nat.simps) simp
  ultimately have "length (printed ls) \<le> 100"
    by (simp add: ls_def one printed_def printed_line_def show_fixed8_def)
  moreover have "list_all line_ok ls" by (simp add: ls_def one line_ok_def)
  ultimately have l: "length (printed ls) \<le> 100" "list_all line_ok ls" .
  have g: "\<not> 0 < (- 1 :: double)" "0 < Fin 3 - 1" "\<not> Fin 3 - 1 \<le> 0" "1 \<le> 1 + (0 :: double)" "\<not> 1 \<le> (0 :: double)"
    by code_simp+
  obtain m st where mt: "plfit_mt_init plain_clib (seeded empty_environment False 0) = (m, st)" by fastforce
  then have "rng_ok plain_clib (Twister m)" using plfit_mt_init_ok by (simp add: rng_ok_def)
  then obtain u g1 where "plfit_runif_01 plain_clib (Twister m) = Inr (u, g1)" using runif.draw_ok by blast
  then have run: "plgen_run plain_clib empty_environment 1 ?pg = Inr (0, ls)"
    using mt g by (simp add: plgen_run_def sample_continuous_def plgen_defaults_def plfit_rpareto_def ls_def plain_clib_def)
  have L: "pow_ge_one plain_clib" "c_alloc plain_clib b" for b by (simp_all add: pow_ge_one_def plain_clib_def)
  have pg: "pg_continuous ?pg" "0 < pg_gamma ?pg - 1" "0 < pg_xmin ?pg" "is_double (pg_xmin ?pg)"
    "isfinite (pg_offset ?pg)" "1 \<le> pg_xmin ?pg + pg_offset ?pg" "0 < pg_num_samples ?pg" "pg_num_samples ?pg \<le> 2 ^ 31"
    using g by (simp_all add: plgen_defaults_def)
  have input: "standard_input E' = printed ls" by (simp add: E'_def)
  from plgen_piped_to_plfit [OF L pg run l(2) e [unfolded o(1)] o(2) input l(1) o(3-6)]
  have "(\<exists>n lines. plfit_main plain_clib E' 100 ?args = Inr (Run_exits n lines)) \<or>
      plfit_main plain_clib E' 100 ?args = plfit_fail PLFIT_EINVAL" by blast
  with run input show ?thesis by blast
qed


subsection \<open>Discrete samples without a cutoff\<close>

lemma trunc_rat_mono: "q \<le> r \<Longrightarrow> trunc_rat q \<le> trunc_rat r"
proof -
  assume le: "q \<le> r"
  then have m: "\<lfloor>q\<rfloor> \<le> \<lfloor>r\<rfloor>" "\<lfloor>- r\<rfloor> \<le> \<lfloor>- q\<rfloor>" by (simp_all add: floor_mono)
  show ?thesis
  proof (cases "q < 0 \<and> \<not> r < 0")
    case True
    then have "0 \<le> \<lfloor>- q\<rfloor>" "0 \<le> \<lfloor>r\<rfloor>" by simp_all
    then have "- \<lfloor>- q\<rfloor> \<le> \<lfloor>r\<rfloor>" by linarith
    then show ?thesis using True unfolding trunc_rat_def by (simp only: if_True if_False)
  next
    case False
    with le m show ?thesis by (auto simp: trunc_rat_def)
  qed
qed

lemma cast_long_mono:
  assumes "cast_long x = Inr i" "cast_long y = Inr j" "x \<le> y"
  shows "i \<le> j"
proof -
  have "isfinite x" "isfinite y" "i = trunc_rat (val x)" "j = trunc_rat (val y)"
    using assms(1,2) by (auto simp: cast_long_def cast_range_def split: if_splits)
  with assms(3) show ?thesis using trunc_rat_mono dle_finite by blast
qed

lemma zeta_lines_ge:
  assumes "zeta_lines L fuel opts n g = Inr (ls, g')" "cast_long (pg_xmin opts) = Inr xmin" "\<bar>xmin\<bar> \<le> 2 ^ 53"
    "isfinite (pg_offset opts)" "cast_long (double_of_int xmin + pg_offset opts) = Inr v"
  shows "\<exists>is. ls = map Long_line is \<and> length is = n \<and> (\<forall>i \<in> set is. v \<le> i)"
  using assms(1)
proof (induction n arbitrary: g ls g')
  case (Suc n)
  then obtain x g1 i ls1 where x: "plfit_rzeta L fuel xmin (pg_gamma opts) g = Inr (x, g1)"
    "cast_long (x + pg_offset opts) = Inr i" "zeta_lines L fuel opts n g1 = Inr (ls1, g')" "ls = Long_line i # ls1"
    using assms(2) by (auto simp: plfit_check_eq_Inr)
  obtain "is" where "is": "ls1 = map Long_line is" "length is = n" "\<forall>i \<in> set is. v \<le> i"
    using Suc.IH [OF x(3)] by blast
  have "isfinite (x + pg_offset opts)" using x(2) by (auto simp: cast_long_def cast_range_def split: if_splits)
  then have "x \<noteq> NaN" by auto
  then obtain k g2 where "rzeta_draw L fuel xmin (pg_gamma opts) g = Inr (k, g2)" "x = double_of_int k"
    using x(1) by (auto simp: plfit_rzeta_def plfit_check_eq_Inr split: if_splits)
  then have "double_of_int xmin \<le> x" using rzeta_draw_ge assms(3) double_of_int_mono by blast
  then have "v \<le> i" using cast_long_mono [OF assms(5) x(2)] add_finite_mono [OF _ assms(4)] by blast
  with "is" x(4) show ?case by (intro exI [of _ "i # is"]) simp
qed simp

text \<open>
  Without a cutoff \<open>plgen\<close> prints, when its sampling loops end, as many integers as it is asked for,
  none below \<open>xmin\<close> plus the offset.
\<close>

lemma plgen_zeta_samples:
  assumes "sample_discrete L fuel opts g = Inr (0, ls)" "\<not> 0 < pg_kappa opts"
    "cast_long (pg_xmin opts) = Inr xmin" "\<bar>xmin\<bar> \<le> 2 ^ 53" "isfinite (pg_offset opts)"
    "cast_long (double_of_int xmin + pg_offset opts) = Inr v"
  shows "\<exists>is. ls = map Long_line is \<and> length is = nat (pg_num_samples opts) \<and> (\<forall>i \<in> set is. v \<le> i)"
proof (cases "pg_num_samples opts \<le> 0")
  case True
  with assms(1) show ?thesis by (auto simp: sample_discrete_def)
next
  case False
  with assms(1,2) obtain g' where "zeta_lines L fuel opts (nat (pg_num_samples opts)) g = Inr (ls, g')"
    by (auto simp: sample_discrete_def plfit_check_eq_Inr)
  from zeta_lines_ge [OF this assms(3-6)] show ?thesis .
qed

end
