(* ===== verification/Sse.thy ===== *)
theory Sse
  imports Vec Lbfgs "HOL-Library.Signed_Division"
begin

text \<open>
  \<open>src/arithmetic_sse_double.h\<close>: the vector arithmetic of the build with \<open>USE_SSE\<close> (which
  \<open>CMakeLists.txt\<close> switches on), and the parts of \<open>src/lbfgs.c\<close> that only this build has. The
  operations work on registers of two doubles and on blocks of four or eight elements, whatever
  the number of variables is, so the optimiser rounds that number up to a multiple of eight. The
  theorems: with the rounding all accesses are inside the arrays and without it some are not;
  the operations on elements compute what those of \<open>Vec\<close> compute; the sums are taken over four
  lanes; on arrays for one variable, which is all the program asks for, the results are equal.
\<close>

unbundle bit_operations_syntax

subsection \<open>Registers\<close>

text \<open>
  The type \<open>__m128d\<close> and the intrinsics on it: each acts on both halves. A load or store
  accesses two neighbouring elements of an array that starts at an aligned address.
\<close>

datatype m128d = M128d (m_lo: double) (m_hi: double)

definition mm_set1_pd :: "double \<Rightarrow> m128d" where
  "mm_set1_pd c = M128d c c"

definition mm_setzero_pd :: m128d where
  "mm_setzero_pd = M128d 0 0"

definition mm_set_pd :: "double \<Rightarrow> double \<Rightarrow> m128d" where
  \<comment> \<open>the upper half is given first\<close>
  "mm_set_pd hi lo = M128d lo hi"

fun mm_map2 :: "(double \<Rightarrow> double \<Rightarrow> double) \<Rightarrow> m128d \<Rightarrow> m128d \<Rightarrow> m128d" where
  "mm_map2 f (M128d a b) (M128d c d) = M128d (f a c) (f b d)"

definition mm_add_pd :: "m128d \<Rightarrow> m128d \<Rightarrow> m128d" where "mm_add_pd = mm_map2 (+)"
definition mm_sub_pd :: "m128d \<Rightarrow> m128d \<Rightarrow> m128d" where "mm_sub_pd = mm_map2 (-)"
definition mm_mul_pd :: "m128d \<Rightarrow> m128d \<Rightarrow> m128d" where "mm_mul_pd = mm_map2 (*)"
definition mm_div_pd :: "m128d \<Rightarrow> m128d \<Rightarrow> m128d" where "mm_div_pd = mm_map2 (div)"

definition mm_sqrt_pd :: "clib \<Rightarrow> m128d \<Rightarrow> m128d" where
  "mm_sqrt_pd L r = M128d (c_sqrt L (m_lo r)) (c_sqrt L (m_hi r))"

definition mm_SHUFFLE2 :: "int \<Rightarrow> int \<Rightarrow> int" where
  "mm_SHUFFLE2 x y = push_bit 1 x OR y"

definition mm_shuffle_pd :: "m128d \<Rightarrow> m128d \<Rightarrow> int \<Rightarrow> m128d" where
  "mm_shuffle_pd r s imm =
     M128d (if bit imm 0 then m_hi r else m_lo r) (if bit imm 1 then m_hi s else m_lo s)"

definition mm_movemask_pd :: "m128d \<Rightarrow> int" where
  "mm_movemask_pd r = of_bool (sign_bit (m_lo r)) OR push_bit 1 (of_bool (sign_bit (m_hi r)))"

definition mm_load_pd :: "double list \<Rightarrow> nat \<Rightarrow> m128d result" where
  "mm_load_pd x i = plfit_check (array_get x i) (\<lambda>lo.
     plfit_check (array_get x (i + 1)) (\<lambda>hi. Inr (M128d lo hi)))"

definition mm_store_pd :: "double list \<Rightarrow> nat \<Rightarrow> m128d \<Rightarrow> double list result" where
  "mm_store_pd x i r = plfit_check (array_set x i (m_lo r)) (\<lambda>x. array_set x (i + 1) (m_hi r))"

lemma mm_load_pd_if:
  "mm_load_pd x i = (if i + 1 < length x then Inr (M128d (x ! i) (x ! (i + 1))) else Inl Undefined)"
  by (auto simp: mm_load_pd_def array_get_def)

lemma mm_store_pd_if:
  "mm_store_pd x i r = (if i + 1 < length x then Inr (x[i := m_lo r, i + 1 := m_hi r]) else Inl Undefined)"
  by (auto simp: mm_store_pd_def array_set_def)

lemmas mm_defs = mm_set1_pd_def mm_setzero_pd_def mm_add_pd_def mm_sub_pd_def mm_mul_pd_def mm_div_pd_def
  mm_sqrt_pd_def

subsection \<open>Memory and signs\<close>

text \<open>An array of doubles of the given size in bytes, all \<open>0.0\<close>.\<close>

definition sse_vecalloc :: "clib \<Rightarrow> nat \<Rightarrow> double list option" where
  "sse_vecalloc L bytes = (if c_alloc L bytes then Some (replicate (bytes div sizeof_double) 0) else None)"

definition sse_fsigndiff :: "double \<Rightarrow> double \<Rightarrow> int" where
  "sse_fsigndiff x y = (mm_movemask_pd (mm_set_pd x y) + 1) AND 0x002"

subsection \<open>Operations on the elements\<close>

text \<open>The values of \<open>i\<close> in \<open>for (i = 0; i < n; i += k)\<close>.\<close>

definition blocks :: "nat \<Rightarrow> nat \<Rightarrow> nat list" where
  "blocks k n = map ((*) k) [0..<(n + k - 1) div k]"

definition vecset_block :: "m128d \<Rightarrow> nat \<Rightarrow> double list \<Rightarrow> double list result" where
  "vecset_block XMM0 i x =
     plfit_check (mm_store_pd x i XMM0) (\<lambda>x.
     plfit_check (mm_store_pd x (i + 2) XMM0) (\<lambda>x.
     plfit_check (mm_store_pd x (i + 4) XMM0) (\<lambda>x.
     mm_store_pd x (i + 6) XMM0)))"

definition sse_vecset :: "double list \<Rightarrow> double \<Rightarrow> nat \<Rightarrow> double list result" where
  "sse_vecset x c n = (let XMM0 = mm_set1_pd c in loop_res (vecset_block XMM0) (blocks 8 n) x)"

definition veccpy_block :: "double list \<Rightarrow> nat \<Rightarrow> double list \<Rightarrow> double list result" where
  "veccpy_block x i y =
     plfit_check (mm_load_pd x i) (\<lambda>XMM0.
     plfit_check (mm_load_pd x (i + 2)) (\<lambda>XMM1.
     plfit_check (mm_load_pd x (i + 4)) (\<lambda>XMM2.
     plfit_check (mm_load_pd x (i + 6)) (\<lambda>XMM3.
     plfit_check (mm_store_pd y i XMM0) (\<lambda>y.
     plfit_check (mm_store_pd y (i + 2) XMM1) (\<lambda>y.
     plfit_check (mm_store_pd y (i + 4) XMM2) (\<lambda>y.
     mm_store_pd y (i + 6) XMM3)))))))"

definition sse_veccpy :: "double list \<Rightarrow> double list \<Rightarrow> nat \<Rightarrow> double list result" where
  "sse_veccpy y x n = loop_res (veccpy_block x) (blocks 8 n) y"

definition vecncpy_block :: "double list \<Rightarrow> nat \<Rightarrow> double list \<Rightarrow> double list result" where
  "vecncpy_block x i y =
     (let XMM0 = mm_setzero_pd; XMM1 = mm_setzero_pd; XMM2 = mm_setzero_pd; XMM3 = mm_setzero_pd in
     plfit_check (mm_load_pd x i) (\<lambda>XMM4.
     plfit_check (mm_load_pd x (i + 2)) (\<lambda>XMM5.
     plfit_check (mm_load_pd x (i + 4)) (\<lambda>XMM6.
     plfit_check (mm_load_pd x (i + 6)) (\<lambda>XMM7.
     plfit_check (mm_store_pd y i (mm_sub_pd XMM0 XMM4)) (\<lambda>y.
     plfit_check (mm_store_pd y (i + 2) (mm_sub_pd XMM1 XMM5)) (\<lambda>y.
     plfit_check (mm_store_pd y (i + 4) (mm_sub_pd XMM2 XMM6)) (\<lambda>y.
     mm_store_pd y (i + 6) (mm_sub_pd XMM3 XMM7)))))))))"

definition sse_vecncpy :: "double list \<Rightarrow> double list \<Rightarrow> nat \<Rightarrow> double list result" where
  "sse_vecncpy y x n = loop_res (vecncpy_block x) (blocks 8 n) y"

definition vecadd_block :: "double list \<Rightarrow> m128d \<Rightarrow> nat \<Rightarrow> double list \<Rightarrow> double list result" where
  "vecadd_block x XMM7 i y =
     plfit_check (mm_load_pd x i) (\<lambda>XMM0.
     plfit_check (mm_load_pd x (i + 2)) (\<lambda>XMM1.
     plfit_check (mm_load_pd y i) (\<lambda>XMM2.
     plfit_check (mm_load_pd y (i + 2)) (\<lambda>XMM3.
     let XMM0 = mm_mul_pd XMM0 XMM7;
         XMM1 = mm_mul_pd XMM1 XMM7;
         XMM2 = mm_add_pd XMM2 XMM0;
         XMM3 = mm_add_pd XMM3 XMM1
     in plfit_check (mm_store_pd y i XMM2) (\<lambda>y. mm_store_pd y (i + 2) XMM3)))))"

definition sse_vecadd :: "double list \<Rightarrow> double list \<Rightarrow> double \<Rightarrow> nat \<Rightarrow> double list result" where
  "sse_vecadd y x c n = (let XMM7 = mm_set1_pd c in loop_res (vecadd_block x XMM7) (blocks 4 n) y)"

definition vecdiff_block :: "double list \<Rightarrow> double list \<Rightarrow> nat \<Rightarrow> double list \<Rightarrow> double list result" where
  "vecdiff_block x y i z =
     plfit_check (mm_load_pd x i) (\<lambda>XMM0.
     plfit_check (mm_load_pd x (i + 2)) (\<lambda>XMM1.
     plfit_check (mm_load_pd x (i + 4)) (\<lambda>XMM2.
     plfit_check (mm_load_pd x (i + 6)) (\<lambda>XMM3.
     plfit_check (mm_load_pd y i) (\<lambda>XMM4.
     plfit_check (mm_load_pd y (i + 2)) (\<lambda>XMM5.
     plfit_check (mm_load_pd y (i + 4)) (\<lambda>XMM6.
     plfit_check (mm_load_pd y (i + 6)) (\<lambda>XMM7.
     plfit_check (mm_store_pd z i (mm_sub_pd XMM0 XMM4)) (\<lambda>z.
     plfit_check (mm_store_pd z (i + 2) (mm_sub_pd XMM1 XMM5)) (\<lambda>z.
     plfit_check (mm_store_pd z (i + 4) (mm_sub_pd XMM2 XMM6)) (\<lambda>z.
     mm_store_pd z (i + 6) (mm_sub_pd XMM3 XMM7))))))))))))"

definition sse_vecdiff :: "double list \<Rightarrow> double list \<Rightarrow> double list \<Rightarrow> nat \<Rightarrow> double list result" where
  "sse_vecdiff z x y n = loop_res (vecdiff_block x y) (blocks 8 n) z"

definition vecscale_block :: "m128d \<Rightarrow> nat \<Rightarrow> double list \<Rightarrow> double list result" where
  "vecscale_block XMM7 i y =
     plfit_check (mm_load_pd y i) (\<lambda>XMM0.
     plfit_check (mm_load_pd y (i + 2)) (\<lambda>XMM1.
     plfit_check (mm_store_pd y i (mm_mul_pd XMM0 XMM7)) (\<lambda>y.
     mm_store_pd y (i + 2) (mm_mul_pd XMM1 XMM7))))"

definition sse_vecscale :: "double list \<Rightarrow> double \<Rightarrow> nat \<Rightarrow> double list result" where
  "sse_vecscale y c n = (let XMM7 = mm_set1_pd c in loop_res (vecscale_block XMM7) (blocks 4 n) y)"

definition vecmul_block :: "double list \<Rightarrow> nat \<Rightarrow> double list \<Rightarrow> double list result" where
  "vecmul_block x i y =
     plfit_check (mm_load_pd x i) (\<lambda>XMM0.
     plfit_check (mm_load_pd x (i + 2)) (\<lambda>XMM1.
     plfit_check (mm_load_pd x (i + 4)) (\<lambda>XMM2.
     plfit_check (mm_load_pd x (i + 6)) (\<lambda>XMM3.
     plfit_check (mm_load_pd y i) (\<lambda>XMM4.
     plfit_check (mm_load_pd y (i + 2)) (\<lambda>XMM5.
     plfit_check (mm_load_pd y (i + 4)) (\<lambda>XMM6.
     plfit_check (mm_load_pd y (i + 6)) (\<lambda>XMM7.
     plfit_check (mm_store_pd y i (mm_mul_pd XMM4 XMM0)) (\<lambda>y.
     plfit_check (mm_store_pd y (i + 2) (mm_mul_pd XMM5 XMM1)) (\<lambda>y.
     plfit_check (mm_store_pd y (i + 4) (mm_mul_pd XMM6 XMM2)) (\<lambda>y.
     mm_store_pd y (i + 6) (mm_mul_pd XMM7 XMM3))))))))))))"

definition sse_vecmul :: "double list \<Rightarrow> double list \<Rightarrow> nat \<Rightarrow> double list result" where
  "sse_vecmul y x n = loop_res (vecmul_block x) (blocks 8 n) y"

subsection \<open>Sums\<close>

text \<open>The loop of \<open>vecdot\<close>; its state is the pair of accumulators \<open>XMM0\<close> and \<open>XMM1\<close>.\<close>

definition vecdot_block ::
  "double list \<Rightarrow> double list \<Rightarrow> nat \<Rightarrow> m128d \<times> m128d \<Rightarrow> (m128d \<times> m128d) result" where
  "vecdot_block x y i = (\<lambda>(XMM0, XMM1).
     plfit_check (mm_load_pd x i) (\<lambda>XMM2.
     plfit_check (mm_load_pd x (i + 2)) (\<lambda>XMM3.
     plfit_check (mm_load_pd y i) (\<lambda>XMM4.
     plfit_check (mm_load_pd y (i + 2)) (\<lambda>XMM5.
     let XMM2 = mm_mul_pd XMM2 XMM4;
         XMM3 = mm_mul_pd XMM3 XMM5
     in Inr (mm_add_pd XMM0 XMM2, mm_add_pd XMM1 XMM3))))))"

definition sse_vecdot :: "double list \<Rightarrow> double list \<Rightarrow> nat \<Rightarrow> double result" where
  "sse_vecdot x y n =
     plfit_check (loop_res (vecdot_block x y) (blocks 4 n) (mm_setzero_pd, mm_setzero_pd)) (\<lambda>(XMM0, XMM1).
       let XMM0 = mm_add_pd XMM0 XMM1;
           XMM1 = mm_shuffle_pd XMM0 XMM0 (mm_SHUFFLE2 1 1);
           XMM0 = mm_add_pd XMM0 XMM1
       in Inr (m_lo XMM0))"

text \<open>The two norms have a loop of their own, which loads each pair of elements once.\<close>

definition vec2norm_block :: "double list \<Rightarrow> nat \<Rightarrow> m128d \<times> m128d \<Rightarrow> (m128d \<times> m128d) result" where
  "vec2norm_block x i = (\<lambda>(XMM0, XMM1).
     plfit_check (mm_load_pd x i) (\<lambda>XMM2.
     plfit_check (mm_load_pd x (i + 2)) (\<lambda>XMM3.
     let XMM4 = XMM2;
         XMM5 = XMM3;
         XMM2 = mm_mul_pd XMM2 XMM4;
         XMM3 = mm_mul_pd XMM3 XMM5
     in Inr (mm_add_pd XMM0 XMM2, mm_add_pd XMM1 XMM3))))"

definition sse_vec2norm :: "clib \<Rightarrow> double list \<Rightarrow> nat \<Rightarrow> double result" where
  "sse_vec2norm L x n =
     plfit_check (loop_res (vec2norm_block x) (blocks 4 n) (mm_setzero_pd, mm_setzero_pd)) (\<lambda>(XMM0, XMM1).
       let XMM0 = mm_add_pd XMM0 XMM1;
           XMM1 = mm_shuffle_pd XMM0 XMM0 (mm_SHUFFLE2 1 1);
           XMM0 = mm_add_pd XMM0 XMM1;
           XMM0 = mm_sqrt_pd L XMM0
       in Inr (m_lo XMM0))"

definition sse_vec2norminv :: "clib \<Rightarrow> double list \<Rightarrow> nat \<Rightarrow> double result" where
  "sse_vec2norminv L x n =
     plfit_check (loop_res (vec2norm_block x) (blocks 4 n) (mm_setzero_pd, mm_setzero_pd)) (\<lambda>(XMM0, XMM1).
       let XMM2 = mm_set1_pd 1;
           XMM0 = mm_add_pd XMM0 XMM1;
           XMM1 = mm_shuffle_pd XMM0 XMM0 (mm_SHUFFLE2 1 1);
           XMM0 = mm_add_pd XMM0 XMM1;
           XMM0 = mm_sqrt_pd L XMM0;
           XMM2 = mm_div_pd XMM2 XMM0
       in Inr (m_lo XMM2))"

subsection \<open>The number of variables\<close>

text \<open>\<open>round_out_variables\<close>: the sum can overflow; the division of C truncates.\<close>

definition round_out_variables :: "int \<Rightarrow> int result" where
  "round_out_variables n = (if 2 ^ 31 \<le> n + 7 then Inl Undefined else Inr ((n + 7) sdiv 8 * 8))"

definition sse_lbfgs_malloc :: "clib \<Rightarrow> int \<Rightarrow> double list option result" where
  "sse_lbfgs_malloc L n =
     (if n < 0 then Inr None
      else plfit_check (round_out_variables n) (\<lambda>n. Inr (sse_vecalloc L (nat (int sizeof_double * n)))))"

text \<open>
  The first statements of \<open>lbfgs\<close>: the rounded number of variables, or the code it returns at
  once. \<open>address\<close> is the address of the array of variables.
\<close>

definition sse_lbfgs_arguments :: "int \<Rightarrow> nat \<Rightarrow> (lbfgs_code + int) result" where
  "sse_lbfgs_arguments n address =
     plfit_check (round_out_variables n) (\<lambda>n. Inr (
       if n \<le> 0 then Inl LBFGSERR_INVALID_N
       else if n smod 8 \<noteq> 0 then Inl LBFGSERR_INVALID_N_SSE
       else if address mod 16 \<noteq> 0 then Inl LBFGSERR_INVALID_X_SSE
       else Inr n))"


subsection \<open>What a loop over blocks does\<close>

text \<open>
  The contract of a loop whose body treats the block of \<open>k\<close> elements at \<open>i\<close> of an array of \<open>N\<close>
  elements: inside the array it changes the element at \<open>j\<close> from \<open>a\<close> to \<open>f j a\<close>, and a block
  that does not fit is an access outside.
\<close>

definition on_range :: "nat \<Rightarrow> nat \<Rightarrow> (nat \<Rightarrow> 'a \<Rightarrow> 'a) \<Rightarrow> 'a list \<Rightarrow> 'a list" where
  "on_range lo hi f y = map (\<lambda>j. if lo \<le> j \<and> j < hi then f j (y ! j) else y ! j) [0..<length y]"

lemma length_on_range [simp]: "length (on_range lo hi f y) = length y"
  by (simp add: on_range_def)

lemma nth_on_range [simp]:
  "j < length y \<Longrightarrow> on_range lo hi f y ! j = (if lo \<le> j \<and> j < hi then f j (y ! j) else y ! j)"
  by (simp add: on_range_def)

lemma on_range_append: "lo \<le> mid \<Longrightarrow> mid \<le> hi \<Longrightarrow> on_range mid hi f (on_range lo mid f y) = on_range lo hi f y"
  by (rule nth_equalityI) auto

lemma on_range_empty [simp]: "on_range lo lo f y = y"
  by (rule nth_equalityI) auto

lemma blocks_exact: "0 < k \<Longrightarrow> blocks k (k * p) = map ((*) k) [0..<p]"
proof -
  assume "0 < k"
  then have "(k * p + k - 1) div k = p" by (simp add: div_nat_eqI)
  then show ?thesis by (simp add: blocks_def)
qed

locale block_op =
  fixes k N :: nat and body :: "nat \<Rightarrow> double list \<Rightarrow> double list result" and f :: "nat \<Rightarrow> double \<Rightarrow> double"
  assumes k_pos: "0 < k"
    and body_in: "length y = N \<Longrightarrow> i + k \<le> N \<Longrightarrow> body i y = Inr (on_range i (i + k) f y)"
    and body_out: "length y = N \<Longrightarrow> N < i + k \<Longrightarrow> body i y = Inl Undefined"
begin

lemma blocks_in: "length y = N \<Longrightarrow> k * p \<le> N \<Longrightarrow> loop_res body (map ((*) k) [0..<p]) y = Inr (on_range 0 (k * p) f y)"
proof (induction p)
  case (Suc p)
  then have "loop_res body (map ((*) k) [0..<p]) y = Inr (on_range 0 (k * p) f y)" by simp
  moreover have "body (k * p) (on_range 0 (k * p) f y) = Inr (on_range 0 (k * p + k) f y)"
    using Suc.prems by (simp add: body_in on_range_append)
  ultimately show ?case by (simp add: loop_res_append add.commute)
qed simp

lemma loop_in:
  assumes "length y = N" "k dvd n" "n \<le> N"
  shows "loop_res body (blocks k n) y = Inr (on_range 0 n f y)"
proof -
  obtain p where "n = k * p" using assms(2) by (rule dvdE)
  with assms blocks_in [of y p] show ?thesis by (simp add: blocks_exact k_pos)
qed

text \<open>If \<open>n\<close> is the length of the array, it has to be a multiple of \<open>k\<close>.\<close>

lemma loop_out:
  assumes "length y = N" "\<not> k dvd N"
  shows "loop_res body (blocks k N) y = Inl Undefined"
proof -
  let ?p = "N div k"
  have p: "N = k * ?p + N mod k" by simp
  have m: "0 < N mod k" "N mod k < k" using assms(2) k_pos by (auto simp: dvd_eq_mod_eq_0)
  have "(N + k - 1) div k = Suc ?p"
  proof (rule div_nat_eqI)
    show "k * Suc ?p \<le> N + k - 1" using m p k_pos unfolding mult_Suc_right by linarith
    show "N + k - 1 < k * Suc (Suc ?p)" using m p k_pos unfolding mult_Suc_right by linarith
  qed
  then have b: "blocks k N = map ((*) k) [0..<?p] @ [k * ?p]" by (simp add: blocks_def)
  have "N < k * ?p + k" using m p by linarith
  then show ?thesis
    using assms(1) blocks_in [of y ?p] by (simp add: b loop_res_append body_out times_div_less_eq_dividend)
qed

end

text \<open>A range of known length, element by element.\<close>

lemma on_range_Suc: "i \<le> j \<Longrightarrow> j < length y \<Longrightarrow> on_range i (Suc j) f y = (on_range i j f y)[j := f j (y ! j)]"
  by (rule nth_equalityI) (auto simp: nth_list_update)

text \<open>The seven loops over elements meet it.\<close>

lemmas block_simps = mm_load_pd_if mm_store_pd_if mm_defs numeral_eq_Suc Let_def on_range_Suc

interpretation set_op: block_op 8 N "vecset_block (mm_set1_pd c)" "\<lambda>_ _. c"
  by unfold_locales (auto simp: vecset_block_def block_simps)

interpretation cpy_op: block_op 8 "length x" "veccpy_block x" "\<lambda>j _. x ! j"
  by unfold_locales (auto simp: veccpy_block_def block_simps)

interpretation ncpy_op: block_op 8 "length x" "vecncpy_block x" "\<lambda>j _. 0 - x ! j"
  by unfold_locales (auto simp: vecncpy_block_def block_simps)

interpretation add_op: block_op 4 "length x" "vecadd_block x (mm_set1_pd c)" "\<lambda>j a. a + x ! j * c"
  by unfold_locales (auto simp: vecadd_block_def block_simps)

interpretation diff_op: block_op 8 "min (length x) (length y)" "vecdiff_block x y" "\<lambda>j _. x ! j - y ! j"
  by unfold_locales (auto simp: vecdiff_block_def block_simps)

interpretation scale_op: block_op 4 N "vecscale_block (mm_set1_pd c)" "\<lambda>_ a. a * c"
  by unfold_locales (auto simp: vecscale_block_def block_simps)

interpretation mul_op: block_op 8 "length x" "vecmul_block x" "\<lambda>j a. a * x ! j"
  by unfold_locales (auto simp: vecmul_block_def block_simps)

lemma dmul_commute: "x * y = y * (x :: double)"
  by (cases "sign_bit x"; cases "sign_bit y") (auto simp: times_double_def dmul_def mult.commute)

text \<open>The whole array: the operations of \<open>Vec\<close>, up to the sign of a negated zero.\<close>

lemma on_range_whole:
  assumes "length y = n" "length r = n" "\<And>j. j < n \<Longrightarrow> f j (y ! j) = r ! j"
  shows "on_range 0 n f y = r"
  using assms by (intro nth_equalityI) auto

lemma sse_elements:
  assumes "8 dvd n" "length x = n" "length y = n" "length z = n"
  shows "sse_vecset x c n = Inr (vecset x c)"
    and "sse_veccpy y x n = Inr (veccpy y x)"
    and "sse_vecncpy y x n = Inr (map ((-) 0) x)"
    and "sse_vecadd y x c n = Inr (vecadd y x c)"
    and "sse_vecdiff z x y n = Inr (vecdiff x y)"
    and "sse_vecscale y c n = Inr (vecscale y c)"
    and "sse_vecmul y x n = Inr (vecmul y x)"
proof -
  have four: "4 dvd n" using assms(1) dvd_trans [of "4::nat" 8 n] by simp
  note w = on_range_whole set_op.loop_in cpy_op.loop_in ncpy_op.loop_in add_op.loop_in diff_op.loop_in
    scale_op.loop_in mul_op.loop_in
  show "sse_vecset x c n = Inr (vecset x c)"
    using assms by (simp add: sse_vecset_def vecset_def w)
  show "sse_veccpy y x n = Inr (veccpy y x)"
    using assms by (simp add: sse_veccpy_def veccpy_def w)
  show "sse_vecncpy y x n = Inr (map ((-) 0) x)"
    using assms by (simp add: sse_vecncpy_def w)
  show "sse_vecadd y x c n = Inr (vecadd y x c)"
    using assms four by (simp add: sse_vecadd_def vecadd_def w dmul_commute)
  show "sse_vecdiff z x y n = Inr (vecdiff x y)"
    using assms by (simp add: sse_vecdiff_def vecdiff_def w)
  show "sse_vecscale y c n = Inr (vecscale y c)"
    using assms four by (simp add: sse_vecscale_def vecscale_def w)
  show "sse_vecmul y x n = Inr (vecmul y x)"
    using assms by (simp add: sse_vecmul_def vecmul_def w)
qed

text \<open>Without the rounding the operations on blocks of eight access memory outside the arrays.\<close>

lemma sse_outside:
  assumes "\<not> 8 dvd n" "length x = n" "length y = n" "length z = n"
  shows "sse_vecset x c n = Inl Undefined" "sse_veccpy y x n = Inl Undefined"
    "sse_vecncpy y x n = Inl Undefined" "sse_vecdiff z x y n = Inl Undefined"
    "sse_vecmul y x n = Inl Undefined"
  using assms set_op.loop_out [of x n c] cpy_op.loop_out [of y x] ncpy_op.loop_out [of y x]
    diff_op.loop_out [of z x y] mul_op.loop_out [of y x]
  by (simp_all add: sse_vecset_def sse_veccpy_def sse_vecncpy_def sse_vecdiff_def sse_vecmul_def)


subsection \<open>The sums, lane by lane\<close>

definition lane :: "double list \<Rightarrow> double list \<Rightarrow> nat \<Rightarrow> nat \<Rightarrow> double" where
  "lane x y p r = foldl (\<lambda>s j. s + x ! (4 * j + r) * y ! (4 * j + r)) 0 [0..<p]"

definition lanes_sum :: "double list \<Rightarrow> double list \<Rightarrow> nat \<Rightarrow> double" where
  "lanes_sum x y p = (lane x y p 0 + lane x y p 2) + (lane x y p 1 + lane x y p 3)"

lemma vecdot_loop:
  "4 * p \<le> length x \<Longrightarrow> 4 * p \<le> length y \<Longrightarrow>
   loop_res (vecdot_block x y) (map ((*) 4) [0..<p]) (mm_setzero_pd, mm_setzero_pd) =
     Inr (M128d (lane x y p 0) (lane x y p 1), M128d (lane x y p 2) (lane x y p 3))"
proof (induction p)
  case (Suc p)
  then show ?case
    by (simp add: loop_res_append vecdot_block_def block_simps lane_def)
qed (simp add: lane_def mm_defs)

lemma vec2norm_block_dot: "vec2norm_block x = vecdot_block x x"
  by (auto simp: fun_eq_iff vec2norm_block_def vecdot_block_def mm_load_pd_if Let_def)

lemma mm_shuffle_upper [simp]: "mm_shuffle_pd r r (mm_SHUFFLE2 1 1) = M128d (m_hi r) (m_hi r)"
  by (simp add: mm_shuffle_pd_def mm_SHUFFLE2_def)

lemma sse_sums:
  assumes "4 * p \<le> length x" "4 * p \<le> length y"
  shows "sse_vecdot x y (4 * p) = Inr (lanes_sum x y p)"
    and "sse_vec2norm L x (4 * p) = Inr (c_sqrt L (lanes_sum x x p))"
    and "sse_vec2norminv L x (4 * p) = Inr (1 / c_sqrt L (lanes_sum x x p))"
  using assms vecdot_loop [of p x y] vecdot_loop [of p x x]
  by (simp_all add: sse_vecdot_def sse_vec2norm_def sse_vec2norminv_def vec2norm_block_dot blocks_exact
      lanes_sum_def mm_defs Let_def)

subsection \<open>Arrays with padding\<close>

text \<open>
  The arrays of the optimiser: \<open>n\<close> variables, then zeros (of either sign) up to a multiple of
  eight.
\<close>

definition is_zero :: "double \<Rightarrow> bool" where
  "is_zero z \<longleftrightarrow> z = 0 \<or> z = NegZero"

definition padded :: "double list \<Rightarrow> double list \<Rightarrow> bool" where
  "padded x xs \<longleftrightarrow>
     length x = 8 * ((length xs + 7) div 8) \<and> take (length xs) x = xs \<and>
     (\<forall>z \<in> set (drop (length xs) x). is_zero z)"

lemma padded_length: "padded x xs \<Longrightarrow> length x = 8 * ((length xs + 7) div 8)"
  by (simp add: padded_def)

lemma padded_append:
  "padded x xs \<longleftrightarrow> (\<exists>zs. x = xs @ zs \<and> length xs + length zs = 8 * ((length xs + 7) div 8) \<and>
     (\<forall>z \<in> set zs. is_zero z))" (is "_ \<longleftrightarrow> ?r")
proof
  assume p: "padded x xs"
  have le: "length xs \<le> 8 * ((length xs + 7) div 8)" by simp
  have "x = xs @ drop (length xs) x" using p append_take_drop_id [of "length xs" x] by (simp add: padded_def)
  then show ?r using p le by (intro exI [of _ "drop (length xs) x"]) (simp add: padded_def)
next
  assume ?r
  then show "padded x xs" by (auto simp: padded_def)
qed

lemma is_zero_simps [simp]: "is_zero 0" "is_zero NegZero" "\<not> is_zero NaN" "\<not> is_zero PInf" "\<not> is_zero NInf"
  "is_zero (Fin q) \<longleftrightarrow> q = 0"
  by (simp_all add: is_zero_def zero_double_def)

lemma is_zero_iff: "is_zero z \<longleftrightarrow> isfinite z \<and> val z = 0"
  by (cases z) (auto simp: is_zero_def zero_double_def)

lemma is_zero_arith [simp]:
  "is_zero z \<Longrightarrow> is_zero w \<Longrightarrow> is_zero (z + w)"
  "is_zero z \<Longrightarrow> is_zero w \<Longrightarrow> is_zero (z - w)"
  "is_zero z \<Longrightarrow> isfinite c \<Longrightarrow> is_zero (z * c)"
proof -
  have t: "isfinite (to_double s 0)" "val (to_double s 0) = 0" for s by (simp_all add: to_double_0)
  show "is_zero z \<Longrightarrow> is_zero w \<Longrightarrow> is_zero (z + w)"
    by (auto simp: is_zero_iff dadd_finite t)
  show "is_zero z \<Longrightarrow> is_zero w \<Longrightarrow> is_zero (z - w)"
    by (auto simp: is_zero_iff dsub_finite t)
  show "is_zero z \<Longrightarrow> isfinite c \<Longrightarrow> is_zero (z * c)"
    by (auto simp: is_zero_iff dmul_finite t)
qed

lemma padded_map:
  assumes "padded x xs" "\<And>z. is_zero z \<Longrightarrow> is_zero (f z)"
  shows "padded (map f x) (map f xs)"
proof -
  obtain zs where "x = xs @ zs" "length xs + length zs = 8 * ((length xs + 7) div 8)" "\<forall>z \<in> set zs. is_zero z"
    using assms(1) unfolding padded_append by blast
  then show ?thesis
    using assms(2) unfolding padded_append by (intro exI [of _ "map f zs"]) simp
qed

lemma padded_map2:
  assumes "padded x xs" "padded y ys" "length xs = length ys"
    and "\<And>z w. is_zero z \<Longrightarrow> is_zero w \<Longrightarrow> is_zero (f z w)"
  shows "padded (map2 f x y) (map2 f xs ys)"
proof -
  obtain us vs where u: "x = xs @ us" "length xs + length us = 8 * ((length xs + 7) div 8)"
      "\<forall>z \<in> set us. is_zero z"
    and v: "y = ys @ vs" "length ys + length vs = 8 * ((length ys + 7) div 8)" "\<forall>z \<in> set vs. is_zero z"
    using assms(1,2) unfolding padded_append by blast
  have "is_zero (f a b)" if "(a, b) \<in> set (zip us vs)" for a b
    using assms(4) u(3) v(3) set_zip_leftD [OF that] set_zip_rightD [OF that] by blast
  then show ?thesis
    using u v assms(3) unfolding padded_append by (intro exI [of _ "map2 f us vs"]) auto
qed


text \<open>
  Padding stays padding, and the variables get the values the operations of \<open>Vec\<close> give them. A
  factor that is not finite would turn the padding into NaN.
\<close>

lemma sse_padded:
  assumes "padded x xs" "padded y ys" "padded z zs" "length ys = length xs" "length zs = length xs"
    and "isfinite c" "n = length x"
  shows "\<exists>r. sse_veccpy y x n = Inr r \<and> padded r (veccpy ys xs)"
    and "\<exists>r. sse_vecncpy y x n = Inr r \<and> padded r (map ((-) 0) xs)"
    and "\<exists>r. sse_vecadd y x c n = Inr r \<and> padded r (vecadd ys xs c)"
    and "\<exists>r. sse_vecdiff z x y n = Inr r \<and> padded r (vecdiff xs ys)"
    and "\<exists>r. sse_vecscale y c n = Inr r \<and> padded r (vecscale ys c)"
    and "\<exists>r. sse_vecmul y x n = Inr r \<and> padded r (vecmul ys xs)"
proof -
  have n: "8 dvd n" "length x = n" "length y = n" "length z = n"
    using assms by (simp_all add: padded_length)
  have prod: "is_zero (v * w)" if "is_zero v" "is_zero w" for v w
    using that is_zero_iff is_zero_arith(3) by blast
  have acc: "is_zero (v + c * w)" if "is_zero v" "is_zero w" for v w
    using that assms(6) by (simp add: dmul_commute [of c])
  note e = sse_elements [OF n]
  show "\<exists>r. sse_veccpy y x n = Inr r \<and> padded r (veccpy ys xs)"
    using assms(1) by (simp add: e veccpy_def)
  show "\<exists>r. sse_vecncpy y x n = Inr r \<and> padded r (map ((-) 0) xs)"
    using padded_map [OF assms(1), of "(-) 0"] by (simp add: e)
  show "\<exists>r. sse_vecadd y x c n = Inr r \<and> padded r (vecadd ys xs c)"
    using padded_map2 [OF assms(2,1,4) acc] by (simp add: e vecadd_def)
  show "\<exists>r. sse_vecdiff z x y n = Inr r \<and> padded r (vecdiff xs ys)"
    using padded_map2 [OF assms(1,2), of "(-)"] assms(4) by (simp add: e vecdiff_def)
  show "\<exists>r. sse_vecscale y c n = Inr r \<and> padded r (vecscale ys c)"
    using padded_map [OF assms(2), of "\<lambda>a. a * c"] assms(6) by (simp add: e vecscale_def)
  show "\<exists>r. sse_vecmul y x n = Inr r \<and> padded r (vecmul ys xs)"
    using padded_map2 [OF assms(2,1,4) prod] by (simp add: e vecmul_def)
qed

lemma zero_minus: "is_double a \<Longrightarrow> 0 - a = (if is_zero a then 0 else - a)"
proof (cases a)
  case (Fin q)
  assume "is_double a"
  with Fin have "representable (- q)" "\<bar>- q\<bar> < 2 ^ 1024" by (simp_all add: is_double_Fin)
  then show ?thesis using Fin by (simp add: zero_double_def dbl to_double_exact')
qed (simp_all add: minus_double_def uminus_double_def dadd_def zero_double_def to_double_0)

text \<open>Adding zeros to a sum that starts from \<open>0.0\<close> changes nothing.\<close>

lemma is_double_add: "is_double (0 + t)"
  by (cases t) (auto simp: plus_double_def dadd_def)

lemma zero_plus_not_NegZero: "0 + t \<noteq> NegZero"
  by (auto simp: plus_double_def dadd_def to_double_def Let_def zero_double_def)

lemma add_is_zero: "is_double u \<Longrightarrow> u \<noteq> NegZero \<Longrightarrow> is_zero z \<Longrightarrow> u + z = u"
proof (cases u)
  case (Fin q)
  assume "is_double u" "is_zero z"
  with Fin show ?thesis
    by (simp add: is_zero_iff dadd_finite is_double_Fin to_double_exact')
qed (auto simp: plus_double_def dadd_def is_zero_iff)

lemma lanes_sum_single:
  assumes "padded x [a]" "padded y [b]"
  shows "lanes_sum x y 2 = vecdot [a] [b]"
proof -
  have z: "is_zero (x ! j)" "is_zero (y ! j)" if "0 < j" "j < 8" for j
    using assms that nth_mem [of "j - 1" "tl x"] nth_mem [of "j - 1" "tl y"]
    by (auto simp: padded_def drop_Suc nth_tl)
  have a: "x ! 0 = a" "y ! 0 = b" using assms by (cases x; cases y; simp add: padded_def)+
  have p: "is_zero (x ! j * y ! j)" if "0 < j" "j < 8" for j
    using z [OF that] is_zero_iff [of "y ! j"] by simp
  have l: "is_zero (lane x y 2 r)" if "0 < r" "r < 4" for r
    using that p [of r] p [of "4 + r"] by (simp add: lane_def upt_rec)
  have "lane x y 2 0 = 0 + a * b"
    using p [of 4] by (simp add: lane_def upt_rec a add_is_zero is_double_add zero_plus_not_NegZero)
  then show ?thesis
    using l [of 1] l [of 2] l [of 3]
    by (simp add: lanes_sum_def vecdot_def add_is_zero is_double_add zero_plus_not_NegZero)
qed


subsection \<open>The signs\<close>

lemma sse_fsigndiff_iff: "sse_fsigndiff x y = (if sign_bit x \<noteq> sign_bit y then 2 else 0)"
  by (cases "sign_bit x"; cases "sign_bit y")
     (simp_all add: sse_fsigndiff_def mm_movemask_pd_def mm_set_pd_def)

lemma sign_quotient:
  assumes "isfinite y" "val y \<noteq> 0"
  shows "y / \<bar>y\<bar> = Fin (if sign_bit y then - 1 else 1)"
proof -
  obtain q where q: "y = Fin q" "q \<noteq> 0" using assms by (cases y) auto
  have "representable (- 1)" using representable_minus representable_1 by blast
  then show ?thesis
    using q by (auto simp: dbl abs_if field_simps to_double_exact lit_def)
qed

lemma mult_sign_less_zero:
  assumes "is_double x" "x \<noteq> NaN"
  shows "x * Fin (if s then - 1 else 1) < 0 \<longleftrightarrow> \<not> is_zero x \<and> sign_bit x \<noteq> s"
proof (cases x)
  case (Fin q)
  with assms have r: "representable q" "\<bar>q\<bar> < 2 ^ 1024" "representable (- q)" by (simp_all add: is_double_Fin)
  show ?thesis
  proof (cases "q = 0")
    case False
    then show ?thesis using Fin r by (auto simp: dbl to_double_exact)
  qed (use Fin in \<open>auto simp: dbl to_double_0 dless_iff\<close>)
qed (use assms in \<open>auto simp: times_double_def dmul_def dinf_def to_double_0 dless_iff\<close>)


subsection \<open>Properties\<close>

text \<open>
  C19. The SSE operations agree with the portable ones: on arrays of any number of variables that are
  padded with zeros up to a multiple of eight, and for a finite factor, the operations on elements
  stay inside the arrays, give every variable the value the portable operation gives it (the
  negation of a zero is \<open>0.0\<close> instead of a zero of the other sign) and keep the padding zero; for
  a single variable, which is what the discrete fit optimises, the scalar product and the two
  norms are equal as well.
\<close>

theorem sse_agrees_with_ansi:
  assumes "padded x xs" "padded y ys" "padded z zs" "length ys = length xs" "length zs = length xs"
    and "isfinite c" "n = length x" "list_all is_double xs"
  shows "(\<exists>r. sse_veccpy y x n = Inr r \<and> padded r (veccpy ys xs)) \<and>
    (\<exists>r. sse_vecncpy y x n = Inr r \<and> padded r (map (\<lambda>a. if is_zero a then 0 else - a) xs)) \<and>
    (\<exists>r. sse_vecadd y x c n = Inr r \<and> padded r (vecadd ys xs c)) \<and>
    (\<exists>r. sse_vecdiff z x y n = Inr r \<and> padded r (vecdiff xs ys)) \<and>
    (\<exists>r. sse_vecscale y c n = Inr r \<and> padded r (vecscale ys c)) \<and>
    (\<exists>r. sse_vecmul y x n = Inr r \<and> padded r (vecmul ys xs)) \<and>
    (length xs = 1 \<longrightarrow>
       sse_vecdot x y n = Inr (vecdot xs ys) \<and> sse_vec2norm L x n = Inr (vec2norm L xs) \<and>
       sse_vec2norminv L x n = Inr (vec2norminv L xs))"
proof -
  note p = sse_padded [OF assms(1-7)]
  have "map ((-) 0) xs = map (\<lambda>a. if is_zero a then 0 else - a) xs"
    using assms(8) by (auto simp: zero_minus list_all_iff)
  with p(2) have "\<exists>r. sse_vecncpy y x n = Inr r \<and> padded r (map (\<lambda>a. if is_zero a then 0 else - a) xs)"
    by (simp only:)
  moreover have "sse_vecdot x y n = Inr (vecdot xs ys) \<and> sse_vec2norm L x n = Inr (vec2norm L xs) \<and>
      sse_vec2norminv L x n = Inr (vec2norminv L xs)" if one: "length xs = 1"
  proof -
    obtain a b where ab: "xs = [a]" "ys = [b]"
      using one assms(4) by (auto simp: length_Suc_conv)
    have "length x = 8" "length y = 8" using assms(1,2) ab by (simp_all add: padded_length)
    then show ?thesis
      using sse_sums [of 2 x y] sse_sums(2,3) [of 2 x x L] lanes_sum_single [of x a y b] lanes_sum_single [of x a x a]
        assms(1,2,7) ab
      by (simp add: vec2norm_def vec2norminv_def)
  qed
  ultimately show ?thesis using p(1,3-6) by blast
qed

theorem sse_agrees_with_ansi_witness:
  "(\<exists>r. sse_vecadd [1, 0, 0, 0, 0, 0, 0, NegZero] [1, 0, 0, 0, 0, 0, 0, 0] 1 8 = Inr r \<and> padded r (vecadd [1] [1] 1)) \<and>
   sse_vecdot [1, 0, 0, 0, 0, 0, 0, 0] [1, 0, 0, 0, 0, 0, 0, NegZero] 8 = Inr (vecdot [1] [1])"
proof -
  let ?z = "[1, 0, 0, 0, 0, 0, 0, 0] :: double list" and ?w = "[1, 0, 0, 0, 0, 0, 0, NegZero]"
  have "padded ?z [1]" "padded ?w [1]" "list_all is_double [1]" by (simp_all add: padded_def)
  moreover have "8 = length ?z" "length [1 :: double] = 1" "length [1 :: double] = length [1 :: double]" "isfinite 1"
    by simp_all
  ultimately show ?thesis using sse_agrees_with_ansi [of ?z "[1]" ?w "[1]" ?z "[1]" 1 8] by blast
qed

text \<open>
  C20. The optimiser's arrays fit the blocks: for every positive number of variables whose rounding
  does not overflow, the array from \<open>lbfgs_malloc\<close>, when its memory is granted, holds zeros for
  the variables and zeros up to the next multiple of eight, \<open>lbfgs\<close> computes that same number of
  elements, and of its checks on the number of variables and the alignment the only one it can fail
  is the one for an aligned array, so that \<open>LBFGSERR_INVALID_N_SSE\<close> is never returned. Without
  the rounding, copying an array whose length is not a multiple of eight leaves it.
\<close>

theorem sse_rounding_fits:
  assumes "0 < n" "n + 7 < 2 ^ 31" "\<And>b. c_alloc L b"
  shows "(\<exists>x m. sse_lbfgs_malloc L n = Inr (Some x) \<and> padded x (replicate (nat n) 0) \<and>
      m = int (length x) \<and> n \<le> m \<and> m < n + 8 \<and>
      sse_lbfgs_arguments n address =
        Inr (if address mod 16 = 0 then Inr m else Inl LBFGSERR_INVALID_X_SSE)) \<and>
    (\<forall>x y. length x = nat n \<and> length y = nat n \<and> \<not> 8 dvd nat n \<longrightarrow> sse_veccpy y x (nat n) = Inl Undefined)"
proof -
  define m where "m = (n + 7) div 8 * 8"
  have sdiv: "(n + 7) sdiv 8 * 8 = m" using assms(1) by (simp add: m_def signed_divide_int_def)
  have m: "n \<le> m" "m < n + 8" "m smod 8 = 0" "0 < m"
    using assms(1) by (simp_all add: m_def signed_modulo_int_def)
  have len: "nat m = 8 * ((nat n + 7) div 8)"
    using assms(1) by (simp add: m_def nat_mult_distrib nat_div_distrib nat_add_distrib)
  have r: "round_out_variables n = Inr m" using assms(2) by (simp add: round_out_variables_def sdiv)
  have "nat (int sizeof_double * m) div sizeof_double = nat m"
    by (simp add: sizeof_double_def nat_mult_distrib)
  then have alloc: "sse_lbfgs_malloc L n = Inr (Some (replicate (nat m) 0))"
    using assms(1,3) by (simp add: sse_lbfgs_malloc_def r sse_vecalloc_def)
  have "padded (replicate (nat m) 0) (replicate (nat n) 0)"
    using m(1) len by (auto simp: padded_def min_def dest!: in_set_dropD)
  moreover have "sse_lbfgs_arguments n address =
      Inr (if address mod 16 = 0 then Inr m else Inl LBFGSERR_INVALID_X_SSE)"
    using m by (simp add: sse_lbfgs_arguments_def r)
  ultimately show ?thesis using alloc m sse_outside(2) by auto
qed

theorem sse_rounding_fits_witness:
  "\<exists>x m. sse_lbfgs_malloc (plain_clib\<lparr>c_alloc := \<lambda>_. True\<rparr>) 1 = Inr (Some x) \<and> padded x (replicate (nat 1) 0) \<and>
     m = int (length x) \<and> 1 \<le> m \<and> m < 1 + 8 \<and>
     sse_lbfgs_arguments 1 32 = Inr (if 32 mod 16 = (0 :: nat) then Inr m else Inl LBFGSERR_INVALID_X_SSE)"
  using sse_rounding_fits [of 1 "plain_clib\<lparr>c_alloc := \<lambda>_. True\<rparr>" 32] by simp

text \<open>
  C21. The two tests for opposite signs: the SSE one compares the sign bits. For a finite, non-zero
  second derivative and a first derivative that is not NaN it agrees with the portable one except
  when the first is zero, where the portable test says no and the SSE test still compares the sign
  of the zero.
\<close>

theorem sse_fsigndiff_agrees:
  assumes "is_double x" "x \<noteq> NaN" "isfinite y" "val y \<noteq> 0"
  shows "sse_fsigndiff x y = (if sign_bit x \<noteq> sign_bit y then 2 else 0) \<and>
    (fsigndiff x y \<longleftrightarrow> \<not> is_zero x \<and> sse_fsigndiff x y \<noteq> 0)"
  using assms by (simp add: sse_fsigndiff_iff fsigndiff_def sign_quotient mult_sign_less_zero)

theorem sse_fsigndiff_agrees_witness:
  "sse_fsigndiff 0 (Fin (- 1)) = 2 \<and> \<not> fsigndiff 0 (Fin (- 1))"
  using sse_fsigndiff_agrees [of 0 "Fin (- 1)"] by simp

end
