(* ===== verification/Sse_Float.thy ===== *)
theory Sse_Float
  imports Sse
begin

text \<open>
  \<open>src/arithmetic_sse_float.h\<close>: the vector arithmetic of a build with \<open>USE_SSE\<close> and
  \<open>LBFGS_FLOAT\<close> 32, where the variables of the optimiser are of type \<open>float\<close>. The registers hold
  four floats and the blocks have sixteen elements (eight in \<open>vecadd\<close>, \<open>vecscale\<close> and the sums),
  but \<open>src/lbfgs.c\<close> rounds the number of variables up to a multiple of eight only. The theorems:
  what the operations compute on arrays that fit the blocks; which arrays of the optimiser are
  overrun; that \<open>vec2norminv\<close> skips every other eight elements; the two orders in which the lanes
  are added; the result of the Newton step on the approximate inverse square root.
\<close>

subsection \<open>The type \<open>float\<close>\<close>

text \<open>
  The format with 24 bits of precision. It has the classes of values of \<open>double\<close> on a coarser
  grid with a smaller range, so its values are represented as those of \<open>long double\<close> are; the
  operations round to that grid.
\<close>

type_synonym single = double

definition to_single :: "bool \<Rightarrow> rat \<Rightarrow> single" where
  "to_single neg q =
     (let r = round_fmt 24 (-149) q in
      if r = 0 then (if neg then NegZero else Fin 0)
      else if 2 ^ 128 \<le> r then PInf
      else if r \<le> - (2 ^ 128) then NInf
      else Fin r)"

definition sadd :: "single \<Rightarrow> single \<Rightarrow> single" where
  "sadd x y =
     (if isfinite x \<and> isfinite y
      then to_single (x = NegZero \<and> y = NegZero) (val x + val y) else dadd x y)"

definition ssub :: "single \<Rightarrow> single \<Rightarrow> single" where
  "ssub x y = sadd x (dneg y)"

definition smul :: "single \<Rightarrow> single \<Rightarrow> single" where
  "smul x y =
     (if isfinite x \<and> isfinite y
      then to_single (sign_bit x \<noteq> sign_bit y) (val x * val y) else dmul x y)"

definition sizeof_float :: nat where "sizeof_float = 4"

subsection \<open>Registers\<close>

text \<open>
  The type \<open>__m128\<close>, lanes from the lowest, and the intrinsics on it. Those that end in \<open>ss\<close>
  compute the lowest lane and keep the others of their first operand. \<open>rsqrtss\<close> is an
  approximation whose bits are left to the processor: the parameter \<open>rs\<close>.
\<close>

datatype m128 = M128 (m0: single) (m1: single) (m2: single) (m3: single)

definition mm_set_ps1 :: "single \<Rightarrow> m128" where "mm_set_ps1 c = M128 c c c c"
definition mm_setzero_ps :: m128 where "mm_setzero_ps = M128 0 0 0 0"
definition mm_set_ss :: "single \<Rightarrow> m128" where "mm_set_ss c = M128 c 0 0 0"

fun mm_map2_ps :: "(single \<Rightarrow> single \<Rightarrow> single) \<Rightarrow> m128 \<Rightarrow> m128 \<Rightarrow> m128" where
  "mm_map2_ps f (M128 a b c d) (M128 a' b' c' d') = M128 (f a a') (f b b') (f c c') (f d d')"

definition mm_add_ps :: "m128 \<Rightarrow> m128 \<Rightarrow> m128" where "mm_add_ps = mm_map2_ps sadd"
definition mm_sub_ps :: "m128 \<Rightarrow> m128 \<Rightarrow> m128" where "mm_sub_ps = mm_map2_ps ssub"
definition mm_mul_ps :: "m128 \<Rightarrow> m128 \<Rightarrow> m128" where "mm_mul_ps = mm_map2_ps smul"

definition mm_xor_sign_ps :: "m128 \<Rightarrow> m128" where
  \<comment> \<open>\<open>_mm_xor_ps\<close> with the mask \<open>0x80000000\<close> in every lane: the sign bits are inverted\<close>
  "mm_xor_sign_ps r = M128 (dneg (m0 r)) (dneg (m1 r)) (dneg (m2 r)) (dneg (m3 r))"

definition mm_add_ss :: "m128 \<Rightarrow> m128 \<Rightarrow> m128" where
  "mm_add_ss r s = M128 (sadd (m0 r) (m0 s)) (m1 r) (m2 r) (m3 r)"

definition mm_mul_ss :: "m128 \<Rightarrow> m128 \<Rightarrow> m128" where
  "mm_mul_ss r s = M128 (smul (m0 r) (m0 s)) (m1 r) (m2 r) (m3 r)"

definition mm_rsqrt_ss :: "(single \<Rightarrow> single) \<Rightarrow> m128 \<Rightarrow> m128" where
  "mm_rsqrt_ss rs r = M128 (rs (m0 r)) (m1 r) (m2 r) (m3 r)"

definition mm_hadd_ps :: "m128 \<Rightarrow> m128 \<Rightarrow> m128" where
  "mm_hadd_ps r s = M128 (sadd (m0 r) (m1 r)) (sadd (m2 r) (m3 r)) (sadd (m0 s) (m1 s)) (sadd (m2 s) (m3 s))"

text \<open>A lane by its number, which is given in two bits.\<close>

definition mm_lane :: "m128 \<Rightarrow> int \<Rightarrow> single" where
  "mm_lane r k = [m0 r, m1 r, m2 r, m3 r] ! nat (k AND 3)"

definition mm_SHUFFLE :: "int \<Rightarrow> int \<Rightarrow> int \<Rightarrow> int \<Rightarrow> int" where
  "mm_SHUFFLE z y x w = push_bit 6 z OR push_bit 4 y OR push_bit 2 x OR w"

definition mm_shuffle_ps :: "m128 \<Rightarrow> m128 \<Rightarrow> int \<Rightarrow> m128" where
  "mm_shuffle_ps r s imm =
     M128 (mm_lane r imm) (mm_lane r (drop_bit 2 imm)) (mm_lane s (drop_bit 4 imm)) (mm_lane s (drop_bit 6 imm))"

definition mm_load_ps :: "single list \<Rightarrow> nat \<Rightarrow> m128 result" where
  "mm_load_ps x i = plfit_check (array_get x i) (\<lambda>a.
     plfit_check (array_get x (i + 1)) (\<lambda>b.
     plfit_check (array_get x (i + 2)) (\<lambda>c.
     plfit_check (array_get x (i + 3)) (\<lambda>d. Inr (M128 a b c d)))))"

definition mm_store_ps :: "single list \<Rightarrow> nat \<Rightarrow> m128 \<Rightarrow> single list result" where
  "mm_store_ps x i r = plfit_check (array_set x i (m0 r)) (\<lambda>x.
     plfit_check (array_set x (i + 1) (m1 r)) (\<lambda>x.
     plfit_check (array_set x (i + 2) (m2 r)) (\<lambda>x. array_set x (i + 3) (m3 r))))"

lemma mm_load_ps_if:
  "mm_load_ps x i =
     (if i + 3 < length x then Inr (M128 (x ! i) (x ! (i + 1)) (x ! (i + 2)) (x ! (i + 3))) else Inl Undefined)"
  by (auto simp: mm_load_ps_def array_get_def)

lemma mm_store_ps_if:
  "mm_store_ps x i r =
     (if i + 3 < length x then Inr (x[i := m0 r, i + 1 := m1 r, i + 2 := m2 r, i + 3 := m3 r]) else Inl Undefined)"
  by (auto simp: mm_store_ps_def array_set_def)

lemmas ps_defs = mm_set_ps1_def mm_setzero_ps_def mm_add_ps_def mm_sub_ps_def mm_mul_ps_def mm_xor_sign_ps_def

subsection \<open>Memory and signs\<close>

definition float_vecalloc :: "clib \<Rightarrow> nat \<Rightarrow> single list option" where
  "float_vecalloc L bytes = (if c_alloc L bytes then Some (replicate (bytes div sizeof_float) 0) else None)"

text \<open>\<open>lbfgs_malloc\<close> with \<open>lbfgsfloatval_t\<close> the type \<open>float\<close>.\<close>

definition float_lbfgs_malloc :: "clib \<Rightarrow> int \<Rightarrow> single list option result" where
  "float_lbfgs_malloc L n =
     (if n < 0 then Inr None
      else plfit_check (round_out_variables n) (\<lambda>n. Inr (float_vecalloc L (nat (int sizeof_float * n)))))"

text \<open>The sign bits of the operands, compared as bits of a \<open>uint32_t\<close>.\<close>

definition float_fsigndiff :: "single \<Rightarrow> single \<Rightarrow> int" where
  "float_fsigndiff x y =
     (push_bit 31 (of_bool (sign_bit x)) XOR push_bit 31 (of_bool (sign_bit y))) AND 0x80000000"

subsection \<open>Operations on the elements\<close>

definition float_vecset_block :: "m128 \<Rightarrow> nat \<Rightarrow> single list \<Rightarrow> single list result" where
  "float_vecset_block XMM0 i x =
     plfit_check (mm_store_ps x i XMM0) (\<lambda>x.
     plfit_check (mm_store_ps x (i + 4) XMM0) (\<lambda>x.
     plfit_check (mm_store_ps x (i + 8) XMM0) (\<lambda>x.
     mm_store_ps x (i + 12) XMM0)))"

definition float_vecset :: "single list \<Rightarrow> single \<Rightarrow> nat \<Rightarrow> single list result" where
  "float_vecset x c n = (let XMM0 = mm_set_ps1 c in loop_res (float_vecset_block XMM0) (blocks 16 n) x)"

definition float_veccpy_block :: "single list \<Rightarrow> nat \<Rightarrow> single list \<Rightarrow> single list result" where
  "float_veccpy_block x i y =
     plfit_check (mm_load_ps x i) (\<lambda>XMM0.
     plfit_check (mm_load_ps x (i + 4)) (\<lambda>XMM1.
     plfit_check (mm_load_ps x (i + 8)) (\<lambda>XMM2.
     plfit_check (mm_load_ps x (i + 12)) (\<lambda>XMM3.
     plfit_check (mm_store_ps y i XMM0) (\<lambda>y.
     plfit_check (mm_store_ps y (i + 4) XMM1) (\<lambda>y.
     plfit_check (mm_store_ps y (i + 8) XMM2) (\<lambda>y.
     mm_store_ps y (i + 12) XMM3)))))))"

definition float_veccpy :: "single list \<Rightarrow> single list \<Rightarrow> nat \<Rightarrow> single list result" where
  "float_veccpy y x n = loop_res (float_veccpy_block x) (blocks 16 n) y"

definition float_vecncpy_block :: "single list \<Rightarrow> nat \<Rightarrow> single list \<Rightarrow> single list result" where
  "float_vecncpy_block x i y =
     plfit_check (mm_load_ps x i) (\<lambda>XMM0.
     plfit_check (mm_load_ps x (i + 4)) (\<lambda>XMM1.
     plfit_check (mm_load_ps x (i + 8)) (\<lambda>XMM2.
     plfit_check (mm_load_ps x (i + 12)) (\<lambda>XMM3.
     let XMM0 = mm_xor_sign_ps XMM0;
         XMM1 = mm_xor_sign_ps XMM1;
         XMM2 = mm_xor_sign_ps XMM2;
         XMM3 = mm_xor_sign_ps XMM3
     in plfit_check (mm_store_ps y i XMM0) (\<lambda>y.
     plfit_check (mm_store_ps y (i + 4) XMM1) (\<lambda>y.
     plfit_check (mm_store_ps y (i + 8) XMM2) (\<lambda>y.
     mm_store_ps y (i + 12) XMM3)))))))"

definition float_vecncpy :: "single list \<Rightarrow> single list \<Rightarrow> nat \<Rightarrow> single list result" where
  "float_vecncpy y x n = loop_res (float_vecncpy_block x) (blocks 16 n) y"

definition float_vecadd_block :: "single list \<Rightarrow> m128 \<Rightarrow> nat \<Rightarrow> single list \<Rightarrow> single list result" where
  "float_vecadd_block x XMM7 i y =
     plfit_check (mm_load_ps x i) (\<lambda>XMM0.
     plfit_check (mm_load_ps x (i + 4)) (\<lambda>XMM1.
     plfit_check (mm_load_ps y i) (\<lambda>XMM2.
     plfit_check (mm_load_ps y (i + 4)) (\<lambda>XMM3.
     let XMM0 = mm_mul_ps XMM0 XMM7;
         XMM1 = mm_mul_ps XMM1 XMM7;
         XMM2 = mm_add_ps XMM2 XMM0;
         XMM3 = mm_add_ps XMM3 XMM1
     in plfit_check (mm_store_ps y i XMM2) (\<lambda>y.
     mm_store_ps y (i + 4) XMM3)))))"

definition float_vecadd :: "single list \<Rightarrow> single list \<Rightarrow> single \<Rightarrow> nat \<Rightarrow> single list result" where
  "float_vecadd y x c n = (let XMM7 = mm_set_ps1 c in loop_res (float_vecadd_block x XMM7) (blocks 8 n) y)"

definition float_vecdiff_block :: "single list \<Rightarrow> single list \<Rightarrow> nat \<Rightarrow> single list \<Rightarrow> single list result" where
  "float_vecdiff_block x y i z =
     plfit_check (mm_load_ps x i) (\<lambda>XMM0.
     plfit_check (mm_load_ps x (i + 4)) (\<lambda>XMM1.
     plfit_check (mm_load_ps x (i + 8)) (\<lambda>XMM2.
     plfit_check (mm_load_ps x (i + 12)) (\<lambda>XMM3.
     plfit_check (mm_load_ps y i) (\<lambda>XMM4.
     plfit_check (mm_load_ps y (i + 4)) (\<lambda>XMM5.
     plfit_check (mm_load_ps y (i + 8)) (\<lambda>XMM6.
     plfit_check (mm_load_ps y (i + 12)) (\<lambda>XMM7.
     let XMM0 = mm_sub_ps XMM0 XMM4;
         XMM1 = mm_sub_ps XMM1 XMM5;
         XMM2 = mm_sub_ps XMM2 XMM6;
         XMM3 = mm_sub_ps XMM3 XMM7
     in plfit_check (mm_store_ps z i XMM0) (\<lambda>z.
     plfit_check (mm_store_ps z (i + 4) XMM1) (\<lambda>z.
     plfit_check (mm_store_ps z (i + 8) XMM2) (\<lambda>z.
     mm_store_ps z (i + 12) XMM3)))))))))))"

definition float_vecdiff :: "single list \<Rightarrow> single list \<Rightarrow> single list \<Rightarrow> nat \<Rightarrow> single list result" where
  "float_vecdiff z x y n = loop_res (float_vecdiff_block x y) (blocks 16 n) z"

definition float_vecscale_block :: "m128 \<Rightarrow> nat \<Rightarrow> single list \<Rightarrow> single list result" where
  "float_vecscale_block XMM7 i y =
     plfit_check (mm_load_ps y i) (\<lambda>XMM0.
     plfit_check (mm_load_ps y (i + 4)) (\<lambda>XMM1.
     let XMM0 = mm_mul_ps XMM0 XMM7;
         XMM1 = mm_mul_ps XMM1 XMM7
     in plfit_check (mm_store_ps y i XMM0) (\<lambda>y.
     mm_store_ps y (i + 4) XMM1)))"

definition float_vecscale :: "single list \<Rightarrow> single \<Rightarrow> nat \<Rightarrow> single list result" where
  "float_vecscale y c n = (let XMM7 = mm_set_ps1 c in loop_res (float_vecscale_block XMM7) (blocks 8 n) y)"

definition float_vecmul_block :: "single list \<Rightarrow> nat \<Rightarrow> single list \<Rightarrow> single list result" where
  "float_vecmul_block x i y =
     plfit_check (mm_load_ps x i) (\<lambda>XMM0.
     plfit_check (mm_load_ps x (i + 4)) (\<lambda>XMM1.
     plfit_check (mm_load_ps x (i + 8)) (\<lambda>XMM2.
     plfit_check (mm_load_ps x (i + 12)) (\<lambda>XMM3.
     plfit_check (mm_load_ps y i) (\<lambda>XMM4.
     plfit_check (mm_load_ps y (i + 4)) (\<lambda>XMM5.
     plfit_check (mm_load_ps y (i + 8)) (\<lambda>XMM6.
     plfit_check (mm_load_ps y (i + 12)) (\<lambda>XMM7.
     let XMM4 = mm_mul_ps XMM4 XMM0;
         XMM5 = mm_mul_ps XMM5 XMM1;
         XMM6 = mm_mul_ps XMM6 XMM2;
         XMM7 = mm_mul_ps XMM7 XMM3
     in plfit_check (mm_store_ps y i XMM4) (\<lambda>y.
     plfit_check (mm_store_ps y (i + 4) XMM5) (\<lambda>y.
     plfit_check (mm_store_ps y (i + 8) XMM6) (\<lambda>y.
     mm_store_ps y (i + 12) XMM7)))))))))))"

definition float_vecmul :: "single list \<Rightarrow> single list \<Rightarrow> nat \<Rightarrow> single list result" where
  "float_vecmul y x n = loop_res (float_vecmul_block x) (blocks 16 n) y"

subsection \<open>Sums\<close>

text \<open>
  \<open>__horizontal_sum\<close>, which leaves the sum of the lanes in the lowest lane: with the instruction
  of SSE3 (\<open>sse3\<close>), or by two shuffles.
\<close>

definition horizontal_sum :: "bool \<Rightarrow> m128 \<Rightarrow> m128" where
  "horizontal_sum sse3 r =
     (if sse3 then let r = mm_hadd_ps r r in mm_hadd_ps r r
      else
        let rw = r;
            r = mm_shuffle_ps r rw (mm_SHUFFLE 1 0 3 2);
            r = mm_add_ps r rw;
            rw = r;
            r = mm_shuffle_ps r rw (mm_SHUFFLE 2 3 0 1)
        in mm_add_ps r rw)"

definition float_vecdot_block ::
  "single list \<Rightarrow> single list \<Rightarrow> nat \<Rightarrow> m128 \<times> m128 \<Rightarrow> (m128 \<times> m128) result" where
  "float_vecdot_block x y i = (\<lambda>(XMM0, XMM1).
     plfit_check (mm_load_ps x i) (\<lambda>XMM2.
     plfit_check (mm_load_ps x (i + 4)) (\<lambda>XMM3.
     plfit_check (mm_load_ps y i) (\<lambda>XMM4.
     plfit_check (mm_load_ps y (i + 4)) (\<lambda>XMM5.
     let XMM2 = mm_mul_ps XMM2 XMM4;
         XMM3 = mm_mul_ps XMM3 XMM5
     in Inr (mm_add_ps XMM0 XMM2, mm_add_ps XMM1 XMM3))))))"

definition float_vecdot :: "bool \<Rightarrow> single list \<Rightarrow> single list \<Rightarrow> nat \<Rightarrow> single result" where
  "float_vecdot sse3 x y n =
     plfit_check (loop_res (float_vecdot_block x y) (blocks 8 n) (mm_setzero_ps, mm_setzero_ps)) (\<lambda>(XMM0, XMM1).
       let XMM0 = mm_add_ps XMM0 XMM1;
           XMM0 = horizontal_sum sse3 XMM0
       in Inr (m0 XMM0))"

definition float_norm_block :: "single list \<Rightarrow> nat \<Rightarrow> m128 \<times> m128 \<Rightarrow> (m128 \<times> m128) result" where
  "float_norm_block x i = (\<lambda>(XMM0, XMM1).
     plfit_check (mm_load_ps x i) (\<lambda>XMM2.
     plfit_check (mm_load_ps x (i + 4)) (\<lambda>XMM3.
     let XMM2 = mm_mul_ps XMM2 XMM2;
         XMM3 = mm_mul_ps XMM3 XMM3
     in Inr (mm_add_ps XMM0 XMM2, mm_add_ps XMM1 XMM3))))"

definition float_vec2norm :: "(single \<Rightarrow> single) \<Rightarrow> bool \<Rightarrow> single list \<Rightarrow> nat \<Rightarrow> single result" where
  "float_vec2norm rs sse3 x n =
     plfit_check (loop_res (float_norm_block x) (blocks 8 n) (mm_setzero_ps, mm_setzero_ps)) (\<lambda>(XMM0, XMM1).
       let XMM0 = mm_add_ps XMM0 XMM1;
           XMM0 = horizontal_sum sse3 XMM0;
           XMM2 = XMM0;
           XMM1 = mm_rsqrt_ss rs XMM0;
           XMM3 = XMM1;
           XMM1 = mm_mul_ss XMM1 XMM1;
           XMM1 = mm_mul_ss XMM1 XMM3;
           XMM1 = mm_mul_ss XMM1 XMM0;
           XMM1 = mm_mul_ss XMM1 (mm_set_ss (Fin (- 1 / 2)));
           XMM3 = mm_mul_ss XMM3 (mm_set_ss (Fin (3 / 2)));
           XMM3 = mm_add_ss XMM3 XMM1;
           XMM3 = mm_mul_ss XMM3 XMM2
       in Inr (m0 XMM3))"

text \<open>The loop of \<open>vec2norminv\<close> advances by sixteen although its body reads eight elements.\<close>

definition float_vec2norminv :: "(single \<Rightarrow> single) \<Rightarrow> bool \<Rightarrow> single list \<Rightarrow> nat \<Rightarrow> single result" where
  "float_vec2norminv rs sse3 x n =
     plfit_check (loop_res (float_norm_block x) (blocks 16 n) (mm_setzero_ps, mm_setzero_ps)) (\<lambda>(XMM0, XMM1).
       let XMM0 = mm_add_ps XMM0 XMM1;
           XMM0 = horizontal_sum sse3 XMM0;
           XMM1 = mm_rsqrt_ss rs XMM0;
           XMM3 = XMM1;
           XMM1 = mm_mul_ss XMM1 XMM1;
           XMM1 = mm_mul_ss XMM1 XMM3;
           XMM1 = mm_mul_ss XMM1 XMM0;
           XMM1 = mm_mul_ss XMM1 (mm_set_ss (Fin (- 1 / 2)));
           XMM3 = mm_mul_ss XMM3 (mm_set_ss (Fin (3 / 2)));
           XMM3 = mm_add_ss XMM3 XMM1
       in Inr (m0 XMM3))"


subsection \<open>What the loops over elements do\<close>

lemmas float_block_simps = mm_load_ps_if mm_store_ps_if ps_defs numeral_eq_Suc Let_def on_range_Suc

interpretation float_set: block_op 16 N "float_vecset_block (mm_set_ps1 c)" "\<lambda>_ _. c"
  by unfold_locales (auto simp: float_vecset_block_def float_block_simps)

interpretation float_cpy: block_op 16 "length x" "float_veccpy_block x" "\<lambda>j _. x ! j"
  by unfold_locales (auto simp: float_veccpy_block_def float_block_simps)

interpretation float_ncpy: block_op 16 "length x" "float_vecncpy_block x" "\<lambda>j _. dneg (x ! j)"
  by unfold_locales (auto simp: float_vecncpy_block_def float_block_simps)

interpretation float_add: block_op 8 "length x" "float_vecadd_block x (mm_set_ps1 c)" "\<lambda>j a. sadd a (smul (x ! j) c)"
  by unfold_locales (auto simp: float_vecadd_block_def float_block_simps)

interpretation float_diff:
  block_op 16 "min (length x) (length y)" "float_vecdiff_block x y" "\<lambda>j _. ssub (x ! j) (y ! j)"
  by unfold_locales (auto simp: float_vecdiff_block_def float_block_simps)

interpretation float_scale: block_op 8 N "float_vecscale_block (mm_set_ps1 c)" "\<lambda>_ a. smul a c"
  by unfold_locales (auto simp: float_vecscale_block_def float_block_simps)

interpretation float_mul: block_op 16 "length x" "float_vecmul_block x" "\<lambda>j a. smul a (x ! j)"
  by unfold_locales (auto simp: float_vecmul_block_def float_block_simps)

lemma float_elements:
  assumes "16 dvd n" "length x = n" "length y = n" "length z = n"
  shows "float_vecset x c n = Inr (map (\<lambda>_. c) x)"
    and "float_veccpy y x n = Inr x"
    and "float_vecncpy y x n = Inr (map dneg x)"
    and "float_vecadd y x c n = Inr (map2 (\<lambda>a b. sadd a (smul b c)) y x)"
    and "float_vecdiff z x y n = Inr (map2 ssub x y)"
    and "float_vecscale y c n = Inr (map (\<lambda>a. smul a c) y)"
    and "float_vecmul y x n = Inr (map2 smul y x)"
proof -
  have eight: "8 dvd n" using assms(1) dvd_trans [of "8::nat" 16 n] by simp
  note w = on_range_whole float_set.loop_in float_cpy.loop_in float_ncpy.loop_in float_add.loop_in
    float_diff.loop_in float_scale.loop_in float_mul.loop_in
  show "float_vecset x c n = Inr (map (\<lambda>_. c) x)" using assms by (simp add: float_vecset_def w)
  show "float_veccpy y x n = Inr x" using assms by (simp add: float_veccpy_def w)
  show "float_vecncpy y x n = Inr (map dneg x)" using assms by (simp add: float_vecncpy_def w)
  show "float_vecadd y x c n = Inr (map2 (\<lambda>a b. sadd a (smul b c)) y x)"
    using assms eight by (simp add: float_vecadd_def w)
  show "float_vecdiff z x y n = Inr (map2 ssub x y)" using assms by (simp add: float_vecdiff_def w)
  show "float_vecscale y c n = Inr (map (\<lambda>a. smul a c) y)"
    using assms eight by (simp add: float_vecscale_def w)
  show "float_vecmul y x n = Inr (map2 smul y x)" using assms by (simp add: float_vecmul_def w)
qed

lemma float_outside:
  assumes "\<not> 16 dvd n" "length x = n" "length y = n" "length z = n"
  shows "float_vecset x c n = Inl Undefined" "float_veccpy y x n = Inl Undefined"
    "float_vecncpy y x n = Inl Undefined" "float_vecdiff z x y n = Inl Undefined"
    "float_vecmul y x n = Inl Undefined"
  using assms float_set.loop_out [of x n c] float_cpy.loop_out [of y x] float_ncpy.loop_out [of y x]
    float_diff.loop_out [of z x y] float_mul.loop_out [of y x]
  by (simp_all add: float_vecset_def float_veccpy_def float_vecncpy_def float_vecdiff_def float_vecmul_def)

subsection \<open>What the sums are\<close>

text \<open>
  The \<open>r\<close>-th of eight partial sums over \<open>p\<close> blocks that begin \<open>k\<close> elements apart, and the sum of
  all eight in the order of \<open>horizontal_sum\<close>.
\<close>

definition float_lane :: "nat \<Rightarrow> single list \<Rightarrow> single list \<Rightarrow> nat \<Rightarrow> nat \<Rightarrow> single" where
  "float_lane k x y p r = foldl (\<lambda>s j. sadd s (smul (x ! (k * j + r)) (y ! (k * j + r)))) 0 [0..<p]"

definition float_sum :: "bool \<Rightarrow> nat \<Rightarrow> single list \<Rightarrow> single list \<Rightarrow> nat \<Rightarrow> single" where
  "float_sum sse3 k x y p =
     (let t = \<lambda>r. sadd (float_lane k x y p r) (float_lane k x y p (r + 4)) in
      if sse3 then sadd (sadd (t 0) (t 1)) (sadd (t 2) (t 3))
      else sadd (sadd (t 3) (t 1)) (sadd (t 2) (t 0)))"

lemma horizontal_sum_lanes:
  "m0 (horizontal_sum sse3 (M128 a b c d)) =
     (if sse3 then sadd (sadd a b) (sadd c d) else sadd (sadd d b) (sadd c a))"
proof -
  have imm: "mm_SHUFFLE 1 0 3 2 = 78" "mm_SHUFFLE 2 3 0 1 = 177" by code_simp+
  have lanes: "mm_lane r 78 = m2 r" "mm_lane r 19 = m3 r" "mm_lane r 4 = m0 r" "mm_lane r 1 = m1 r"
    "mm_lane r 177 = m1 r" for r
    by (simp_all add: mm_lane_def)
  show ?thesis
    by (simp add: horizontal_sum_def mm_hadd_ps_def mm_shuffle_ps_def imm lanes mm_add_ps_def Let_def)
qed

lemma float_loop:
  assumes "8 \<le> k"
  shows "k * p \<le> length x \<Longrightarrow> k * p \<le> length y \<Longrightarrow>
   loop_res (float_vecdot_block x y) (map ((*) k) [0..<p]) (mm_setzero_ps, mm_setzero_ps) =
     Inr (M128 (float_lane k x y p 0) (float_lane k x y p 1) (float_lane k x y p 2) (float_lane k x y p 3),
          M128 (float_lane k x y p 4) (float_lane k x y p 5) (float_lane k x y p 6) (float_lane k x y p 7))"
proof (induction p)
  case (Suc p)
  then have "k * p + 8 \<le> length x" "k * p + 8 \<le> length y" using assms by simp_all
  with Suc show ?case
    by (simp add: loop_res_append float_vecdot_block_def mm_load_ps_if ps_defs Let_def float_lane_def numeral_eq_Suc)
qed (simp add: float_lane_def ps_defs)

lemma float_norm_block_dot: "float_norm_block x = float_vecdot_block x x"
  by (auto simp: fun_eq_iff float_norm_block_def float_vecdot_block_def mm_load_ps_if Let_def)

text \<open>One Newton step towards the inverse square root of \<open>s\<close>.\<close>

definition newton :: "(single \<Rightarrow> single) \<Rightarrow> single \<Rightarrow> single" where
  "newton rs s =
     (let r = rs s in sadd (smul r (Fin (3 / 2))) (smul (smul (smul (smul r r) r) s) (Fin (- 1 / 2))))"

lemma float_sums:
  assumes "8 * p \<le> length x" "8 * p \<le> length y"
  shows "float_vecdot sse3 x y (8 * p) = Inr (float_sum sse3 8 x y p)"
    and "float_vec2norm rs sse3 x (8 * p) =
      Inr (smul (newton rs (float_sum sse3 8 x x p)) (float_sum sse3 8 x x p))"
  using assms float_loop [of 8 p x y] float_loop [of 8 p x x]
  by (simp_all add: float_vecdot_def float_vec2norm_def float_norm_block_dot blocks_exact mm_add_ps_def
      horizontal_sum_lanes float_sum_def newton_def mm_rsqrt_ss_def mm_mul_ss_def mm_add_ss_def mm_set_ss_def Let_def)

lemma float_norminv:
  assumes "16 * p \<le> length x"
  shows "float_vec2norminv rs sse3 x (16 * p) = Inr (newton rs (float_sum sse3 16 x x p))"
  using assms float_loop [of 16 p x x]
  by (simp add: float_vec2norminv_def float_norm_block_dot blocks_exact mm_add_ps_def
      horizontal_sum_lanes float_sum_def newton_def mm_rsqrt_ss_def mm_mul_ss_def mm_add_ss_def mm_set_ss_def Let_def)


text \<open>The sum of squares of zeros, and the Newton step there: the reciprocal of zero is infinite.\<close>

lemma zero_single [simp]: "smul 0 0 = 0" "sadd 0 0 = 0"
  by (simp_all add: smul_def sadd_def to_single_def zero_double_def)

lemma float_sum_zeros:
  assumes "k * p \<le> n" "8 \<le> k"
  shows "float_sum sse3 k (replicate n 0) (replicate n 0) p = 0"
proof -
  have "float_lane k (replicate n 0) (replicate n 0) q r = 0" if "r < 8" "q \<le> p" for r q
    using that(2)
  proof (induction q)
    case (Suc q)
    then have "k * (q + 1) \<le> k * p" by (intro mult_le_mono2) simp
    then have "k * q + r < n" using assms that(1) by simp
    with Suc show ?case by (simp add: float_lane_def)
  qed (simp add: float_lane_def)
  then show ?thesis by (simp add: float_sum_def Let_def)
qed

lemma newton_zero: "rs 0 = PInf \<Longrightarrow> newton rs 0 = NaN"
  by (simp add: newton_def Let_def smul_def sadd_def dmul_def dadd_def dinf_def zero_double_def)

lemma float_sum_cong:
  assumes "\<And>j r. j < p \<Longrightarrow> r < 8 \<Longrightarrow> x ! (k * j + r) = y ! (k * j + r)"
  shows "float_sum sse3 k x x p = float_sum sse3 k y y p"
proof -
  have "float_lane k x x p r = float_lane k y y p r" if "r < 8" for r
    unfolding float_lane_def by (rule foldl_cong) (use assms that in auto)
  then show ?thesis by (simp add: float_sum_def Let_def)
qed

subsection \<open>Properties\<close>

text \<open>
  C22. With floats the arrays of the optimiser do not fit the blocks: the number of variables is
  rounded up to a multiple of eight, and for every number whose rounding is an odd multiple, one
  variable among them, copying one array of the allocated length to another reads and writes
  behind their ends; only even multiples are copied.
\<close>

theorem float_blocks_overrun:
  assumes "0 < n" "n + 7 < 2 ^ 31" "\<And>b. c_alloc L b"
  shows "\<exists>x m. round_out_variables n = Inr (int m) \<and> float_lbfgs_malloc L n = Inr (Some x) \<and> length x = m \<and>
    m = 8 * ((nat n + 7) div 8) \<and>
    (\<forall>y. length y = m \<longrightarrow>
      float_veccpy y x m = (if even ((nat n + 7) div 8) then Inr x else Inl Undefined))"
proof -
  define m where "m = 8 * ((nat n + 7) div 8)"
  have "(n + 7) sdiv 8 * 8 = int m"
    using assms(1) by (simp add: m_def signed_divide_int_def zdiv_int)
  then have r: "round_out_variables n = Inr (int m)" using assms(2) by (simp add: round_out_variables_def)
  have "nat (int sizeof_float * int m) div sizeof_float = m" by (simp add: sizeof_float_def nat_mult_distrib)
  then have a: "float_lbfgs_malloc L n = Inr (Some (replicate m 0))"
    using assms(1,3) by (simp add: float_lbfgs_malloc_def r float_vecalloc_def)
  have "even ((nat n + 7) div 8) \<longleftrightarrow> 16 dvd m"
    using mult_dvd_mono [of 8 8 2 "(nat n + 7) div 8"] by (auto simp: m_def elim!: dvdE)
  then have "float_veccpy y (replicate m 0) m =
      (if even ((nat n + 7) div 8) then Inr (replicate m 0) else Inl Undefined)" if "length y = m" for y
    using that float_elements(2) [of m "replicate m 0" y y] float_outside(2) [of m "replicate m 0" y y] by simp
  then show ?thesis using r a by (intro exI [of _ "replicate m 0"] exI [of _ m]) (simp add: m_def)
qed

theorem float_blocks_overrun_witness:
  "\<exists>x. float_lbfgs_malloc (plain_clib\<lparr>c_alloc := \<lambda>_. True\<rparr>) 1 = Inr (Some x) \<and> float_veccpy x x (length x) = Inl Undefined"
proof -
  obtain x m where "float_lbfgs_malloc (plain_clib\<lparr>c_alloc := \<lambda>_. True\<rparr>) 1 = Inr (Some x)" "length x = m"
    "\<forall>y. length y = m \<longrightarrow> float_veccpy y x m = (if even ((nat 1 + 7) div (8 :: nat)) then Inr x else Inl Undefined)"
    using float_blocks_overrun [of 1 "plain_clib\<lparr>c_alloc := \<lambda>_. True\<rparr>"] by auto
  then show ?thesis by auto
qed

text \<open>
  C23. The norms of floats: \<open>vec2norminv\<close> reads only the first eight of every sixteen elements, so
  that arrays that agree there have the same inverse norm; and with an approximation that is
  infinite at zero both the norm of an array of zeros and the inverse norm of an array whose
  non-zero elements are all skipped are NaN.
\<close>

theorem float_norms:
  assumes "length x = 16 * p" "length y = 16 * p" "rs 0 = PInf"
    "\<And>j r. j < p \<Longrightarrow> r < 8 \<Longrightarrow> x ! (16 * j + r) = y ! (16 * j + r)"
  shows "float_vec2norminv rs sse3 x (16 * p) = float_vec2norminv rs sse3 y (16 * p) \<and>
    (y = replicate (16 * p) 0 \<longrightarrow>
       float_vec2norminv rs sse3 x (16 * p) = Inr NaN \<and> float_vec2norm rs sse3 y (16 * p) = Inr NaN)"
proof -
  have e: "float_vec2norminv rs sse3 x (16 * p) = float_vec2norminv rs sse3 y (16 * p)"
    using float_sum_cong [of p x 16 y sse3] assms(1,2,4) by (simp add: float_norminv)
  have "float_vec2norminv rs sse3 x (16 * p) = Inr NaN" "float_vec2norm rs sse3 y (16 * p) = Inr NaN"
    if y: "y = replicate (16 * p) 0"
  proof -
    show "float_vec2norminv rs sse3 x (16 * p) = Inr NaN"
      using float_norminv [of p y rs sse3] float_sum_zeros [of 16 p "16 * p"] newton_zero assms(3) by (simp add: e y)
    have "float_vec2norm rs sse3 y (8 * (2 * p)) = Inr NaN"
      using float_sums(2) [of "2 * p" y y rs sse3] float_sum_zeros [of 8 "2 * p" "16 * p" sse3] newton_zero [of rs] assms(3)
      by (simp add: y smul_def dmul_def)
    then show "float_vec2norm rs sse3 y (16 * p) = Inr NaN" by simp
  qed
  with e show ?thesis by blast
qed

theorem float_norms_witness:
  "float_vec2norminv (\<lambda>_. PInf) True ((replicate 16 0)[8 := Fin 3]) (16 * 1) = Inr NaN"
proof -
  let ?x = "(replicate 16 0)[8 := Fin 3]" and ?y = "replicate (16 * 1) (0 :: single)"
  have "?x ! (16 * j + r) = ?y ! (16 * j + r)" if "j < 1" "r < 8" for j r using that by simp
  then have "?y = replicate (16 * 1) 0 \<longrightarrow>
      float_vec2norminv (\<lambda>_. PInf) True ?x (16 * 1) = Inr NaN \<and> float_vec2norm (\<lambda>_. PInf) True ?y (16 * 1) = Inr NaN"
    by (intro float_norms [THEN conjunct2]) simp_all
  then show ?thesis by simp
qed

end
