(* ===== verification/Spec2Isabelle.thy ===== *)
theory Spec2Isabelle
  imports Prelude Clib Mt Sampling Walker Options Stats Kolmogorov Gss Arrays Rbinom Resample
    Continuous Continuous_P Hzeta Hzeta_Tables Vec Lbfgs Lbfgs_Memory Lbfgs_Search Lbfgs_P
    Discrete Discrete_P Discrete_Search Discrete_Pvalue Stdio Getopt Plgen Plfit_Main
    Pipeline Runs Sse Sse_Float
begin

text \<open>
  plfit fits power-law distributions to samples. Given a sample it estimates the exponent
  \<open>alpha\<close> and the lower cutoff \<open>xmin\<close> of a continuous (\<open>plfit_continuous\<close>) or discrete
  (\<open>plfit_discrete\<close>) power law: for every candidate \<open>xmin\<close> it computes the maximum likelihood
  estimate of \<open>alpha\<close> on the points from \<open>xmin\<close> on and the Kolmogorov-Smirnov distance between
  fit and data, keeps the candidate with the least distance, and judges the fit by a p-value,
  which is approximate or the share of synthetic samples whose own fit is worse.

  \<^bold>\<open>Parts and their interaction.\<close> \<open>src/plfit.c\<close> holds the fitting. It sorts a copy of the sample
  and collects pointers to its unique elements, searches the continuous \<open>xmin\<close> by a scan, by
  strata or by golden section search (\<open>src/gss.c\<close>, which calls back into \<open>plfit.c\<close>), estimates
  the discrete exponent by a scan over a grid, by the continuous formula or with the L-BFGS
  optimiser (\<open>src/lbfgs.c\<close> on \<open>src/arithmetic_ansi.h\<close>, which calls back into \<open>plfit.c\<close>), takes
  the Hurwitz zeta function from \<open>src/hzeta.c\<close> and the Kolmogorov distribution from
  \<open>src/kolmogorov.c\<close>. Synthetic samples come from \<open>src/sampling.c\<close> and \<open>src/rbinom.c\<close>, which
  draw from \<open>rand\<close> or from the Mersenne Twister of \<open>src/mt.c\<close>. \<open>src/options.c\<close> and
  \<open>src/error.c\<close> hold the defaults and the error handlers, \<open>src/stats.c\<close> the moments.

  \<^bold>\<open>Numbers.\<close> The theory \<open>Rounding\<close> defines rounding of rationals to a binary format, \<open>Double\<close>
  the type \<open>double\<close> (binary64: signed zero, infinities, one NaN, round to nearest even) with
  executable arithmetic, \<open>Double_Arith\<close> the facts about it, \<open>Long_Double\<close> the 80-bit format that
  two functions of \<open>hzeta.c\<close> use. Decimal constants are written \<open>lit q\<close>, the double nearest to
  \<open>q\<close>. Machine words of the twister are 32-bit words; sizes and array indices are natural
  numbers, with wrap-around written out where the code relies on it.

  \<^bold>\<open>Conventions.\<close> \<open>Prelude\<close>: a function that returns an error code and writes through pointers
  yields a \<open>result\<close>: \<open>Inr\<close> of what it writes on success, \<open>Inl (Err e)\<close> for the code \<open>e\<close>,
  \<open>Inl Undefined\<close> where C's behaviour is undefined (an access outside an array, the conversion of
  a double that the integer type cannot hold, the use of a value that was never set) and
  \<open>Inl Out_of_fuel\<close>. The error handler of the library's models is one that returns, since the code after \<open>PLFIT_ERROR\<close>
  only runs then; the handlers themselves are in \<open>Options\<close>. \<open>Clib\<close>: what C leaves to the
  implementation (the functions of \<open>math.h\<close> that are not correctly rounded, whether an
  allocation is granted, \<open>rand\<close>) are fields of a record \<open>clib\<close>, and everything is proved for all
  such records, or for those with a property that is stated; \<open>qsort\<close> is an insertion sort with the
  program's comparison function, and the locale \<open>comparison\<close> its contract. State
  is passed explicitly: the generator (\<open>rng\<close>), the static variables of \<open>plfit_rbinom\<close>, the
  instance of a callback.

  \<^bold>\<open>Theories and code.\<close>
  \<^item> \<open>Mt\<close>: \<open>src/mt.c\<close>. Seeding, the twist in its three pieces, the outputs. The outputs follow the
    recurrence of the generator; uniform numbers lie in the closed unit interval.
  \<^item> \<open>Sampling\<close>, \<open>Walker\<close>: \<open>src/sampling.c\<close>. Pareto and zeta variates by inversion and rejection,
    over an interface for sources of uniform numbers (a locale that both generators satisfy); the
    alias table keeps its work arrays in bounds, represents the weights exactly when they are
    exactly representable, and draws only valid indices.
  \<^item> \<open>Options\<close>, \<open>Stats\<close>, \<open>Kolmogorov\<close>: \<open>src/options.c\<close>, \<open>src/error.c\<close>, \<open>src/stats.c\<close>,
    \<open>src/kolmogorov.c\<close>.
  \<^item> \<open>Gss\<close>: \<open>src/gss.c\<close>. The search with its callbacks, over a locale for objective functions whose
    evaluations keep an invariant: the minimum it returns is the best of its evaluations, and an
    objective that is undefined outside of the bracket gives the same run. A search can be run with
    a record of its points (\<open>recording\<close>), which changes nothing else.
  \<^item> \<open>Arrays\<close>: sorted copies, small elements, unique elements (\<open>src/plfit.c\<close>, first part).
  \<^item> \<open>Rbinom\<close>: \<open>src/rbinom.c\<close>. The cache of the last arguments changes no result.
  \<^item> \<open>Resample\<close>: synthetic samples (\<open>plfit_i_resample_*\<close>, \<open>plfit_resample_*\<close>).
  \<^item> \<open>Continuous\<close>, \<open>Continuous_P\<close>: continuous fitting. \<open>fit_continuous\<close> is \<open>plfit_continuous\<close> up to
    its p-value, \<open>estimate_core\<close> the same for a given \<open>xmin\<close>; they yield a \<open>fit_report\<close>, which
    keeps the distance that is in the caller's structure when the fit fails, because the p-value
    reads it. The properties: both estimators agree, the distance is the greatest gap, the scan
    finds the least distance, what each search returns (for golden section search in terms of the
    recorded points), the whole result of a fit and the causes of its failure, the p-value's range,
    and that the repeated fits are the public functions.
  \<^item> \<open>Hzeta\<close>, \<open>Hzeta_Tables\<close>: \<open>src/hzeta.c\<close>. The sums with their arrays of terms, where each loop
    equals a closed description of the partial sums; which arguments overrun the array of
    the zeta function; the logarithm never does; the two tables of constants are the nearest
    doubles to the quotients of Bernoulli numbers they stand for.
  \<^item> \<open>Vec\<close>, \<open>Lbfgs\<close>: \<open>src/arithmetic_ansi.h\<close>, \<open>src/lbfgs.h\<close>, \<open>src/lbfgs.c\<close>. An iteration is split
    into the line search (\<open>lbfgs_linesearch\<close>), the callback and tests (\<open>lbfgs_accepted\<close>,
    \<open>lbfgs_tests\<close>) and the new direction (\<open>lbfgs_update\<close>); \<open>lbfgs_state\<close> holds the local
    variables that survive it. \<open>Lbfgs_Memory\<close>: the ring buffer of pairs refines a list of the last
    pairs, and the two loops over it a recursion over the list. \<open>Lbfgs_Search\<close>: the contract of a
    client (the locale \<open>lbfgs_client\<close>), the number of evaluations of a line search, the conditions
    at the point it accepts, the steps it may try. \<open>Lbfgs_P\<close>: the invariant of the state, safety,
    termination, soundness of reported convergence; the contract interpreted for pure objective
    functions.
  \<^item> \<open>Sse\<close>: \<open>src/arithmetic_sse_double.h\<close> and what \<open>src/lbfgs.c\<close> adds for it. The build file
    switches these variants of the vector operations on where the compiler has SSE2. The locale
    \<open>block_op\<close> is the contract of a loop over blocks, interpreted for the seven loops that write
    arrays. \<open>lbfgs\<close> itself is modelled on \<open>Vec\<close>; the theorems relate the operations one by one, on
    arrays that are padded with zeros, and say where they differ (the sign of a negated zero, the
    signs of a zero derivative, factors that are not finite, sums of several variables).
  \<^item> \<open>Sse_Float\<close>: \<open>src/arithmetic_sse_float.h\<close>, the variant for variables of type \<open>float\<close>, which a
    build gets by setting \<open>LBFGS_FLOAT\<close>. Its loops meet the same contract with other blocks; the
    theorems say which arrays of the optimiser it overruns and what its norms leave out.
  \<^item> \<open>Discrete\<close>, \<open>Discrete_P\<close>, \<open>Discrete_Search\<close>, \<open>Discrete_Pvalue\<close>: discrete fitting, laid out
    like the continuous one (\<open>fit_discrete\<close>, \<open>estimate_core_discrete\<close>). The negative
    log-likelihood is interpreted as a client of the optimiser; the scan over the grid returns its
    best point; the distance is the greatest gap; the candidates of the search are characterised
    (a value with two greater values after it always is one) and the result is the best of
    them; with the scan nothing undefined can happen; the p-value as above.

  \<^item> \<open>Stdio\<close>, \<open>Getopt\<close>: what the two programs use of \<open>stdio.h\<close>, with the scanner for numbers as an
    automaton and the formats of \<open>printf\<close>, and \<open>src/getopt.c\<close>. The locale \<open>getopt_client\<close> states
    what the branches of a program owe the loop over its options; its lemma is that every command
    line is parsed, inside the argument vector, and that the options keep an invariant.
  \<^item> \<open>Plgen\<close>: \<open>src/plgen.c\<close>, a client of \<open>getopt\<close>. Continuous samples are all printed and none lies
    below its bound; with a cutoff all samples are the same number.
  \<^item> \<open>Plfit_Main\<close>: \<open>src/main.c\<close>, the other client. The reader is described by the relations
    \<open>file_items\<close> and \<open>unterminated\<close> on the contents of a file; a run on a grid of exponents is
    defined from the file to the report. Both programs keep the aborting error handler, so there
    \<open>Inl (Err e)\<close> is the end of the program.
  \<^item> \<open>Pipeline\<close> and the end of this theory: \<open>plfit\<close> reads back what \<open>plgen\<close> prints. \<open>Runs\<close>: whole runs,
    the exit statuses of both programs with their causes (the option at which a program stops, the
    relation \<open>operands\<close> for what becomes of each operand), \<open>plfit\<close> over files of integers from the
    arguments to the end, and the pipe from \<open>plgen\<close> to \<open>plfit\<close>.

  \<^bold>\<open>Fuel.\<close> Loops whose end depends on the data take a number of iterations: rejection sampling
  (where no bound exists), golden section search, the iterations of \<open>lbfgs\<close>, and the scan over the
  exponents. \<open>lbfgs\<close> with a limit \<open>M\<close> on its iterations needs \<open>max 1 M\<close> units
  (\<open>lbfgs_terminates\<close>); the scan needs one unit per point of the grid and runs out exactly when
  all the points that the fuel allows lie below the upper bound (\<open>discrete_linear_scan_best\<close>). The
  options of a command line need one unit for each byte of it (\<open>plfit_parse_total\<close>), a comment in a
  file one for each byte, and a comment that does not end needs more than any number. All
  other loops are total functions with a measure: the line searches are bounded by
  \<open>max_linesearch\<close>, the others by their arrays.

  \<^bold>\<open>Idealised.\<close> One NaN instead of many; counters of type \<open>int\<close> that count iterations or points
  (\<open>k\<close> in \<open>lbfgs\<close>, \<open>m\<close> in \<open>plfit_i_ks_test_discrete\<close>) do not overflow; \<open>sizeof\<close> values and the
  widths of \<open>long\<close> and \<open>int\<close> are those of LP64; a batch of allocations of one size is granted or
  refused as a whole; options outside their enumerations do not occur, so the \<open>default\<close> branches
  that report them have no counterpart. The code is the build without OpenMP and
  \<open>PLFIT_DEBUG\<close>, and the optimiser the one on the portable vector operations (see \<open>Sse\<close>).

  \<^bold>\<open>Not modelled.\<close> The functions that only free memory, the help texts and the messages on the
  error stream, with the calls that only choose their words (\<open>isprint\<close> of an unknown option, which
  is undefined for a negative character), and the SWIG interface.
\<close>

text \<open>
  C40. \<open>plfit\<close> reads what \<open>plgen\<close> prints: when memory is granted, a file of lines printed by
  \<open>plgen\<close>, with integers up to \<open>2 ^ 53\<close> in magnitude and finite decimal numbers, has no bad byte,
  and the data read from it are the numbers printed, exactly for integers and rounded to eight
  decimals for continuous samples. The sample is taken to be discrete exactly if all the numbers
  read are integers and continuous fitting is not forced.
\<close>

theorem plgen_output_read_by_plfit:
  assumes "\<And>n. c_alloc L n" "list_all line_ok ls" "length (printed ls) \<le> fuel"
  shows "\<exists>rd. read_file L fuel opts (printed ls) = Inr (Read_data rd) \<and> rd_data rd = map line_value ls \<and>
    rd_warned rd = 0 \<and>
    rd_discrete rd = (\<not> cm_force_continuous opts \<and> list_all (\<lambda>l. deq (dfloor (line_value l)) (line_value l)) ls)"
  using assms by (rule printed_file_read)

theorem plgen_output_read_by_plfit_witness:
  "\<exists>rd. read_file plain_clib 99 plfit_defaults (printed [Long_line (- 12), Long_line 0]) =
      Inr (Read_data rd) \<and>
    rd_data rd = map line_value [Long_line (- 12), Long_line 0] \<and> rd_warned rd = 0 \<and>
    rd_discrete rd = (\<not> cm_force_continuous plfit_defaults \<and>
      list_all (\<lambda>l. deq (dfloor (line_value l)) (line_value l)) [Long_line (- 12), Long_line 0])"
proof -
  let ?ls = "[Long_line (- 12), Long_line 0]"
  have "length (printed ?ls) \<le> 99" "list_all line_ok ?ls" by code_simp+
  moreover have "c_alloc plain_clib n" for n by (simp add: plain_clib_def)
  ultimately show ?thesis by (intro plgen_output_read_by_plfit [of plain_clib ?ls 99 plfit_defaults])
qed

end
